(* ===== verification/Prelude.thy ===== *)
theory Prelude
  imports Main "HOL-Library.Word"
begin

text \<open>
  What every component of the development shares: the machine types, the
  collections of rewrite rules, the error monad of Go's \<open>(value, error)\<close>
  results, big-endian 16-bit numbers, and generic lemmas on lists and maps.
\<close>

section \<open>Machine types\<close>

type_synonym byte = "8 word"
type_synonym bytes = "byte list"
type_synonym u16 = "16 word"
type_synonym u64 = "64 word"

text \<open>A Go \<open>error\<close> is its message; \<open>(T, error)\<close> is a sum with the error on the left.\<close>

type_synonym 'a result = "string + 'a"

named_theorems golib_simps \<open>evaluation of the modelled standard library\<close>
named_theorems wire_simps \<open>evaluation of the byte formats\<close>
named_theorems step_simps \<open>what each state component is after a step\<close>

section \<open>The error monad\<close>

definition bind_result :: "('e + 'a) \<Rightarrow> ('a \<Rightarrow> 'e + 'b) \<Rightarrow> 'e + 'b" where
  "bind_result m f = (case m of Inl e \<Rightarrow> Inl e | Inr x \<Rightarrow> f x)"

lemma bind_result_simps [simp]:
  "bind_result (Inl e) f = Inl e"
  "bind_result (Inr x) f = f x"
  by (simp_all add: bind_result_def)

lemma bind_result_Inr_iff:
  "bind_result m f = Inr y \<longleftrightarrow> (\<exists>x. m = Inr x \<and> f x = Inr y)"
  by (cases m) auto

lemma bind_result_assoc:
  "bind_result (bind_result m f) g = bind_result m (\<lambda>x. bind_result (f x) g)"
  by (cases m) auto

definition is_err :: "('e + 'a) \<Rightarrow> bool" where
  "is_err r = (case r of Inl _ \<Rightarrow> True | Inr _ \<Rightarrow> False)"

lemma is_err_simps [simp]: "is_err (Inl e)" "\<not> is_err (Inr x)"
  by (simp_all add: is_err_def)

section \<open>Bytes and characters\<close>

text \<open>A Go string is a sequence of bytes; the model's \<open>char\<close> is such a byte.\<close>

lemma unat_byte_less [simp]: "unat (b :: byte) < 256"
  using unsigned_less [of b, where ?'a = nat] by simp

lemma unat_u16_less [simp]: "unat (p :: u16) < 65536"
  using unsigned_less [of p, where ?'a = nat] by simp

definition char_of_byte :: "byte \<Rightarrow> char" where
  "char_of_byte b = char_of (unat b)"

definition byte_of_char :: "char \<Rightarrow> byte" where
  "byte_of_char c = of_nat (of_char c)"

lemma byte_of_char_of_byte [simp]: "byte_of_char (char_of_byte b) = b"
proof -
  have "unat b < 256" by (rule unat_byte_less)
  then have "(of_char (char_of_byte b) :: nat) = unat b"
    by (simp add: char_of_byte_def)
  then show ?thesis by (simp add: byte_of_char_def)
qed

lemma char_of_byte_of_char [simp]: "char_of_byte (byte_of_char c) = c"
proof -
  have "(of_char c :: nat) < 256" by simp
  then have "unat (of_nat (of_char c) :: byte) = of_char c"
    by (simp add: unat_of_nat)
  then show ?thesis by (simp add: char_of_byte_def byte_of_char_def)
qed

lemma char_of_byte_eq_iff [simp]: "char_of_byte a = char_of_byte b \<longleftrightarrow> a = b"
  by (metis byte_of_char_of_byte)

text \<open>Go's conversions \<open>string(data)\<close> and \<open>[]byte(text)\<close>.\<close>

definition string_of_bytes :: "bytes \<Rightarrow> string" where
  "string_of_bytes = map char_of_byte"

definition bytes_of_string :: "string \<Rightarrow> bytes" where
  "bytes_of_string = map byte_of_char"

lemma bytes_of_string_of_bytes [simp]: "bytes_of_string (string_of_bytes bs) = bs"
  by (simp add: bytes_of_string_def string_of_bytes_def comp_def)

lemma string_of_bytes_of_string [simp]: "string_of_bytes (bytes_of_string s) = s"
  by (simp add: bytes_of_string_def string_of_bytes_def comp_def)

lemma length_string_of_bytes [simp]: "length (string_of_bytes bs) = length bs"
  by (simp add: string_of_bytes_def)

lemma length_bytes_of_string [simp]: "length (bytes_of_string s) = length s"
  by (simp add: bytes_of_string_def)

lemma string_of_bytes_inject [simp]: "string_of_bytes a = string_of_bytes b \<longleftrightarrow> a = b"
  by (metis bytes_of_string_of_bytes)

lemma bytes_of_string_inject [simp]: "bytes_of_string a = bytes_of_string b \<longleftrightarrow> a = b"
  by (metis string_of_bytes_of_string)

lemma string_of_bytes_Nil [simp]: "string_of_bytes bs = [] \<longleftrightarrow> bs = []"
  by (simp add: string_of_bytes_def)

lemma string_of_bytes_eq_iff: "string_of_bytes bs = s \<longleftrightarrow> bs = bytes_of_string s"
  by auto

section \<open>Big-endian 16-bit numbers (\<open>encoding/binary\<close>)\<close>

definition be16 :: "u16 \<Rightarrow> bytes" where
  "be16 p = [ucast (drop_bit 8 p), ucast p]"

definition be16_value :: "byte \<Rightarrow> byte \<Rightarrow> u16" where
  "be16_value hi lo = push_bit 8 (ucast hi) + ucast lo"

lemma unat_ucast_byte_u16 [simp]: "unat (ucast (b :: byte) :: u16) = unat b"
proof -
  have "unat b < 65536" using unat_byte_less [of b] by linarith
  then show ?thesis by (simp add: unsigned_ucast_eq take_bit_eq_mod)
qed

lemma be16_value_nat: "unat (be16_value hi lo) = 256 * unat hi + unat lo"
proof -
  have h: "unat hi < 256" and l: "unat lo < 256" by simp_all
  have "unat (push_bit 8 (ucast hi :: u16)) = 256 * unat hi"
    using h by (simp add: push_bit_eq_mult unat_word_ariths)
  moreover have "256 * unat hi + unat lo < 65536" using h l by linarith
  ultimately show ?thesis by (simp add: be16_value_def unat_word_ariths)
qed

lemma length_be16 [simp]: "length (be16 p) = 2"
  by (simp add: be16_def)

lemma be16_value_be16: "be16_value (ucast (drop_bit 8 p)) (ucast p) = p"
proof -
  have lt: "unat p < 65536" by simp
  have hi: "unat (ucast (drop_bit 8 p) :: byte) = unat p div 256"
    using lt by (simp add: unsigned_ucast_eq take_bit_eq_mod drop_bit_eq_div unat_div
        less_mult_imp_div_less)
  have lo: "unat (ucast p :: byte) = unat p mod 256"
    by (simp add: unsigned_ucast_eq take_bit_eq_mod)
  have "unat (be16_value (ucast (drop_bit 8 p)) (ucast p)) = unat p"
    by (simp add: be16_value_nat hi lo)
  then show ?thesis by (rule unsigned_word_eqI)
qed

lemma be16_be16_value [simp]: "be16 (be16_value hi lo) = [hi, lo]"
proof -
  have hi: "unat hi < 256" and lo: "unat lo < 256" by simp_all
  have "unat (ucast (drop_bit 8 (be16_value hi lo)) :: byte) = (256 * unat hi + unat lo) div 256 mod 256"
    by (simp add: unsigned_ucast_eq take_bit_eq_mod drop_bit_eq_div unat_div be16_value_nat)
  also have "\<dots> = unat hi" using hi lo by simp
  finally have 1: "(ucast (drop_bit 8 (be16_value hi lo)) :: byte) = hi"
    by (rule unsigned_word_eqI)
  have "unat (ucast (be16_value hi lo) :: byte) = (256 * unat hi + unat lo) mod 256"
    by (simp add: unsigned_ucast_eq take_bit_eq_mod be16_value_nat)
  also have "\<dots> = unat lo" using lo by simp
  finally have 2: "(ucast (be16_value hi lo) :: byte) = lo"
    by (rule unsigned_word_eqI)
  from 1 2 show ?thesis by (simp add: be16_def)
qed

lemma be16_zero [simp]: "be16 0 = [0, 0]"
  by (simp add: be16_def)

section \<open>Lists and maps\<close>

lemma take_append_exact [simp]: "length xs = n \<Longrightarrow> take n (xs @ ys) = xs"
  by simp

lemma drop_append_exact [simp]: "length xs = n \<Longrightarrow> drop n (xs @ ys) = ys"
  by simp

lemma card_dom_update_le: "finite (dom m) \<Longrightarrow> card (dom (m(k \<mapsto> v))) \<le> Suc (card (dom m))"
  by (simp add: card_insert_if)

lemma card_dom_delete: "finite (dom m) \<Longrightarrow> k \<in> dom m \<Longrightarrow> card (dom (m(k := None))) = card (dom m) - 1"
  by (simp add: card_Diff_singleton)

lemma filter_key_distinct:
  "distinct (map f xs) \<Longrightarrow> x \<in> set xs \<Longrightarrow> filter (\<lambda>y. f y = f x) xs = [x]"
proof (induction xs)
  case Nil
  then show ?case by simp
next
  case (Cons a xs)
  show ?case
  proof (cases "a = x")
    case True
    with Cons.prems have "filter (\<lambda>y. f y = f x) xs = []"
      by (auto simp: filter_empty_conv image_iff)
    with True show ?thesis by simp
  next
    case False
    with Cons show ?thesis by (auto simp: image_iff)
  qed
qed

section \<open>Invariants of sequences of operations\<close>

text \<open>The contract between a component's operations and its invariant.\<close>

locale invariant_ops =
  fixes run :: "'op \<Rightarrow> 's \<Rightarrow> 's"
    and ok :: "'s \<Rightarrow> bool"
  assumes ok_run: "ok s \<Longrightarrow> ok (run p s)"
begin

lemma ok_runs: "ok s \<Longrightarrow> ok (fold run ps s)"
  by (induction ps arbitrary: s) (simp_all add: ok_run)

end

text \<open>The same for a step relation.\<close>

locale step_invariant =
  fixes step :: "'s \<Rightarrow> 's \<Rightarrow> bool"
    and ok :: "'s \<Rightarrow> bool"
  assumes ok_step: "step s s' \<Longrightarrow> ok s \<Longrightarrow> ok s'"
begin

lemma ok_reachable: "step\<^sup>*\<^sup>* s s' \<Longrightarrow> ok s \<Longrightarrow> ok s'"
  by (induction rule: rtranclp_induct) (simp_all add: ok_step)

end

end
