(* ===== verification/GoStrings.thy ===== *)
theory GoStrings
  imports Prelude
begin

text \<open>
  The functions of Go's \<open>strings\<close> and \<open>strconv\<close> packages that ProxyGate
  calls, on strings as byte sequences: prefixes and suffixes, searching,
  splitting, white space trimming, ASCII case folding, and decimal numbers with
  the overflow rules of \<open>strconv.ParseInt\<close>. White space is Unicode's
  \<open>White_Space\<close> in UTF-8, as \<open>strings.TrimSpace\<close> and \<open>strings.Fields\<close> have it.
  \<open>strings.ToLower\<close> is modelled on the ASCII letters; other bytes are kept.
\<close>

section \<open>Searching and splitting\<close>

fun has_prefix :: "string \<Rightarrow> string \<Rightarrow> bool" where
  "has_prefix [] s = True"
| "has_prefix (p # ps) [] = False"
| "has_prefix (p # ps) (c # cs) = (p = c \<and> has_prefix ps cs)"

lemma has_prefix_iff: "has_prefix p s \<longleftrightarrow> (\<exists>t. s = p @ t)"
  by (induction p s rule: has_prefix.induct) auto

lemma has_prefix_append [simp]: "has_prefix p (p @ t)"
  by (auto simp: has_prefix_iff)

lemma has_prefix_length: "has_prefix p s \<Longrightarrow> length p \<le> length s"
  by (auto simp: has_prefix_iff)

definition has_suffix :: "string \<Rightarrow> string \<Rightarrow> bool" where
  "has_suffix x s = has_prefix (rev x) (rev s)"

lemma has_suffix_iff: "has_suffix x s \<longleftrightarrow> (\<exists>t. s = t @ x)"
  by (auto simp: has_suffix_def has_prefix_iff) (metis rev_append rev_rev_ident)

definition trim_suffix :: "string \<Rightarrow> string \<Rightarrow> string" where
  "trim_suffix s x = (if has_suffix x s then take (length s - length x) s else s)"

fun index_of :: "string \<Rightarrow> string \<Rightarrow> nat option" where
  "index_of sub [] = (if sub = [] then Some 0 else None)"
| "index_of sub (c # cs) =
     (if has_prefix sub (c # cs) then Some 0 else map_option Suc (index_of sub cs))"

definition contains :: "string \<Rightarrow> string \<Rightarrow> bool" where
  "contains s sub = (index_of sub s \<noteq> None)"

lemma index_of_Some:
  "index_of sub s = Some i \<Longrightarrow> i \<le> length s \<and> has_prefix sub (drop i s)"
  by (induction sub s arbitrary: i rule: index_of.induct) (auto split: if_splits)

lemma index_of_None: "index_of sub s = None \<Longrightarrow> \<not> has_prefix sub (drop i s)"
  by (induction sub s arbitrary: i rule: index_of.induct)
    (auto split: if_splits simp: drop_Cons' neq_Nil_conv elim: has_prefix.elims)

text \<open>\<open>strings.Split\<close> with a one-byte separator: at least one part, possibly empty.\<close>

fun split_on :: "char \<Rightarrow> string \<Rightarrow> string list" where
  "split_on d [] = [[]]"
| "split_on d (c # cs) =
     (if c = d then [] # split_on d cs
      else (case split_on d cs of [] \<Rightarrow> [[c]] | p # ps \<Rightarrow> (c # p) # ps))"

lemma split_on_nonempty [simp]: "split_on d s \<noteq> []"
  by (cases s) (auto split: list.splits)

lemma split_on_none: "d \<notin> set s \<Longrightarrow> split_on d s = [s]"
  by (induction s) auto

lemma split_on_append: "d \<notin> set p \<Longrightarrow> split_on d (p @ d # s) = p # split_on d s"
  by (induction p) auto

lemma length_split_on: "length (split_on d s) = Suc (count_list s d)"
  by (induction s) (auto split: list.splits)

lemma split_on_parts: "p \<in> set (split_on d s) \<Longrightarrow> d \<notin> set p"
  by (induction s arbitrary: p) (auto split: list.splits if_splits)

fun join :: "string \<Rightarrow> string list \<Rightarrow> string" where
  "join sep [] = []"
| "join sep [p] = p"
| "join sep (p # q # ps) = p @ sep @ join sep (q # ps)"

lemma join_split_on: "join [d] (split_on d s) = s"
proof (induction s)
  case Nil
  then show ?case by simp
next
  case (Cons c s)
  obtain p ps where "split_on d s = p # ps" by (meson neq_Nil_conv split_on_nonempty)
  with Cons show ?case by (cases ps) auto
qed

section \<open>White space\<close>

definition space_runes :: "string list" where
  "space_runes =
     [[CHR 0x09], [CHR 0x0A], [CHR 0x0B], [CHR 0x0C], [CHR 0x0D], [CHR 0x20],
      [CHR 0xC2, CHR 0x85], [CHR 0xC2, CHR 0xA0], [CHR 0xE1, CHR 0x9A, CHR 0x80],
      [CHR 0xE2, CHR 0x80, CHR 0x80], [CHR 0xE2, CHR 0x80, CHR 0x81],
      [CHR 0xE2, CHR 0x80, CHR 0x82], [CHR 0xE2, CHR 0x80, CHR 0x83],
      [CHR 0xE2, CHR 0x80, CHR 0x84], [CHR 0xE2, CHR 0x80, CHR 0x85],
      [CHR 0xE2, CHR 0x80, CHR 0x86], [CHR 0xE2, CHR 0x80, CHR 0x87],
      [CHR 0xE2, CHR 0x80, CHR 0x88], [CHR 0xE2, CHR 0x80, CHR 0x89],
      [CHR 0xE2, CHR 0x80, CHR 0x8A], [CHR 0xE2, CHR 0x80, CHR 0xA8],
      [CHR 0xE2, CHR 0x80, CHR 0xA9], [CHR 0xE2, CHR 0x80, CHR 0xAF],
      [CHR 0xE2, CHR 0x81, CHR 0x9F], [CHR 0xE3, CHR 0x80, CHR 0x80]]"

text \<open>How many bytes of a white space rune (one of \<open>rs\<close>) the string starts with.\<close>

definition space_len :: "string list \<Rightarrow> string \<Rightarrow> nat" where
  "space_len rs s = (case find (\<lambda>r. has_prefix r s) rs of None \<Rightarrow> 0 | Some r \<Rightarrow> length r)"

lemma space_len_le: "space_len rs s \<le> length s"
  by (auto simp: space_len_def find_Some_iff dest: has_prefix_length split: option.splits)

function trim_left :: "string list \<Rightarrow> string \<Rightarrow> string" where
  "trim_left rs s =
     (if space_len rs s = 0 then s else trim_left rs (drop (space_len rs s) s))"
  by pat_completeness auto
termination
proof (relation "measure (\<lambda>(rs, s). length s)")
  fix rs s
  assume "space_len rs s \<noteq> 0"
  with space_len_le [of rs s]
  show "((rs, drop (space_len rs s) s), rs, s) \<in> measure (\<lambda>(rs, s). length s)" by simp
qed simp

declare trim_left.simps [simp del]

definition trim_right :: "string list \<Rightarrow> string \<Rightarrow> string" where
  "trim_right rs s = rev (trim_left (map rev rs) (rev s))"

definition trim_space :: "string \<Rightarrow> string" where
  "trim_space s = trim_right space_runes (trim_left space_runes s)"

lemma trim_left_suffix: "\<exists>p. s = p @ trim_left rs s"
proof (induction rs s rule: trim_left.induct)
  case (1 rs s)
  show ?case
  proof (cases "space_len rs s = 0")
    case True
    then show ?thesis by (simp add: trim_left.simps [of rs s])
  next
    case False
    then obtain p where "drop (space_len rs s) s = p @ trim_left rs (drop (space_len rs s) s)"
      using "1.IH" by blast
    with False show ?thesis
      by (metis append_assoc append_take_drop_id trim_left.simps)
  qed
qed

lemma length_trim_left: "length (trim_left rs s) \<le> length s"
  by (metis trim_left_suffix length_append le_add2)

lemma length_trim_space: "length (trim_space s) \<le> length s"
  unfolding trim_space_def trim_right_def
  by (metis length_trim_left length_rev order_trans)

lemma trim_space_Nil [simp]: "trim_space [] = []"
  using length_trim_space [of "[]"] by simp

lemma trim_left_id: "space_len rs s = 0 \<Longrightarrow> trim_left rs s = s"
  by (simp add: trim_left.simps)

text \<open>\<open>strings.Fields\<close>: the maximal runs of bytes that start no white space rune.\<close>

function take_field :: "string \<Rightarrow> string \<times> string" where
  "take_field [] = ([], [])"
| "take_field (c # cs) =
     (if space_len space_runes (c # cs) \<noteq> 0 then ([], c # cs)
      else (let (f, rest) = take_field cs in (c # f, rest)))"
  by pat_completeness auto
termination by (relation "measure length") auto

lemma take_field_append: "take_field s = (f, rest) \<Longrightarrow> s = f @ rest"
  by (induction s arbitrary: f rest rule: take_field.induct)
    (auto split: if_splits prod.splits)

lemma take_field_nonempty:
  "s \<noteq> [] \<Longrightarrow> space_len space_runes s = 0 \<Longrightarrow> take_field s = (f, rest) \<Longrightarrow> f \<noteq> []"
  by (cases s) (auto split: if_splits prod.splits)

lemma trim_left_stop: "space_len rs (trim_left rs s) = 0"
proof (induction rs s rule: trim_left.induct)
  case (1 rs s)
  show ?case
  proof (cases "space_len rs s = 0")
    case True
    then show ?thesis by (simp add: trim_left_id)
  next
    case False
    with "1.IH" show ?thesis by (simp add: trim_left.simps [of rs s])
  qed
qed

function fields :: "string \<Rightarrow> string list" where
  "fields s =
     (let t = trim_left space_runes s in
      if t = [] then [] else (let (f, rest) = take_field t in f # fields rest))"
  by pat_completeness auto
termination
proof (relation "measure length")
  fix s t f rest x y
  assume *: "t = trim_left space_runes s" "t \<noteq> []" "x = take_field t" "(f, y) = x"
  then have "f \<noteq> []" and "t = f @ y"
    by (metis take_field_nonempty trim_left_stop, metis take_field_append)
  then have "length t = length f + length y" and "0 < length f" by simp_all
  moreover have "length t \<le> length s" using * length_trim_left by simp
  ultimately have "length y < length s" by linarith
  then show "(y, s) \<in> measure length" by simp
qed simp

declare fields.simps [simp del]

section \<open>ASCII case folding\<close>

definition lower_char :: "char \<Rightarrow> char" where
  "lower_char c =
     (let n = (of_char c :: nat) in if 65 \<le> n \<and> n \<le> 90 then char_of (n + 32) else c)"

definition to_lower :: "string \<Rightarrow> string" where
  "to_lower = map lower_char"

lemma lower_char_idem [simp]: "lower_char (lower_char c) = lower_char c"
  by (simp add: lower_char_def Let_def)

lemma to_lower_idem [simp]: "to_lower (to_lower s) = to_lower s"
  by (simp add: to_lower_def comp_def)

lemma to_lower_append [simp]: "to_lower (s @ t) = to_lower s @ to_lower t"
  by (simp add: to_lower_def)

definition equal_fold :: "string \<Rightarrow> string \<Rightarrow> bool" where
  "equal_fold s t = (to_lower s = to_lower t)"

section \<open>Decimal numbers (\<open>strconv\<close>)\<close>

definition is_digit :: "char \<Rightarrow> bool" where
  "is_digit c = (48 \<le> (of_char c :: nat) \<and> (of_char c :: nat) \<le> 57)"

definition digit_value :: "char \<Rightarrow> nat" where
  "digit_value c = of_char c - 48"

definition digit_char :: "nat \<Rightarrow> char" where
  "digit_char d = char_of (48 + d)"

lemma digit_char_simps [simp]:
  assumes "d < 10"
  shows "is_digit (digit_char d)" and "digit_value (digit_char d) = d"
  using assms by (simp_all add: is_digit_def digit_value_def digit_char_def)

lemma not_is_digit [simp]:
  "\<not> is_digit CHR ''.''" "\<not> is_digit CHR '':''" "\<not> is_digit CHR ''-''" "\<not> is_digit CHR ''+''"
  "\<not> is_digit CHR ''|''" "\<not> is_digit CHR ''[''" "\<not> is_digit CHR '']''"
  by (simp_all add: is_digit_def)

fun show_nat :: "nat \<Rightarrow> string" where
  "show_nat n = (if n < 10 then [digit_char n] else show_nat (n div 10) @ [digit_char (n mod 10)])"

declare show_nat.simps [simp del]

definition show_int :: "int \<Rightarrow> string" where
  "show_int i = (if i < 0 then CHR ''-'' # show_nat (nat (- i)) else show_nat (nat i))"

fun dec_value :: "nat \<Rightarrow> string \<Rightarrow> nat" where
  "dec_value acc [] = acc"
| "dec_value acc (c # cs) = dec_value (10 * acc + digit_value c) cs"

lemma dec_value_append: "dec_value acc (s @ t) = dec_value (dec_value acc s) t"
  by (induction s arbitrary: acc) auto

lemma dec_value_ge: "acc \<le> dec_value acc s"
proof (induction s arbitrary: acc)
  case (Cons c s)
  have "acc \<le> 10 * acc + digit_value c" by simp
  also have "\<dots> \<le> dec_value (10 * acc + digit_value c) s" by (rule Cons.IH)
  finally show ?case by simp
qed simp

lemma show_nat_digits: "c \<in> set (show_nat n) \<Longrightarrow> is_digit c"
proof (induction n arbitrary: c rule: show_nat.induct)
  case (1 n)
  then show ?case by (auto simp: show_nat.simps [of n] split: if_splits)
qed

lemma show_nat_nonempty [simp]: "show_nat n \<noteq> []"
  by (simp add: show_nat.simps)

lemma dec_value_show_nat: "dec_value 0 (show_nat n) = n"
proof (induction n rule: show_nat.induct)
  case (1 n)
  show ?case
    by (cases "n < 10") (simp_all add: show_nat.simps [of n] dec_value_append 1)
qed

lemma show_nat_inject [simp]: "show_nat m = show_nat n \<longleftrightarrow> m = n"
  by (metis dec_value_show_nat)

lemma show_nat_no_char: "\<not> is_digit c \<Longrightarrow> c \<notin> set (show_nat n)"
  using show_nat_digits by blast

text \<open>
  \<open>strconv.ParseInt(s, 10, 64)\<close>: the value and the error, as Go returns both; on
  overflow the value is the nearest bound. The digits are read left to right, so
  the overflow is reported before a later syntax error is seen.
\<close>

datatype num_error = ErrSyntax | ErrRange

definition max_uint64 :: nat where "max_uint64 = 18446744073709551615"
definition max_int64 :: int where "max_int64 = 9223372036854775807"
definition min_int64 :: int where "min_int64 = -9223372036854775808"

fun parse_uint_loop :: "nat \<Rightarrow> string \<Rightarrow> nat \<times> num_error option" where
  "parse_uint_loop n [] = (n, None)"
| "parse_uint_loop n (c # cs) =
     (if \<not> is_digit c then (0, Some ErrSyntax)
      else if n \<ge> max_uint64 div 10 + 1 then (max_uint64, Some ErrRange)
      else if 10 * n + digit_value c > max_uint64 then (max_uint64, Some ErrRange)
      else parse_uint_loop (10 * n + digit_value c) cs)"

definition parse_uint :: "string \<Rightarrow> nat \<times> num_error option" where
  "parse_uint s = (if s = [] then (0, Some ErrSyntax) else parse_uint_loop 0 s)"

definition parse_int :: "string \<Rightarrow> int \<times> num_error option" where
  "parse_int s =
     (if s = [] then (0, Some ErrSyntax) else
      let neg = (hd s = CHR ''-'');
          ds = (if hd s = CHR ''+'' \<or> neg then tl s else s);
          (un, err) = parse_uint ds in
      if err = Some ErrSyntax then (0, Some ErrSyntax)
      else if \<not> neg \<and> int un > max_int64 then (max_int64, Some ErrRange)
      else if neg \<and> int un > max_int64 + 1 then (min_int64, Some ErrRange)
      else (if neg then - int un else int un, None))"

text \<open>\<open>strconv.Atoi\<close> on a 64-bit platform; only the success case is used.\<close>

definition atoi :: "string \<Rightarrow> int option" where
  "atoi s = (case parse_int s of (v, None) \<Rightarrow> Some v | _ \<Rightarrow> None)"

lemma parse_uint_loop_digits:
  "\<forall>c \<in> set s. is_digit c \<Longrightarrow> dec_value n s \<le> max_uint64 \<Longrightarrow>
   parse_uint_loop n s = (dec_value n s, None)"
proof (induction s arbitrary: n)
  case Nil
  then show ?case by simp
next
  case (Cons c s)
  have "10 * n + digit_value c \<le> dec_value (10 * n + digit_value c) s" by (rule dec_value_ge)
  with Cons.prems have le: "10 * n + digit_value c \<le> max_uint64" by simp
  then have "n < max_uint64 div 10 + 1" by (simp add: max_uint64_def)
  with le Cons show ?case by simp
qed

lemma parse_uint_show_nat: "n \<le> max_uint64 \<Longrightarrow> parse_uint (show_nat n) = (n, None)"
  using parse_uint_loop_digits [of "show_nat n" 0]
  by (simp add: parse_uint_def show_nat_digits dec_value_show_nat)

lemma hd_show_nat: "is_digit (hd (show_nat n))"
  by (rule show_nat_digits [of _ n]) simp

lemma parse_int_show_int:
  assumes "min_int64 \<le> i" and "i \<le> max_int64"
  shows "parse_int (show_int i) = (i, None)"
proof (cases "i < 0")
  case True
  then have "nat (- i) \<le> max_uint64"
    using assms by (simp add: max_uint64_def min_int64_def nat_le_iff)
  with True assms show ?thesis
    by (simp add: parse_int_def show_int_def parse_uint_show_nat min_int64_def max_int64_def)
next
  case False
  then have n: "nat i \<le> max_uint64"
    using assms by (simp add: max_uint64_def max_int64_def nat_le_iff)
  have "hd (show_nat (nat i)) \<noteq> CHR ''-''" "hd (show_nat (nat i)) \<noteq> CHR ''+''"
    using hd_show_nat [of "nat i"] by auto
  with False assms n show ?thesis
    by (simp add: parse_int_def show_int_def parse_uint_show_nat min_int64_def max_int64_def)
qed

lemma atoi_show_nat: "int n \<le> max_int64 \<Longrightarrow> atoi (show_nat n) = Some (int n)"
  using parse_int_show_int [of "int n"]
  by (simp add: atoi_def show_int_def min_int64_def)

lemma parse_int_range: "min_int64 \<le> fst (parse_int s) \<and> fst (parse_int s) \<le> max_int64"
  by (auto simp: parse_int_def min_int64_def max_int64_def Let_def split: prod.splits)

section \<open>Quoting (\<open>%q\<close>)\<close>

text \<open>Bytes of multi-byte characters are taken to be printable.\<close>

definition hex_digit :: "nat \<Rightarrow> char" where
  "hex_digit n = char_of (if n < 10 then 48 + n else 87 + n)"

definition quote_char :: "char \<Rightarrow> string" where
  "quote_char c =
     (let n = of_char c :: nat; b = CHR 0x5C
      in if n = 34 \<or> n = 92 then [b, c]
         else if n = 7 then [b, CHR ''a''] else if n = 8 then [b, CHR ''b'']
         else if n = 9 then [b, CHR ''t''] else if n = 10 then [b, CHR ''n'']
         else if n = 11 then [b, CHR ''v''] else if n = 12 then [b, CHR ''f'']
         else if n = 13 then [b, CHR ''r'']
         else if n < 32 \<or> n = 127 then [b, CHR ''x'', hex_digit (n div 16), hex_digit (n mod 16)]
         else [c])"

definition go_quote :: "string \<Rightarrow> string" where
  "go_quote s = [CHR 0x22] @ concat (map quote_char s) @ [CHR 0x22]"

end
