(* ===== verification/GoNet.thy ===== *)
theory GoNet
  imports GoStrings
begin

text \<open>
  The parts of Go's \<open>net\<close> and \<open>net/netip\<close> packages that ProxyGate relies on:
  \<open>net.IP\<close> as a byte slice (\<open>nil\<close> is the empty one), \<open>To4\<close>, \<open>To16\<close>,
  \<open>IP.String\<close>, \<open>net.ParseIP\<close>, \<open>net.JoinHostPort\<close> and \<open>net.SplitHostPort\<close>.
  The main facts are the round trips \<open>ParseIP (String ip) = To16 ip\<close> for IPv4 and
  IPv6 and \<open>SplitHostPort (JoinHostPort h p) = (h, p)\<close>.
\<close>

section \<open>IP addresses as bytes\<close>

type_synonym ip = bytes

definition v4_prefix :: bytes where
  "v4_prefix = replicate 10 0 @ [255, 255]"

definition to4 :: "ip \<Rightarrow> ip option" where
  "to4 a = (if length a = 4 then Some a
            else if length a = 16 \<and> take 12 a = v4_prefix then Some (drop 12 a)
            else None)"

definition to16 :: "ip \<Rightarrow> ip option" where
  "to16 a = (if length a = 4 then Some (v4_prefix @ a)
             else if length a = 16 then Some a else None)"

definition ipv4 :: "byte \<Rightarrow> byte \<Rightarrow> byte \<Rightarrow> byte \<Rightarrow> ip" where
  "ipv4 a b c d = v4_prefix @ [a, b, c, d]"

definition ipv4_zero :: ip where
  "ipv4_zero = ipv4 0 0 0 0"

definition ipv6_loopback :: ip where
  "ipv6_loopback = replicate 15 0 @ [1]"

definition is_unspecified :: "ip \<Rightarrow> bool" where
  "is_unspecified a = (a = [0, 0, 0, 0] \<or> a = ipv4_zero \<or> a = replicate 16 0)"

lemma length_v4_prefix [simp]: "length v4_prefix = 12"
  by (simp add: v4_prefix_def)

lemma to4_length: "to4 a = Some b \<Longrightarrow> length b = 4"
  by (auto simp: to4_def split: if_splits)

lemma to16_length: "to16 a = Some b \<Longrightarrow> length b = 16"
  by (auto simp: to16_def split: if_splits)

lemma to4_ipv4 [simp]: "to4 (ipv4 a b c d) = Some [a, b, c, d]"
  by (simp add: to4_def ipv4_def)

lemma to4_length4 [simp]: "length a = 4 \<Longrightarrow> to4 a = Some a"
  by (simp add: to4_def)

lemma to4_of_to16: "to16 a = Some b \<Longrightarrow> to4 b = to4 a"
  by (auto simp: to4_def to16_def split: if_splits)

lemma to16_idem: "to16 a = Some b \<Longrightarrow> to16 b = Some b"
  by (auto simp: to16_def split: if_splits)

section \<open>Printing addresses\<close>

definition show_v4 :: "bytes \<Rightarrow> string" where
  "show_v4 a = join ''.'' (map (\<lambda>b. show_nat (unat b)) a)"

definition hex_char :: "nat \<Rightarrow> char" where
  "hex_char d = (if d < 10 then char_of (48 + d) else char_of (87 + d))"

definition hex_value :: "char \<Rightarrow> nat option" where
  "hex_value c =
     (let n = (of_char c :: nat) in
      if 48 \<le> n \<and> n \<le> 57 then Some (n - 48)
      else if 97 \<le> n \<and> n \<le> 102 then Some (n - 87)
      else if 65 \<le> n \<and> n \<le> 70 then Some (n - 55)
      else None)"

lemma hex_value_hex_char [simp]: "d < 16 \<Longrightarrow> hex_value (hex_char d) = Some d"
  by (auto simp: hex_value_def hex_char_def Let_def)

fun show_hex :: "nat \<Rightarrow> string" where
  "show_hex n = (if n < 16 then [hex_char n] else show_hex (n div 16) @ [hex_char (n mod 16)])"

declare show_hex.simps [simp del]

text \<open>The eight 16-bit groups of an IPv6 address.\<close>

fun groups :: "bytes \<Rightarrow> u16 list" where
  "groups (hi # lo # bs) = be16_value hi lo # groups bs"
| "groups _ = []"

fun zero_run :: "u16 list \<Rightarrow> nat" where
  "zero_run [] = 0"
| "zero_run (w # ws) = (if w = 0 then Suc (zero_run ws) else 0)"

text \<open>The first longest run of at least two zero groups, as \<open>netip\<close> picks it.\<close>

definition best_zero_run :: "u16 list \<Rightarrow> (nat \<times> nat) option" where
  "best_zero_run ws =
     fold (\<lambda>i best. let l = zero_run (drop i ws) in
             if 2 \<le> l \<and> (case best of None \<Rightarrow> True | Some (s, e) \<Rightarrow> l > e - s)
             then Some (i, i + l) else best) [0..<length ws] None"

definition show_groups :: "u16 list \<Rightarrow> string" where
  "show_groups ws = join '':'' (map (\<lambda>w. show_hex (unat w)) ws)"

definition show_v6 :: "bytes \<Rightarrow> string" where
  "show_v6 a =
     (let ws = groups a in
      case best_zero_run ws of
        None \<Rightarrow> show_groups ws
      | Some (s, e) \<Rightarrow> show_groups (take s ws) @ ''::'' @ show_groups (drop e ws))"

definition hex_bytes :: "bytes \<Rightarrow> string" where
  "hex_bytes a = concat (map (\<lambda>b. [hex_char (unat b div 16), hex_char (unat b mod 16)]) a)"

definition ip_string :: "ip \<Rightarrow> string" where
  "ip_string a =
     (if a = [] then ''<nil>''
      else if length a \<noteq> 4 \<and> length a \<noteq> 16 then ''?'' @ hex_bytes a
      else case to4 a of Some b \<Rightarrow> show_v4 b | None \<Rightarrow> show_v6 a)"

section \<open>Parsing addresses\<close>

text \<open>
  \<open>parseIPv4Fields\<close>: the fields read so far, the value and the number of digits of
  the current one. A field has no leading zero and is at most 255.
\<close>

fun v4_loop :: "bytes \<Rightarrow> nat \<Rightarrow> nat \<Rightarrow> string \<Rightarrow> bytes option" where
  "v4_loop fs v dl [] = (if length fs < 3 then None else Some (fs @ [of_nat v]))"
| "v4_loop fs v dl (c # cs) =
     (if is_digit c then
        (if dl = 1 \<and> v = 0 then None
         else if 10 * v + digit_value c > 255 then None
         else v4_loop fs (10 * v + digit_value c) (Suc dl) cs)
      else if c = CHR ''.'' then
        (if dl = 0 \<or> cs = [] then None
         else if length fs = 3 then None
         else v4_loop (fs @ [of_nat v]) 0 0 cs)
      else None)"

definition parse_v4 :: "string \<Rightarrow> bytes option" where
  "parse_v4 s = v4_loop [] 0 0 s"

fun scan_hex :: "nat \<Rightarrow> nat \<Rightarrow> string \<Rightarrow> (nat \<times> nat \<times> string) option" where
  "scan_hex off acc [] = Some (off, acc, [])"
| "scan_hex off acc (c # cs) =
     (case hex_value c of
        None \<Rightarrow> Some (off, acc, c # cs)
      | Some d \<Rightarrow>
          if off > 3 \<or> 16 * acc + d > 65535 then None
          else scan_hex (Suc off) (16 * acc + d) cs)"

text \<open>The group loop of \<open>parseIPv6\<close>: the bytes so far and the place of the \<open>::\<close>.\<close>

function v6_loop :: "bytes \<Rightarrow> nat option \<Rightarrow> string \<Rightarrow> (bytes \<times> nat option \<times> string) option" where
  "v6_loop a ell s =
     (if length a \<ge> 16 then Some (a, ell, s) else
      case scan_hex 0 0 s of
        None \<Rightarrow> None
      | Some (off, acc, rest) \<Rightarrow>
          if off = 0 then None
          else if rest \<noteq> [] \<and> hd rest = CHR ''.'' then
            (if ell = None \<and> length a \<noteq> 12 then None
             else if length a + 4 > 16 then None
             else case parse_v4 s of None \<Rightarrow> None | Some fs \<Rightarrow> Some (a @ fs, ell, []))
          else
            (let a' = a @ be16 (of_nat acc) in
             if rest = [] then Some (a', ell, [])
             else if hd rest \<noteq> CHR '':'' then None
             else if tl rest = [] then None
             else if hd (tl rest) = CHR '':'' then
               (if ell \<noteq> None then None
                else if tl (tl rest) = [] then Some (a', Some (length a'), [])
                else v6_loop a' (Some (length a')) (tl (tl rest)))
             else v6_loop a' ell (tl rest)))"
  by pat_completeness auto
termination by (relation "measure (\<lambda>(a, ell, s). 16 - length a)") auto

declare v6_loop.simps [simp del]

definition v6_finish :: "(bytes \<times> nat option \<times> string) option \<Rightarrow> bytes option" where
  "v6_finish r = (case r of
      None \<Rightarrow> None
    | Some (a, ell, s) \<Rightarrow>
        if s \<noteq> [] then None
        else if length a < 16 then
          (case ell of None \<Rightarrow> None
           | Some e \<Rightarrow> Some (take e a @ replicate (16 - length a) 0 @ drop e a))
        else if ell \<noteq> None then None else Some a)"

definition parse_v6 :: "string \<Rightarrow> bytes option" where
  "parse_v6 s =
     (if has_prefix ''::'' s then
        (let t = drop 2 s in
         if t = [] then Some (replicate 16 0) else v6_finish (v6_loop [] (Some 0) t))
      else v6_finish (v6_loop [] None s))"

text \<open>
  \<open>net.ParseIP\<close>: always the 16-byte form. The first of \<open>.\<close> and \<open>:\<close> decides the
  family; a zone (anything after \<open>%\<close>) makes the result \<open>nil\<close>.
\<close>

fun first_mark :: "string \<Rightarrow> char option" where
  "first_mark [] = None"
| "first_mark (c # cs) = (if c = CHR ''.'' \<or> c = CHR '':'' then Some c else first_mark cs)"

definition parse_ip :: "string \<Rightarrow> ip option" where
  "parse_ip s =
     (if CHR ''%'' \<in> set s then None
      else case first_mark s of
          None \<Rightarrow> None
        | Some c \<Rightarrow> if c = CHR ''.'' then map_option (\<lambda>a. v4_prefix @ a) (parse_v4 s)
                    else parse_v6 s)"

section \<open>Host and port\<close>

definition join_host_port :: "string \<Rightarrow> string \<Rightarrow> string" where
  "join_host_port host port =
     (if CHR '':'' \<in> set host then ''['' @ host @ '']:'' @ port else host @ '':'' @ port)"

fun char_index :: "char \<Rightarrow> string \<Rightarrow> nat option" where
  "char_index d [] = None"
| "char_index d (c # cs) = (if c = d then Some 0 else map_option Suc (char_index d cs))"

definition last_char_index :: "char \<Rightarrow> string \<Rightarrow> nat option" where
  "last_char_index d s = map_option (\<lambda>i. length s - Suc i) (char_index d (rev s))"

definition split_host_port :: "string \<Rightarrow> (string \<times> string) result" where
  "split_host_port hp =
     (case last_char_index CHR '':'' hp of
        None \<Rightarrow> Inl ''missing port in address''
      | Some i \<Rightarrow>
          if hd hp = CHR ''['' then
            (case char_index CHR '']'' hp of
               None \<Rightarrow> Inl ''missing ']' in address''
             | Some e \<Rightarrow>
                 if Suc e = length hp then Inl ''missing port in address''
                 else if Suc e \<noteq> i then
                   (if hp ! Suc e = CHR '':'' then Inl ''too many colons in address''
                    else Inl ''missing port in address'')
                 else if CHR ''['' \<in> set (drop 1 hp) then Inl ''unexpected '[' in address''
                 else if CHR '']'' \<in> set (drop (Suc e) hp) then Inl ''unexpected ']' in address''
                 else Inr (take (e - 1) (drop 1 hp), drop (Suc i) hp))
          else
            (if CHR '':'' \<in> set (take i hp) then Inl ''too many colons in address''
             else if CHR ''['' \<in> set hp then Inl ''unexpected '[' in address''
             else if CHR '']'' \<in> set hp then Inl ''unexpected ']' in address''
             else Inr (take i hp, drop (Suc i) hp)))"

section \<open>Round trips\<close>

lemma char_index_append: "d \<notin> set p \<Longrightarrow> char_index d (p @ d # q) = Some (length p)"
  by (induction p) auto

lemma char_index_None: "char_index d s = None \<longleftrightarrow> d \<notin> set s"
  by (induction s) auto

lemma last_char_index_append:
  assumes "d \<notin> set q"
  shows "last_char_index d (p @ d # q) = Some (length p)"
  using char_index_append [of d "rev q" "rev p"] assms by (simp add: last_char_index_def)

lemma split_join_host_port:
  assumes host: "CHR ''['' \<notin> set h" "CHR '']'' \<notin> set h"
    and port: "CHR '':'' \<notin> set p" "CHR ''['' \<notin> set p" "CHR '']'' \<notin> set p"
  shows "split_host_port (join_host_port h p) = Inr (h, p)"
proof (cases "CHR '':'' \<in> set h")
  case True
  have l: "last_char_index CHR '':'' ((CHR ''['' # h @ [CHR '']'']) @ CHR '':'' # p) = Some (length h + 2)"
    using last_char_index_append [OF port(1), of "CHR ''['' # h @ [CHR '']'']"] by simp
  have e: "char_index CHR '']'' ((CHR ''['' # h) @ CHR '']'' # CHR '':'' # p) = Some (length h + 1)"
    using char_index_append [of "CHR '']''" "CHR ''['' # h" "CHR '':'' # p"] host by simp
  show ?thesis
    using True l e host port by (simp add: join_host_port_def split_host_port_def)
next
  case False
  have l: "last_char_index CHR '':'' (h @ CHR '':'' # p) = Some (length h)"
    by (rule last_char_index_append [OF port(1)])
  have "hd (h @ CHR '':'' # p) \<noteq> CHR ''[''"
    using host by (cases h) auto
  with False l host port show ?thesis
    by (simp add: join_host_port_def split_host_port_def)
qed

text \<open>IPv4: a printed octet is read back and leaves the parser at the separator.\<close>

lemma dec_value_less_prefix:
  "dec_value acc (s @ t) \<le> m \<Longrightarrow> dec_value acc s \<le> m"
  using dec_value_ge [of "dec_value acc s" t] by (simp add: dec_value_append)

lemma v4_loop_digits:
  assumes "\<forall>c \<in> set s. is_digit c" and "dec_value v s \<le> 255"
    and "dl > 0 \<Longrightarrow> s \<noteq> [] \<Longrightarrow> v \<noteq> 0"
    and "dl = 0 \<Longrightarrow> v = 0 \<and> (tl s = [] \<or> digit_value (hd s) \<noteq> 0)"
  shows "v4_loop fs v dl (s @ t) = v4_loop fs (dec_value v s) (dl + length s) t"
  using assms
proof (induction s arbitrary: v dl)
  case Nil
  then show ?case by simp
next
  case (Cons c s)
  let ?v = "10 * v + digit_value c"
  have le: "?v \<le> 255"
    using Cons.prems(2) dec_value_ge [of ?v s] by simp
  have nz: "s \<noteq> [] \<Longrightarrow> ?v \<noteq> 0"
    using Cons.prems(3,4) by (cases "dl = 0") auto
  have "v4_loop fs ?v (Suc dl) (s @ t) = v4_loop fs (dec_value ?v s) (Suc dl + length s) t"
    using Cons.prems(1,2) nz by (intro Cons.IH) auto
  moreover have "\<not> (dl = 1 \<and> v = 0)" using Cons.prems(3) by auto
  ultimately show ?case using Cons.prems(1) le by auto
qed

lemma hd_show_nat_nonzero: "n \<ge> 10 \<Longrightarrow> digit_value (hd (show_nat n)) \<noteq> 0"
proof (induction n rule: show_nat.induct)
  case (1 n)
  then have step: "show_nat n = show_nat (n div 10) @ [digit_char (n mod 10)]"
    by (simp add: show_nat.simps [of n])
  show ?case
  proof (cases "n div 10 < 10")
    case True
    with 1 show ?thesis by (simp add: step show_nat.simps [of "n div 10"])
  next
    case False
    with 1 show ?thesis by (simp add: step)
  qed
qed

lemma v4_loop_octet:
  assumes "n \<le> 255"
  shows "v4_loop fs 0 0 (show_nat n @ t) = v4_loop fs n (length (show_nat n)) t"
proof -
  have "tl (show_nat n) = [] \<or> digit_value (hd (show_nat n)) \<noteq> 0"
  proof (cases "n < 10")
    case True
    then show ?thesis by (simp add: show_nat.simps)
  next
    case False
    then show ?thesis using hd_show_nat_nonzero [of n] by simp
  qed
  then show ?thesis
    using v4_loop_digits [of "show_nat n" 0 0 fs t] assms
    by (simp add: show_nat_digits dec_value_show_nat)
qed

lemma length4E:
  assumes "length a = 4"
  obtains w x y z where "a = [w, x, y, z]"
  using assms by (auto simp: numeral_eq_Suc length_Suc_conv)

lemma parse_v4_show_v4:
  assumes "length a = 4"
  shows "parse_v4 (show_v4 a) = Some a"
proof -
  from assms obtain w x y z where a: "a = [w, x, y, z]" by (rule length4E)
  have le: "unat (b :: byte) \<le> 255" for b
    using unat_byte_less [of b] by linarith
  show ?thesis
    using v4_loop_octet [OF le, of "[w, x, y]" z "[]"]
    by (simp add: parse_v4_def show_v4_def a v4_loop_octet [OF le])
qed

lemma first_mark_append:
  "CHR ''.'' \<notin> set p \<Longrightarrow> CHR '':'' \<notin> set p \<Longrightarrow> first_mark (p @ q) = first_mark q"
  by (induction p) auto

lemma show_v4_chars:
  assumes "length a = 4"
  shows "first_mark (show_v4 a) = Some CHR ''.''" and "CHR ''%'' \<notin> set (show_v4 a)"
    and "CHR '':'' \<notin> set (show_v4 a)"
proof -
  from assms obtain w x y z where a: "a = [w, x, y, z]" by (rule length4E)
  have nd: "\<not> is_digit CHR ''%''" by (simp add: is_digit_def)
  show "first_mark (show_v4 a) = Some CHR ''.''"
    by (simp add: a show_v4_def first_mark_append show_nat_no_char)
  show "CHR ''%'' \<notin> set (show_v4 a)" "CHR '':'' \<notin> set (show_v4 a)"
    using nd by (simp_all add: a show_v4_def show_nat_no_char)
qed

lemma parse_ip_show_v4: "length a = 4 \<Longrightarrow> parse_ip (show_v4 a) = Some (v4_prefix @ a)"
  by (simp add: parse_ip_def show_v4_chars parse_v4_show_v4)

text \<open>IPv6: a printed group is read back by \<open>scan_hex\<close>.\<close>

fun hex_fold :: "nat \<Rightarrow> nat list \<Rightarrow> nat" where
  "hex_fold acc [] = acc"
| "hex_fold acc (d # ds) = hex_fold (16 * acc + d) ds"

lemma hex_fold_append: "hex_fold acc (ds @ es) = hex_fold (hex_fold acc ds) es"
  by (induction ds arbitrary: acc) auto

lemma hex_fold_ge: "acc \<le> hex_fold acc ds"
proof (induction ds arbitrary: acc)
  case (Cons d ds)
  have "acc \<le> 16 * acc + d" by simp
  also have "\<dots> \<le> hex_fold (16 * acc + d) ds" by (rule Cons.IH)
  finally show ?case by simp
qed simp

fun hex_digits :: "nat \<Rightarrow> nat list" where
  "hex_digits n = (if n < 16 then [n] else hex_digits (n div 16) @ [n mod 16])"

declare hex_digits.simps [simp del]

lemma show_hex_digits: "show_hex n = map hex_char (hex_digits n)"
  by (induction n rule: hex_digits.induct)
    (simp add: show_hex.simps hex_digits.simps)

lemma hex_digits_less: "d \<in> set (hex_digits n) \<Longrightarrow> d < 16"
proof (induction n arbitrary: d rule: hex_digits.induct)
  case (1 n)
  then show ?case by (auto simp: hex_digits.simps [of n] split: if_splits)
qed

lemma hex_fold_hex_digits: "hex_fold 0 (hex_digits n) = n"
proof (induction n rule: hex_digits.induct)
  case (1 n)
  show ?case
    by (cases "n < 16") (simp_all add: hex_digits.simps [of n] hex_fold_append 1)
qed

lemma hex_digits_nonempty [simp]: "hex_digits n \<noteq> []"
  by (simp add: hex_digits.simps)

lemma length_hex_digits: "n < 16 ^ Suc k \<Longrightarrow> length (hex_digits n) \<le> Suc k"
proof (induction k arbitrary: n)
  case 0
  then show ?case by (simp add: hex_digits.simps)
next
  case (Suc k)
  show ?case
  proof (cases "n < 16")
    case True
    then show ?thesis by (simp add: hex_digits.simps)
  next
    case False
    have "n div 16 < 16 ^ Suc k" using Suc.prems by (simp add: less_mult_imp_div_less mult.commute)
    with Suc.IH have "length (hex_digits (n div 16)) \<le> Suc k" by blast
    with False show ?thesis by (simp add: hex_digits.simps [of n])
  qed
qed

lemma scan_hex_digits:
  assumes "\<forall>d \<in> set ds. d < 16" and "hex_fold acc ds \<le> 65535" and "off + length ds \<le> 4"
    and "t = [] \<or> hex_value (hd t) = None"
  shows "scan_hex off acc (map hex_char ds @ t) = Some (off + length ds, hex_fold acc ds, t)"
  using assms
proof (induction ds arbitrary: off acc)
  case Nil
  then show ?case by (cases t) auto
next
  case (Cons d ds)
  have "16 * acc + d \<le> 65535"
    using Cons.prems(2) hex_fold_ge [of "16 * acc + d" ds] by simp
  with Cons show ?case by simp
qed

lemma scan_hex_show_hex:
  assumes "t = [] \<or> hex_value (hd t) = None"
  shows "scan_hex 0 0 (show_hex (unat (w :: u16)) @ t) =
    Some (length (show_hex (unat w)), unat w, t)"
proof -
  have lt: "unat w < 65536" by simp
  then have "length (hex_digits (unat w)) \<le> 4"
    using length_hex_digits [of "unat w" 3] by simp
  moreover have "unat w \<le> 65535" using lt by linarith
  ultimately show ?thesis
    using scan_hex_digits [of "hex_digits (unat w)" 0 0 t] assms
    by (simp add: show_hex_digits hex_digits_less hex_fold_hex_digits)
qed

lemma show_hex_nonempty [simp]: "show_hex n \<noteq> []"
  by (simp add: show_hex_digits)

lemma hex_value_marks [simp]:
  "hex_value CHR '':'' = None" "hex_value CHR ''.'' = None" "hex_value CHR ''%'' = None"
  by (simp_all add: hex_value_def)

lemma show_hex_chars: "c \<in> set (show_hex n) \<Longrightarrow> hex_value c \<noteq> None"
  by (auto simp: show_hex_digits hex_digits_less)

lemma hd_show_hex: "hex_value (hd (show_hex n)) \<noteq> None"
  by (rule show_hex_chars [of _ n]) simp

lemma hd_show_hex_append: "hd (show_hex n @ t) \<noteq> CHR '':''"
  using hd_show_hex [of n] by auto

lemma v6_loop_last:
  assumes "length a < 16"
  shows "v6_loop a ell (show_hex (unat w)) = Some (a @ be16 w, ell, [])"
  using assms scan_hex_show_hex [of "[]" w]
  by (simp add: v6_loop.simps [of a ell "show_hex (unat w)"] Let_def)

lemma v6_loop_colon:
  assumes "length a < 16" and "s \<noteq> []" and "hd s \<noteq> CHR '':''"
  shows "v6_loop a ell (show_hex (unat w) @ CHR '':'' # s) = v6_loop (a @ be16 w) ell s"
  using assms scan_hex_show_hex [of "CHR '':'' # s" w]
  by (simp add: v6_loop.simps [of a ell "show_hex (unat w) @ CHR '':'' # s"] Let_def)

lemma v6_loop_ellipsis:
  assumes "length a < 16"
  shows "v6_loop a None (show_hex (unat w) @ ''::'' @ s) =
    (if s = [] then Some (a @ be16 w, Some (length (a @ be16 w)), [])
     else v6_loop (a @ be16 w) (Some (length (a @ be16 w))) s)"
  using assms scan_hex_show_hex [of "CHR '':'' # CHR '':'' # s" w]
  by (subst v6_loop.simps) (simp add: Let_def)

definition group_bytes :: "u16 list \<Rightarrow> bytes" where
  "group_bytes ws = concat (map be16 ws)"

lemma group_bytes_simps [simp]:
  "group_bytes [] = []" "group_bytes (w # ws) = be16 w @ group_bytes ws"
  "group_bytes (us @ ws) = group_bytes us @ group_bytes ws"
  by (simp_all add: group_bytes_def)

lemma length_group_bytes [simp]: "length (group_bytes ws) = 2 * length ws"
  by (induction ws) auto

lemma group_bytes_zeros [simp]: "group_bytes (replicate n 0) = replicate (2 * n) 0"
  by (induction n) auto

lemma group_bytes_groups: "even (length a) \<Longrightarrow> group_bytes (groups a) = a"
  by (induction a rule: groups.induct) auto

lemma length_groups: "length (groups a) = length a div 2"
  by (induction a rule: groups.induct) auto

lemma show_groups_simps:
  "show_groups [w] = show_hex (unat w)"
  "ws \<noteq> [] \<Longrightarrow> show_groups (w # ws) = show_hex (unat w) @ CHR '':'' # show_groups ws"
  by (simp add: show_groups_def, cases ws, simp_all add: show_groups_def)

lemma show_groups_nonempty:
  assumes "ws \<noteq> []"
  shows "show_groups ws \<noteq> []" and "hd (show_groups ws) \<noteq> CHR '':''"
  using assms hd_show_hex_append
  by (cases ws; cases "tl ws = []"; force simp: show_groups_simps)+

lemma v6_loop_groups:
  assumes "ws \<noteq> []" and "length a + 2 * length ws \<le> 16"
  shows "v6_loop a ell (show_groups ws) = Some (a @ group_bytes ws, ell, [])"
  using assms
proof (induction ws arbitrary: a)
  case (Cons w ws)
  show ?case
  proof (cases "ws = []")
    case True
    with Cons.prems show ?thesis by (simp add: show_groups_simps v6_loop_last)
  next
    case False
    with Cons.prems Cons.IH [of "a @ be16 w"] show_groups_nonempty [OF False]
    show ?thesis by (simp add: show_groups_simps v6_loop_colon)
  qed
qed simp

lemma v6_loop_groups_ellipsis:
  assumes "ws \<noteq> []" and "length a + 2 * length ws \<le> 16"
  shows "v6_loop a None (show_groups ws @ ''::'' @ s) =
    (let b = a @ group_bytes ws in
     if s = [] then Some (b, Some (length b), []) else v6_loop b (Some (length b)) s)"
  using assms
proof (induction ws arbitrary: a)
  case (Cons w ws)
  show ?case
  proof (cases "ws = []")
    case True
    with Cons.prems v6_loop_ellipsis [of a w s] show ?thesis
      by (simp add: show_groups_simps Let_def)
  next
    case False
    with Cons.prems Cons.IH [of "a @ be16 w"] show_groups_nonempty [OF False]
    show ?thesis by (simp add: show_groups_simps v6_loop_colon)
  qed
qed simp

lemma zero_run_take: "take (zero_run ws) ws = replicate (zero_run ws) 0"
  by (induction ws) auto

lemma zero_run_le: "zero_run ws \<le> length ws"
  by (induction ws) auto

definition zero_block :: "u16 list \<Rightarrow> nat \<Rightarrow> nat \<Rightarrow> bool" where
  "zero_block ws s e \<longleftrightarrow>
     s + 2 \<le> e \<and> e \<le> length ws \<and> ws = take s ws @ replicate (e - s) 0 @ drop e ws"

lemma zero_block_run:
  assumes "i \<le> length ws" and "2 \<le> zero_run (drop i ws)"
  shows "zero_block ws i (i + zero_run (drop i ws))"
proof -
  let ?l = "zero_run (drop i ws)"
  have "i + ?l \<le> length ws" using zero_run_le [of "drop i ws"] assms by simp
  moreover have "drop i ws = replicate ?l 0 @ drop (i + ?l) ws"
    by (metis append_take_drop_id zero_run_take drop_drop add.commute)
  ultimately show ?thesis
    using assms by (simp add: zero_block_def)
qed

lemma best_zero_run_block: "best_zero_run ws = Some (s, e) \<Longrightarrow> zero_block ws s e"
proof -
  let ?f = "\<lambda>i best. let l = zero_run (drop i ws) in
      if 2 \<le> l \<and> (case best of None \<Rightarrow> True | Some (s, e) \<Rightarrow> l > e - s)
      then Some (i, i + l) else best"
  let ?P = "\<lambda>best. \<forall>s e. best = Some (s, e) \<longrightarrow> zero_block ws s e"
  have "?P b \<Longrightarrow> set is \<subseteq> {..<length ws} \<Longrightarrow> ?P (fold ?f is b)" for "is" b
  proof (induction "is" arbitrary: b)
    case (Cons i "is")
    then have "?P (?f i b)" by (auto simp: Let_def intro: zero_block_run)
    with Cons show ?case by simp
  qed simp
  from this [of None "[0..<length ws]"] have "?P (best_zero_run ws)"
    unfolding best_zero_run_def by fastforce
  then show "best_zero_run ws = Some (s, e) \<Longrightarrow> zero_block ws s e" by blast
qed

lemma parse_v6_show_v6:
  assumes "length a = 16"
  shows "parse_v6 (show_v6 a) = Some a"
proof (cases "best_zero_run (groups a)")
  case None
  let ?ws = "groups a"
  have ws: "?ws \<noteq> []" "length ?ws = 8" using assms length_groups [of a] by auto
  have "\<not> has_prefix ''::'' (show_groups ?ws)"
    using show_groups_nonempty [OF ws(1)] by (cases "show_groups ?ws") auto
  with None ws assms v6_loop_groups [of ?ws "[]" None] show ?thesis
    by (simp add: parse_v6_def show_v6_def v6_finish_def group_bytes_groups)
next
  case (Some p)
  let ?ws = "groups a"
  obtain s e where p: "p = (s, e)" by (cases p)
  define A B where "A = take s ?ws" and "B = drop e ?ws"
  have len: "length ?ws = 8" using assms length_groups [of a] by simp
  have blk: "zero_block ?ws s e" using Some p best_zero_run_block by simp
  then have s: "s + 2 \<le> e" "e \<le> 8" and ws: "?ws = A @ replicate (e - s) 0 @ B"
    using len by (auto simp: zero_block_def A_def B_def)
  have lenA: "length A = s" and lenB: "length B = 8 - e"
    using s len by (auto simp: A_def B_def)
  have a: "a = group_bytes A @ replicate (2 * (e - s)) 0 @ group_bytes B"
    using group_bytes_groups [of a] assms by (simp add: ws flip: replicate_add)
  have str: "show_v6 a = show_groups A @ ''::'' @ show_groups B"
    using Some p by (simp add: show_v6_def A_def B_def Let_def)
  have fin: "v6_finish (Some (group_bytes A @ group_bytes B, Some (2 * s), [])) = Some a"
    using s lenA lenB by (simp add: v6_finish_def a algebra_simps)
  have B: "show_groups B = [] \<longleftrightarrow> B = []"
    using show_groups_nonempty(1) [of B] by (auto simp: show_groups_def)
  show ?thesis
  proof (cases "A = []")
    case True
    then have "s = 0" using lenA by simp
    show ?thesis
    proof (cases "B = []")
      case True
      have "show_v6 a = ''::''" by (simp add: str \<open>A = []\<close> True show_groups_def)
      then have "parse_v6 (show_v6 a) = Some (replicate 16 0)" by (simp add: parse_v6_def)
      moreover have "a = replicate 16 0" using \<open>A = []\<close> \<open>s = 0\<close> True a lenB s by simp
      ultimately show ?thesis by simp
    next
      case False
      with \<open>A = []\<close> \<open>s = 0\<close> B fin lenB s v6_loop_groups [OF False, of "[]" "Some 0"]
      show ?thesis by (simp add: str parse_v6_def show_groups_def [of "[]"])
    qed
  next
    case False
    have np: "\<not> has_prefix ''::'' (show_groups A @ ''::'' @ show_groups B)"
      using show_groups_nonempty [OF False]
      by (cases "show_groups A") auto
    have "v6_loop [] None (show_groups A @ ''::'' @ show_groups B) =
        Some (group_bytes A @ group_bytes B, Some (2 * s), [])"
      using v6_loop_groups_ellipsis [OF False, of "[]" "show_groups B"] lenA lenB s B
        v6_loop_groups [of B "group_bytes A" "Some (2 * s)"]
      by (auto simp: Let_def)
    with np fin show ?thesis by (simp add: str parse_v6_def)
  qed
qed

lemma show_groups_chars: "c \<in> set (show_groups ws) \<Longrightarrow> hex_value c \<noteq> None \<or> c = CHR '':''"
proof (induction ws)
  case (Cons w ws)
  then show ?case
    by (cases "ws = []") (auto simp: show_groups_simps dest: show_hex_chars)
qed (simp add: show_groups_def)

lemma show_v6_chars: "c \<in> set (show_v6 a) \<Longrightarrow> hex_value c \<noteq> None \<or> c = CHR '':''"
  by (auto simp: show_v6_def Let_def dest: show_groups_chars split: option.splits)

lemma first_mark_colon:
  "CHR '':'' \<in> set s \<Longrightarrow> CHR ''.'' \<notin> set s \<Longrightarrow> first_mark s = Some CHR '':''"
  by (induction s) auto

lemma colon_in_show_v6: "length a = 16 \<Longrightarrow> CHR '':'' \<in> set (show_v6 a)"
proof -
  assume len: "length a = 16"
  obtain w ws where ws: "groups a = w # ws" "ws \<noteq> []"
    using length_groups [of a] len by (cases "groups a"; cases "tl (groups a)") auto
  then show ?thesis
    by (auto simp: show_v6_def show_groups_simps Let_def split: option.splits)
qed

lemma parse_ip_show_v6:
  assumes "length a = 16"
  shows "parse_ip (show_v6 a) = Some a"
proof -
  have "CHR ''.'' \<notin> set (show_v6 a)" and "CHR ''%'' \<notin> set (show_v6 a)"
    using show_v6_chars by fastforce+
  with assms colon_in_show_v6 [OF assms] show ?thesis
    by (simp add: parse_ip_def first_mark_colon parse_v6_show_v6)
qed

text \<open>\<open>net.ParseIP(ip.String())\<close> is \<open>ip.To16()\<close> for every IPv4 and IPv6 address.\<close>

lemma parse_ip_ip_string:
  assumes "length a = 4 \<or> length a = 16"
  shows "parse_ip (ip_string a) = to16 a"
proof (cases "to4 a")
  case None
  then have "length a = 16" using assms by (auto simp: to4_def)
  with None show ?thesis by (auto simp: ip_string_def to16_def parse_ip_show_v6)
next
  case (Some b)
  then have "parse_ip (ip_string a) = Some (v4_prefix @ b)"
    using assms by (auto simp: ip_string_def parse_ip_show_v4 to4_length)
  moreover have "to16 a = Some (v4_prefix @ b)"
    using Some assms by (auto simp: to4_def to16_def split: if_splits)
      (metis append_take_drop_id)
  ultimately show ?thesis by simp
qed

lemma ip_string_no_bracket:
  assumes "length a = 4 \<or> length a = 16"
  shows "CHR ''['' \<notin> set (ip_string a)" and "CHR '']'' \<notin> set (ip_string a)"
proof -
  have v6: "CHR ''['' \<notin> set (show_v6 a)" "CHR '']'' \<notin> set (show_v6 a)"
    using show_v6_chars by (fastforce simp: hex_value_def)+
  have v4: "CHR ''['' \<notin> set (show_v4 b)" "CHR '']'' \<notin> set (show_v4 b)" if "length b = 4" for b
    using that by (auto elim!: length4E simp: show_v4_def show_nat_no_char)
  show "CHR ''['' \<notin> set (ip_string a)" "CHR '']'' \<notin> set (ip_string a)"
    using assms v4 v6 to4_length by (auto simp: ip_string_def split: option.splits)
qed

lemma show_nat_port [simp]:
  "CHR '':'' \<notin> set (show_nat n)" "CHR ''['' \<notin> set (show_nat n)" "CHR '']'' \<notin> set (show_nat n)"
  by (simp_all add: show_nat_no_char)

end
