(* ===== verification/SocksWire.thy ===== *)
theory SocksWire
  imports GoNet
begin

text \<open>
  The byte formats of the SOCKS5 server, \<open>src/internal/socks5/server.go\<close>: the
  greeting and the username/password exchange (\<open>negotiate\<close>, \<open>authenticate\<close>), the
  request and reply (\<open>readRequest\<close>, \<open>writeReply\<close>) and the UDP datagram header
  (\<open>parseUDPRequest\<close>, \<open>marshalUDPResponse\<close>). The client's connection is a record of
  the bytes it will still deliver, the bytes written to it and the outcomes of the
  coming writes. The abstract side is \<open>target\<close>, with one encoder per format; the
  main facts say that each reader accepts exactly the encodings and returns what
  was encoded, and that no client passes an authenticated greeting without the
  configured credentials.
\<close>

section \<open>Constants and addresses\<close>

definition version :: byte where "version = 5"
definition method_none :: byte where "method_none = 0"
definition method_password :: byte where "method_password = 2"
definition method_rejected :: byte where "method_rejected = 0xff"
definition command_connect :: byte where "command_connect = 1"
definition command_udp_associate :: byte where "command_udp_associate = 3"
definition reply_ok :: byte where "reply_ok = 0"
definition reply_general :: byte where "reply_general = 1"
definition reply_command :: byte where "reply_command = 7"
definition reply_address :: byte where "reply_address = 8"
definition address_ipv4 :: byte where "address_ipv4 = 1"
definition address_domain :: byte where "address_domain = 3"
definition address_ipv6 :: byte where "address_ipv6 = 4"

lemmas socks_constants [wire_simps] =
  version_def method_none_def method_password_def method_rejected_def command_connect_def
  command_udp_associate_def reply_ok_def reply_general_def reply_command_def reply_address_def
  address_ipv4_def address_domain_def address_ipv6_def

text \<open>A \<open>net.Addr\<close>: \<open>nil\<close>, one of the two address types the code looks for, or another.\<close>

datatype net_addr = NilAddr | TCPAddr ip int | UDPAddr ip int | OtherAddr

text \<open>\<open>uint16(port)\<close> truncates, and \<open>binary.BigEndian\<close> writes the two bytes.\<close>

definition port_bytes :: "int \<Rightarrow> bytes" where
  "port_bytes p = be16 (word_of_int p)"

lemma length_port_bytes [simp]: "length (port_bytes p) = 2"
  by (simp add: port_bytes_def)

definition port_of_bytes :: "bytes \<Rightarrow> int" where
  "port_of_bytes b = uint (be16_value (b ! 0) (b ! 1))"

lemma port_of_port_bytes [simp]: "0 \<le> p \<Longrightarrow> p < 65536 \<Longrightarrow> port_of_bytes (port_bytes p) = p"
  by (simp add: port_of_bytes_def port_bytes_def be16_def be16_value_be16 uint_word_of_int)

lemma port_bytes_port_of [simp]: "port_bytes (port_of_bytes [a, b]) = [a, b]"
  by (simp add: port_of_bytes_def port_bytes_def)

lemma port_of_bytes_range: "0 \<le> port_of_bytes b" "port_of_bytes b < 65536"
  using uint_bounded [of "be16_value (b ! 0) (b ! 1)"] by (simp_all add: port_of_bytes_def)

section \<open>UDP datagrams\<close>

definition parse_udp_request :: "bytes \<Rightarrow> (string \<times> int \<times> bytes) result" where
  "parse_udp_request data =
     (if length data < 4 \<or> data ! 0 \<noteq> 0 \<or> data ! 1 \<noteq> 0
      then Inl ''invalid SOCKS5 UDP request''
      else if data ! 2 \<noteq> 0 then Inl ''SOCKS5 UDP fragmentation is not supported''
      else bind_result
        (let offset = 4 in
         if data ! 3 = address_ipv4 then
           (if length data < offset + 4 then Inl ''truncated SOCKS5 UDP IPv4 address''
            else Inr (ip_string (take 4 (drop offset data)), offset + 4))
         else if data ! 3 = address_ipv6 then
           (if length data < offset + 16 then Inl ''truncated SOCKS5 UDP IPv6 address''
            else Inr (ip_string (take 16 (drop offset data)), offset + 16))
         else if data ! 3 = address_domain then
           (if length data < offset + 1 then Inl ''truncated SOCKS5 UDP domain length''
            else let n = unat (data ! offset); offset = offset + 1 in
              if n = 0 \<or> length data < offset + n then Inl ''invalid SOCKS5 UDP domain''
              else Inr (string_of_bytes (take n (drop offset data)), offset + n))
         else Inl ''unsupported SOCKS5 UDP address type'')
        (\<lambda>(host, offset).
           if length data < offset + 2 then Inl ''truncated SOCKS5 UDP port''
           else Inr (host, port_of_bytes (take 2 (drop offset data)), drop (offset + 2) data)))"

definition marshal_udp_response :: "net_addr \<Rightarrow> bytes \<Rightarrow> bytes result" where
  "marshal_udp_response address payload =
     (case address of
        UDPAddr a port \<Rightarrow>
          if a = [] then Inl ''VPN UDP response has no address''
          else (case to4 a of
              Some v4 \<Rightarrow> Inr ([0, 0, 0] @ [address_ipv4] @ v4 @ port_bytes port @ payload)
            | None \<Rightarrow> (case to16 a of
                  Some v6 \<Rightarrow> Inr ([0, 0, 0] @ [address_ipv6] @ v6 @ port_bytes port @ payload)
                | None \<Rightarrow> Inl ''VPN UDP response has an invalid address''))
      | _ \<Rightarrow> Inl ''VPN UDP response has no address'')"

section \<open>The client connection\<close>

record conn =
  cin :: bytes
  cout :: bytes
  cfails :: "bool list"

definition read_full :: "nat \<Rightarrow> conn \<Rightarrow> bytes result \<times> conn" where
  "read_full n c =
     (if n \<le> length (cin c) then (Inr (take n (cin c)), c\<lparr>cin := drop n (cin c)\<rparr>)
      else (Inl (if cin c = [] then ''EOF'' else ''unexpected EOF''), c\<lparr>cin := []\<rparr>))"

definition write_conn :: "bytes \<Rightarrow> conn \<Rightarrow> unit result \<times> conn" where
  "write_conn data c =
     (case cfails c of
        True # fs \<Rightarrow> (Inl ''write error'', c\<lparr>cfails := fs\<rparr>)
      | False # fs \<Rightarrow> (Inr (), c\<lparr>cout := cout c @ data, cfails := fs\<rparr>)
      | [] \<Rightarrow> (Inr (), c\<lparr>cout := cout c @ data\<rparr>))"

definition bind_conn ::
  "('a result \<times> conn) \<Rightarrow> ('a \<Rightarrow> conn \<Rightarrow> 'b result \<times> conn) \<Rightarrow> 'b result \<times> conn" where
  "bind_conn m f = (case m of (Inl e, c) \<Rightarrow> (Inl e, c) | (Inr x, c) \<Rightarrow> f x c)"

definition authenticate :: "string \<Rightarrow> string \<Rightarrow> conn \<Rightarrow> unit result \<times> conn" where
  "authenticate username password c0 =
     bind_conn (read_full 2 c0) (\<lambda>header c1.
     if header ! 0 \<noteq> 1 \<or> header ! 1 = 0
     then (Inl ''invalid SOCKS5 username/password request'', c1)
     else bind_conn (read_full (unat (header ! 1)) c1) (\<lambda>user c2.
     bind_conn (read_full 1 c2) (\<lambda>len c3.
     bind_conn (read_full (unat (len ! 0)) c3) (\<lambda>secret c4.
     let status = (if string_of_bytes user = username \<and> string_of_bytes secret = password
                   then 0 else 1);
         c5 = snd (write_conn [1, status] c4)
     in if status \<noteq> 0 then (Inl ''SOCKS5 authentication failed'', c5) else (Inr (), c5)))))"

definition negotiate :: "string \<Rightarrow> string \<Rightarrow> conn \<Rightarrow> unit result \<times> conn" where
  "negotiate username password c0 =
     bind_conn (read_full 2 c0) (\<lambda>header c1.
     if header ! 0 \<noteq> version \<or> header ! 1 = 0 then (Inl ''invalid SOCKS5 greeting'', c1)
     else bind_conn (read_full (unat (header ! 1)) c1) (\<lambda>methods c2.
     let wanted = (if username \<noteq> [] then method_password else method_none);
         selected = (if wanted \<in> set methods then wanted else method_rejected)
     in bind_conn (write_conn [version, selected] c2) (\<lambda>_ c3.
        if selected = method_rejected
        then (Inl ''SOCKS5 client does not offer the required authentication method'', c3)
        else if selected = method_password then authenticate username password c3
        else (Inr (), c3))))"

definition read_address :: "byte \<Rightarrow> conn \<Rightarrow> (string \<times> string) result \<times> conn" where
  "read_address kind c1 =
     (if kind = address_ipv4 then
        bind_conn (read_full 4 c1) (\<lambda>value c2. (Inr (''tcp4'', ip_string value), c2))
      else if kind = address_ipv6 then
        bind_conn (read_full 16 c1) (\<lambda>value c2. (Inr (''tcp6'', ip_string value), c2))
      else if kind = address_domain then
        bind_conn (read_full 1 c1) (\<lambda>len c2.
        if len ! 0 = 0 then (Inl ''empty SOCKS5 domain'', c2)
        else bind_conn (read_full (unat (len ! 0)) c2) (\<lambda>value c3.
          (Inr (''tcp4'', string_of_bytes value), c3)))
      else (Inl ''unsupported SOCKS5 address type'', c1))"

definition read_request :: "conn \<Rightarrow> (byte \<times> string \<times> string) result \<times> conn" where
  "read_request c0 =
     bind_conn (read_full 4 c0) (\<lambda>header c1.
     if header ! 0 \<noteq> version \<or> header ! 2 \<noteq> 0 then (Inl ''invalid SOCKS5 request'', c1)
     else bind_conn (read_address (header ! 3) c1) (\<lambda>(network, host) c4.
          bind_conn (read_full 2 c4) (\<lambda>port c5.
            (Inr (header ! 1, network, join_host_port host (show_int (port_of_bytes port))), c5))))"

definition reply_bytes :: "byte \<Rightarrow> net_addr \<Rightarrow> bytes" where
  "reply_bytes status address =
     (let (a, port) = (case address of TCPAddr i p \<Rightarrow> (i, p) | UDPAddr i p \<Rightarrow> (i, p)
                       | _ \<Rightarrow> (ipv4_zero, 0))
      in case to4 a of
           Some v4 \<Rightarrow> [version, status, 0, address_ipv4] @ v4 @ port_bytes port
         | None \<Rightarrow> [version, status, 0, address_ipv6] @
             (case to16 a of Some v6 \<Rightarrow> v6 | None \<Rightarrow> []) @ port_bytes port)"

definition write_reply :: "byte \<Rightarrow> net_addr \<Rightarrow> conn \<Rightarrow> unit result \<times> conn" where
  "write_reply status address c = write_conn (reply_bytes status address) c"

section \<open>The abstract side: targets and their encodings\<close>

datatype target = V4 ip | V6 ip | Domain string

fun wf_target :: "target \<Rightarrow> bool" where
  "wf_target (V4 a) = (length a = 4)"
| "wf_target (V6 a) = (length a = 16)"
| "wf_target (Domain d) = (d \<noteq> [] \<and> length d < 256)"

fun encode_target :: "target \<Rightarrow> bytes" where
  "encode_target (V4 a) = address_ipv4 # a"
| "encode_target (V6 a) = address_ipv6 # a"
| "encode_target (Domain d) = address_domain # of_nat (length d) # bytes_of_string d"

fun target_host :: "target \<Rightarrow> string" where
  "target_host (V4 a) = ip_string a"
| "target_host (V6 a) = ip_string a"
| "target_host (Domain d) = d"

fun target_network :: "target \<Rightarrow> string" where
  "target_network (V4 a) = ''tcp4''"
| "target_network (V6 a) = ''tcp6''"
| "target_network (Domain d) = ''tcp4''"

definition encode_udp :: "target \<Rightarrow> int \<Rightarrow> bytes \<Rightarrow> bytes" where
  "encode_udp t port payload = [0, 0, 0] @ encode_target t @ port_bytes port @ payload"

definition encode_request :: "byte \<Rightarrow> target \<Rightarrow> int \<Rightarrow> bytes" where
  "encode_request cmd t port = [version, cmd, 0] @ encode_target t @ port_bytes port"

definition encode_greeting :: "bytes \<Rightarrow> bytes" where
  "encode_greeting methods = [version, of_nat (length methods)] @ methods"

definition encode_auth :: "string \<Rightarrow> string \<Rightarrow> bytes" where
  "encode_auth u p = [1, of_nat (length u)] @ bytes_of_string u @ [of_nat (length p)] @ bytes_of_string p"

definition wf_port :: "int \<Rightarrow> bool" where
  "wf_port p = (0 \<le> p \<and> p < 65536)"

section \<open>Reading and writing\<close>

lemma read_full_cin [simp]:
  "length xs = n \<Longrightarrow> read_full n (c\<lparr>cin := xs @ ys\<rparr>) = (Inr xs, c\<lparr>cin := ys\<rparr>)"
  "read_full (Suc 0) (c\<lparr>cin := a # ys\<rparr>) = (Inr [a], c\<lparr>cin := ys\<rparr>)"
  "read_full 2 (c\<lparr>cin := a # b # ys\<rparr>) = (Inr [a, b], c\<lparr>cin := ys\<rparr>)"
  by (simp_all add: read_full_def)

lemma read_full_start:
  "cin c = xs @ ys \<Longrightarrow> read_full n c = read_full n (c\<lparr>cin := xs @ ys\<rparr>)"
  by (simp add: read_full_def)

lemma read_full_InrD:
  "read_full n c = (Inr xs, c') \<Longrightarrow> cin c = xs @ cin c' \<and> length xs = n \<and> c' = c\<lparr>cin := cin c'\<rparr>"
  by (auto simp: read_full_def split: if_splits)

lemma bind_conn_Inr [simp]: "bind_conn (Inr x, c) f = f x c"
  by (simp add: bind_conn_def)

lemma bind_conn_Inl [simp]: "bind_conn (Inl e, c) f = (Inl e, c)"
  by (simp add: bind_conn_def)

lemma bind_conn_InrE:
  assumes "bind_conn m f = (Inr y, c')"
  obtains x c where "m = (Inr x, c)" and "f x c = (Inr y, c')"
  using assms by (auto simp: bind_conn_def split: prod.splits sum.splits)

lemma write_conn_cin [simp]: "cin (snd (write_conn d c)) = cin c"
  by (auto simp: write_conn_def split: list.splits bool.splits)

lemma write_conn_InrD:
  "write_conn d c = (Inr u, c') \<Longrightarrow> cout c' = cout c @ d \<and> cin c' = cin c"
  by (auto simp: write_conn_def split: list.splits bool.splits)

lemma write_conn_ok:
  "cfails c = [] \<Longrightarrow> write_conn d c = (Inr (), c\<lparr>cout := cout c @ d\<rparr>)"
  by (simp add: write_conn_def)

lemma byte_length: "length xs < 256 \<Longrightarrow> unat (of_nat (length xs) :: byte) = length xs"
  by (simp add: unat_of_nat)

lemma length_2E:
  assumes "length xs = 2" obtains a b where "xs = [a, b]"
  using assms by (auto simp: numeral_eq_Suc length_Suc_conv)

lemma port_bytes_surj: "length xs = 2 \<Longrightarrow> port_bytes (port_of_bytes xs) = xs"
  by (erule length_2E) simp

section \<open>UDP datagrams: the parser accepts exactly the encodings\<close>

lemma drop_five_plus [simp]:
  "drop (5 + n) (a # b # c # d # e # xs) = drop n xs"
  "drop (7 + n) (a # b # c # d # e # xs) = drop (2 + n) xs"
  by (simp_all add: numeral_eq_Suc)

lemma parse_encode_udp:
  assumes "wf_target t" and "wf_port port"
  shows "parse_udp_request (encode_udp t port payload) = Inr (target_host t, port, payload)"
  using assms
  by (cases t) (auto simp: parse_udp_request_def encode_udp_def wf_port_def Let_def wire_simps
      byte_length nth_append)

definition udp_header :: "bytes \<Rightarrow> bool" where
  "udp_header data \<longleftrightarrow> 4 \<le> length data \<and> data ! 0 = 0 \<and> data ! 1 = 0 \<and> data ! 2 = 0"

lemma udp_header_split:
  assumes "udp_header data"
  shows "data = 0 # 0 # 0 # data ! 3 # drop 4 data"
proof -
  obtain a b c d xs where "data = a # b # c # d # xs"
    using assms by (auto simp: udp_header_def numeral_eq_Suc Suc_le_length_iff)
  then show ?thesis using assms by (simp add: udp_header_def numeral_eq_Suc)
qed

lemma port_split:
  assumes "n + 2 \<le> length data"
  shows "drop n data = port_bytes (port_of_bytes (take 2 (drop n data))) @ drop (n + 2) data"
proof -
  have "length (take 2 (drop n data)) = 2" using assms by simp
  then have "port_bytes (port_of_bytes (take 2 (drop n data))) = take 2 (drop n data)"
    by (rule port_bytes_surj)
  then show ?thesis by (metis append_take_drop_id drop_drop add.commute)
qed

lemma wf_port_of_bytes [simp]: "wf_port (port_of_bytes b)"
  using port_of_bytes_range by (simp add: wf_port_def)

text \<open>The parser on a datagram with a good header, one equation per address type.\<close>

lemma parse_udp_v4:
  "udp_header data \<Longrightarrow> data ! 3 = address_ipv4 \<Longrightarrow> parse_udp_request data =
    (if length data < 8 then Inl ''truncated SOCKS5 UDP IPv4 address''
     else if length data < 10 then Inl ''truncated SOCKS5 UDP port''
     else Inr (ip_string (take 4 (drop 4 data)), port_of_bytes (take 2 (drop 8 data)), drop 10 data))"
  by (simp add: parse_udp_request_def udp_header_def)

lemma parse_udp_v6:
  "udp_header data \<Longrightarrow> data ! 3 = address_ipv6 \<Longrightarrow> parse_udp_request data =
    (if length data < 20 then Inl ''truncated SOCKS5 UDP IPv6 address''
     else if length data < 22 then Inl ''truncated SOCKS5 UDP port''
     else Inr (ip_string (take 16 (drop 4 data)), port_of_bytes (take 2 (drop 20 data)), drop 22 data))"
  by (simp add: parse_udp_request_def udp_header_def wire_simps)

lemma parse_udp_domain:
  "udp_header data \<Longrightarrow> data ! 3 = address_domain \<Longrightarrow> n = unat (data ! 4) \<Longrightarrow> parse_udp_request data =
    (if length data < 5 then Inl ''truncated SOCKS5 UDP domain length''
     else if n = 0 \<or> length data < 5 + n then Inl ''invalid SOCKS5 UDP domain''
     else if length data < 7 + n then Inl ''truncated SOCKS5 UDP port''
     else Inr (string_of_bytes (take n (drop 5 data)),
               port_of_bytes (take 2 (drop (5 + n) data)), drop (7 + n) data))"
  by (simp add: parse_udp_request_def udp_header_def wire_simps Let_def)

lemma parse_udp_other:
  "parse_udp_request data = Inr r \<Longrightarrow> udp_header data \<and>
    data ! 3 \<in> {address_ipv4, address_ipv6, address_domain}"
  by (auto simp: parse_udp_request_def udp_header_def split: if_splits)

lemma parse_udp_request_Inr:
  assumes "parse_udp_request data = Inr r"
  shows "\<exists>t port payload. wf_target t \<and> wf_port port \<and> r = (target_host t, port, payload) \<and>
    data = encode_udp t port payload"
proof -
  have h: "udp_header data" using parse_udp_other assms by blast
  note d = udp_header_split [OF h]
  consider "data ! 3 = address_ipv4" | "data ! 3 = address_ipv6" | "data ! 3 = address_domain"
    using parse_udp_other assms by blast
  then show ?thesis
  proof cases
    case 1
    let ?a = "take 4 (drop 4 data)"
    have r: "r = (ip_string ?a, port_of_bytes (take 2 (drop 8 data)), drop 10 data)"
      and len: "10 \<le> length data"
      using assms by (auto simp: parse_udp_v4 [OF h 1] split: if_splits)
    have "drop 4 data = ?a @ drop 8 data"
      using append_take_drop_id [of 4 "drop 4 data"] by simp
    with d 1 port_split [of 8 data] len
    have "data = encode_udp (V4 ?a) (port_of_bytes (take 2 (drop 8 data))) (drop 10 data)"
      by (simp add: encode_udp_def)
    with r len show ?thesis
      by (intro exI [of _ "V4 ?a"] exI [of _ "port_of_bytes (take 2 (drop 8 data))"]
          exI [of _ "drop 10 data"]) simp
  next
    case 2
    let ?a = "take 16 (drop 4 data)"
    have r: "r = (ip_string ?a, port_of_bytes (take 2 (drop 20 data)), drop 22 data)"
      and len: "22 \<le> length data"
      using assms by (auto simp: parse_udp_v6 [OF h 2] split: if_splits)
    have "drop 4 data = ?a @ drop 20 data"
      using append_take_drop_id [of 16 "drop 4 data"] by simp
    with d 2 port_split [of 20 data] len
    have "data = encode_udp (V6 ?a) (port_of_bytes (take 2 (drop 20 data))) (drop 22 data)"
      by (simp add: encode_udp_def)
    with r len show ?thesis
      by (intro exI [of _ "V6 ?a"] exI [of _ "port_of_bytes (take 2 (drop 20 data))"]
          exI [of _ "drop 22 data"]) simp
  next
    case 3
    define n where "n = unat (data ! 4)"
    let ?a = "string_of_bytes (take n (drop 5 data))"
    have r: "r = (?a, port_of_bytes (take 2 (drop (5 + n) data)), drop (7 + n) data)"
      and len: "7 + n \<le> length data" and n: "n \<noteq> 0"
      using assms by (auto simp: parse_udp_domain [OF h 3 n_def] split: if_splits)
    have la: "length ?a = n" and "n < 256" using len by (simp_all add: n_def)
    moreover have "?a \<noteq> []" using la n by (metis length_0_conv)
    ultimately have wf: "wf_target (Domain ?a)" by simp
    have b: "(of_nat n :: byte) = data ! 4" by (simp add: n_def)
    have d4: "drop 4 data = data ! 4 # drop 5 data"
      using len Cons_nth_drop_Suc [of 4 data] by simp
    have d5: "drop 5 data = take n (drop 5 data) @ drop (5 + n) data"
      using append_take_drop_id [of n "drop 5 data"] by (simp add: add.commute)
    have "encode_udp (Domain ?a) (port_of_bytes (take 2 (drop (5 + n) data))) (drop (7 + n) data)
        = 0 # 0 # 0 # data ! 3 # data ! 4 # take n (drop 5 data) @ drop (5 + n) data"
      using port_split [of "5 + n" data] len la b 3 by (simp add: encode_udp_def add.commute)
    also have "\<dots> = data" using d d4 d5 by simp
    finally show ?thesis
      using r wf by (intro exI [of _ "Domain ?a"]
          exI [of _ "port_of_bytes (take 2 (drop (5 + n) data))"] exI [of _ "drop (7 + n) data"]) simp
  qed
qed

text \<open>
  C28: \<open>parseUDPRequest\<close> accepts exactly the unfragmented datagrams of RFC 1928 with a
  non-empty host, and gives back the host, the port and the payload they encode; every
  other byte string is refused.
\<close>

theorem parse_udp_request_exact:
  "parse_udp_request data = Inr (host, port, payload) \<longleftrightarrow>
    (\<exists>t. wf_target t \<and> wf_port port \<and> host = target_host t \<and> data = encode_udp t port payload)"
  using parse_udp_request_Inr parse_encode_udp by (fastforce)

definition ip_target :: "ip \<Rightarrow> target" where
  "ip_target a = (case to4 a of Some b \<Rightarrow> V4 b | None \<Rightarrow> V6 a)"

definition wf_ip :: "ip \<Rightarrow> bool" where
  "wf_ip a = (length a = 4 \<or> length a = 16)"

lemma wf_ip_target: "wf_ip a \<Longrightarrow> wf_target (ip_target a)"
proof (cases "to4 a")
  case None
  moreover assume "wf_ip a"
  ultimately have "length a = 16" by (auto simp: wf_ip_def)
  with None show ?thesis by (simp add: ip_target_def)
next
  case (Some b)
  then show ?thesis by (simp add: ip_target_def to4_length)
qed

lemma ip_string_to4: "to4 a = Some b \<Longrightarrow> ip_string b = ip_string a"
  using to4_length [of a b] by (auto simp: ip_string_def to4_def split: if_splits)

lemma target_host_ip_target: "target_host (ip_target a) = ip_string a"
  by (auto simp: ip_target_def ip_string_to4 split: option.splits)

lemma marshal_udp_response_ip:
  assumes "wf_ip a"
  shows "marshal_udp_response (UDPAddr a port) payload = Inr (encode_udp (ip_target a) port payload)"
proof (cases "to4 a")
  case None
  with assms have "length a = 16" by (auto simp: wf_ip_def to4_def)
  with None show ?thesis
    by (auto simp: marshal_udp_response_def encode_udp_def ip_target_def to16_def)
next
  case (Some b)
  with assms show ?thesis
    by (auto simp: marshal_udp_response_def encode_udp_def ip_target_def wf_ip_def)
qed

lemma marshal_udp_response_Inr_iff:
  "(\<exists>out. marshal_udp_response address payload = Inr out) \<longleftrightarrow>
    (\<exists>a port. address = UDPAddr a port \<and> wf_ip a)"
  by (auto simp: marshal_udp_response_def wf_ip_def to4_def to16_def split: net_addr.splits)

text \<open>
  C34: The header \<open>marshalUDPResponse\<close> puts before a reply decodes to the sender's
  address and port, with the payload unchanged.
\<close>

theorem udp_response_roundtrip:
  assumes "wf_ip a" and "wf_port port"
  shows "\<exists>out. marshal_udp_response (UDPAddr a port) payload = Inr out \<and>
    parse_udp_request out = Inr (ip_string a, port, payload)"
  using parse_encode_udp [OF wf_ip_target [OF assms(1)] assms(2), of payload]
  by (auto simp: marshal_udp_response_ip assms target_host_ip_target)

lemma udp_response_roundtrip_witness:
  "\<exists>out. marshal_udp_response (UDPAddr [10, 0, 0, 1] 53) [7, 9] = Inr out \<and>
    parse_udp_request out = Inr (ip_string [10, 0, 0, 1], 53, [7, 9])"
  by (rule udp_response_roundtrip) (simp_all add: wf_ip_def wf_port_def)

section \<open>The greeting and the credentials\<close>

lemma authenticate_InrD:
  assumes "authenticate u p c = (Inr x, c')"
  shows "cin c = encode_auth u p @ cin c' \<and> length u < 256 \<and> u \<noteq> [] \<and> length p < 256"
proof -
  obtain header c1 where h: "read_full 2 c = (Inr header, c1)" "header ! 0 = 1" "header ! 1 \<noteq> 0"
    and r1: "bind_conn (read_full (unat (header ! 1)) c1) (\<lambda>user c2.
        bind_conn (read_full 1 c2) (\<lambda>len c3.
        bind_conn (read_full (unat (len ! 0)) c3) (\<lambda>secret c4.
        let status = (if string_of_bytes user = u \<and> string_of_bytes secret = p then 0 else (1 :: byte));
            c5 = snd (write_conn [1, status] c4)
        in if status \<noteq> 0 then (Inl ''SOCKS5 authentication failed'', c5) else (Inr (), c5)))) = (Inr x, c')"
    using assms unfolding authenticate_def
    by (auto elim!: bind_conn_InrE split: if_splits)
  from r1 obtain user c2 len c3 secret c4 where
      u: "read_full (unat (header ! 1)) c1 = (Inr user, c2)"
    and l: "read_full 1 c2 = (Inr len, c3)"
    and p: "read_full (unat (len ! 0)) c3 = (Inr secret, c4)"
    and eq: "string_of_bytes user = u" "string_of_bytes secret = p"
    and c': "cin c' = cin c4"
    by (auto elim!: bind_conn_InrE simp: Let_def split: if_splits)
  note rd = read_full_InrD [OF h(1)] read_full_InrD [OF u] read_full_InrD [OF l] read_full_InrD [OF p]
  obtain h1 where header: "header = [1, h1]" "h1 \<noteq> 0"
    using rd(1) h by (auto elim!: length_2E)
  obtain l1 where len: "len = [l1]" using rd(3) by (cases len) auto
  have user: "user = bytes_of_string u" "h1 = of_nat (length u)" "length u < 256"
    using rd(2) eq header by (auto simp: string_of_bytes_eq_iff)
  have secret: "secret = bytes_of_string p" "l1 = of_nat (length p)" "length p < 256"
    using rd(4) eq len by (auto simp: string_of_bytes_eq_iff)
  have "u \<noteq> []" using user header by auto
  with rd c' header len user secret show ?thesis by (simp add: encode_auth_def)
qed

lemma authenticate_ok:
  assumes "cin c = encode_auth u p @ rest" and "u \<noteq> []" "length u < 256" "length p < 256"
  shows "authenticate u p c = (Inr (), snd (write_conn [1, 0] (c\<lparr>cin := rest\<rparr>)))"
proof -
  have nz: "(of_nat (length u) :: byte) \<noteq> 0"
    using byte_length [OF assms(3)] assms(2) by (metis length_0_conv unat_0)
  note lens = byte_length [OF assms(3)] byte_length [OF assms(4)]
  have c: "c = c\<lparr>cin := 1 # of_nat (length u) # bytes_of_string u @
      of_nat (length p) # bytes_of_string p @ rest\<rparr>"
    using assms(1) by (simp add: encode_auth_def)
  show ?thesis
    by (subst c, simp add: authenticate_def nz lens Let_def)
qed

definition wanted_method :: "string \<Rightarrow> byte" where
  "wanted_method username = (if username \<noteq> [] then method_password else method_none)"

lemma wanted_method_simps [simp]:
  "wanted_method u \<noteq> method_rejected" "wanted_method u = method_password \<longleftrightarrow> u \<noteq> []"
  by (simp_all add: wanted_method_def wire_simps)

lemma greeting_start:
  assumes "cin c = encode_greeting methods @ rest" and "methods \<noteq> []" "length methods < 256"
  shows "negotiate u p c =
    bind_conn (write_conn
        [version, if wanted_method u \<in> set methods then wanted_method u else method_rejected]
        (c\<lparr>cin := rest\<rparr>))
      (\<lambda>_ c3. if wanted_method u \<notin> set methods
        then (Inl ''SOCKS5 client does not offer the required authentication method'', c3)
        else if u \<noteq> [] then authenticate u p c3 else (Inr (), c3))"
proof -
  have nz: "(of_nat (length methods) :: byte) \<noteq> 0"
    using byte_length [OF assms(3)] assms(2) by (metis length_0_conv unat_0)
  note lens = byte_length [OF assms(3)]
  have c: "c = c\<lparr>cin := version # of_nat (length methods) # methods @ rest\<rparr>"
    using assms(1) by (simp add: encode_greeting_def)
  have "negotiate u p c = bind_conn (write_conn
        [version, if wanted_method u \<in> set methods then wanted_method u else method_rejected]
        (c\<lparr>cin := rest\<rparr>))
      (\<lambda>_ c3. let selected = if wanted_method u \<in> set methods then wanted_method u else method_rejected in
        if selected = method_rejected
        then (Inl ''SOCKS5 client does not offer the required authentication method'', c3)
        else if selected = method_password then authenticate u p c3 else (Inr (), c3))"
    by (subst c, simp add: negotiate_def nz lens Let_def wanted_method_def [symmetric])
  also have "\<dots> = bind_conn (write_conn
        [version, if wanted_method u \<in> set methods then wanted_method u else method_rejected]
        (c\<lparr>cin := rest\<rparr>))
      (\<lambda>_ c3. if wanted_method u \<notin> set methods
        then (Inl ''SOCKS5 client does not offer the required authentication method'', c3)
        else if u \<noteq> [] then authenticate u p c3 else (Inr (), c3))"
    by (rule arg_cong2 [of _ _ _ _ bind_conn]) (auto simp: Let_def fun_eq_iff)
  finally show ?thesis .
qed

lemma negotiate_greeting:
  assumes "negotiate u p c = (Inr x, c')"
  shows "\<exists>methods rest. cin c = encode_greeting methods @ rest \<and> methods \<noteq> [] \<and> length methods < 256"
proof -
  obtain header c1 methods c2 where h: "read_full 2 c = (Inr header, c1)"
      "header ! 0 = version" "header ! 1 \<noteq> 0"
    and m: "read_full (unat (header ! 1)) c1 = (Inr methods, c2)"
    using assms unfolding negotiate_def by (auto elim!: bind_conn_InrE split: if_splits)
  note rd = read_full_InrD [OF h(1)] read_full_InrD [OF m]
  obtain n where "header = [version, n]" "n \<noteq> 0"
    using rd(1) h by (auto elim!: length_2E)
  moreover have "unat n \<noteq> 0" using \<open>n \<noteq> 0\<close> by (simp add: unat_eq_zero)
  moreover have "methods \<noteq> []" "length methods < 256" "of_nat (length methods) = n"
    using rd(2) calculation by auto
  ultimately show ?thesis
    using rd by (intro exI [of _ methods] exI [of _ "cin c2"]) (simp add: encode_greeting_def)
qed

text \<open>
  A negotiation succeeds only when the client has sent a greeting that offers the
  configured method and, when a user name is configured, exactly that user name and
  password; what follows in the stream is left unread.
\<close>

theorem negotiate_only_authentic:
  assumes "negotiate u p c = (Inr x, c')"
  shows "\<exists>methods. cin c = encode_greeting methods @
      (if u = [] then [] else encode_auth u p) @ cin c' \<and> wanted_method u \<in> set methods"
proof -
  obtain methods rest where g: "cin c = encode_greeting methods @ rest" "methods \<noteq> []"
    "length methods < 256"
    using negotiate_greeting [OF assms] by blast
  from assms obtain c3 where w: "write_conn [version, wanted_method u] (c\<lparr>cin := rest\<rparr>) = (Inr (), c3)"
    and m: "wanted_method u \<in> set methods"
    and k: "(if u \<noteq> [] then authenticate u p c3 else (Inr (), c3)) = (Inr x, c')"
    unfolding greeting_start [OF g] by (auto elim!: bind_conn_InrE split: if_splits)
  have "cin c3 = rest" using write_conn_InrD [OF w] by simp
  with k have "rest = (if u = [] then [] else encode_auth u p) @ cin c'"
    using authenticate_InrD [of u p c3 x c'] by (auto split: if_splits)
  with g m show ?thesis by auto
qed

lemma negotiate_ok:
  assumes "cin c = encode_greeting methods @ (if u = [] then [] else encode_auth u p) @ rest"
    and "wanted_method u \<in> set methods" "length methods < 256"
    and "length u < 256" "length p < 256" and "cfails c = []"
  shows "negotiate u p c =
    (Inr (), c\<lparr>cin := rest, cout := cout c @ [version, wanted_method u] @ (if u = [] then [] else [1, 0])\<rparr>)"
proof -
  have m: "methods \<noteq> []" using assms(2) by auto
  show ?thesis
    unfolding greeting_start [OF assms(1) m assms(3)]
    using assms by (auto simp: write_conn_ok authenticate_ok)
qed

text \<open>
  A client that offers the configured method and the configured credentials is
  accepted, and is sent the method and, with credentials, the success status.
\<close>

theorem negotiate_accepts:
  assumes "cin c = encode_greeting methods @ (if u = [] then [] else encode_auth u p) @ rest"
    and "wanted_method u \<in> set methods" "length methods < 256"
    and "length u < 256" "length p < 256" and "cfails c = []"
  shows "negotiate u p c =
    (Inr (), c\<lparr>cin := rest, cout := cout c @ [version, wanted_method u] @ (if u = [] then [] else [1, 0])\<rparr>)"
  by (rule negotiate_ok) (fact assms)+

definition sample_conn :: conn where
  "sample_conn = \<lparr>cin = encode_greeting [0, 2] @ encode_auth ''me'' ''pw'' @ [9], cout = [], cfails = []\<rparr>"

lemma negotiate_accepts_witness:
  "negotiate ''me'' ''pw'' sample_conn =
    (Inr (), sample_conn\<lparr>cin := [9], cout := [version, method_password, 1, 0]\<rparr>)"
  using negotiate_accepts [of sample_conn "[0, 2]" "''me''" "''pw''" "[9]"]
  by (simp add: sample_conn_def wanted_method_def method_password_def)

lemma negotiate_only_authentic_witness:
  "\<exists>methods. cin sample_conn = encode_greeting methods @ encode_auth ''me'' ''pw'' @ [9]"
proof -
  have "negotiate ''me'' ''pw'' sample_conn =
    (Inr (), sample_conn\<lparr>cin := [9], cout := [version, method_password, 1, 0]\<rparr>)"
    using negotiate_ok [of sample_conn "[0, 2]" "''me''" "''pw''" "[9]"]
    by (simp add: sample_conn_def wanted_method_def method_password_def)
  from negotiate_only_authentic [OF this] show ?thesis by auto
qed

text \<open>
  A client that does not offer the configured method is sent \<open>0xff\<close> and refused
  before any credentials are read.
\<close>

theorem negotiate_rejects:
  assumes "cin c = encode_greeting methods @ rest" and "wanted_method u \<notin> set methods"
    and "methods \<noteq> []" "length methods < 256" and "cfails c = []"
  shows "negotiate u p c =
    (Inl ''SOCKS5 client does not offer the required authentication method'',
     c\<lparr>cin := rest, cout := cout c @ [version, method_rejected]\<rparr>)"
  unfolding greeting_start [OF assms(1,3,4)] using assms by (simp add: write_conn_ok)

lemma negotiate_rejects_witness:
  "negotiate ''me'' ''pw'' (sample_conn\<lparr>cin := encode_greeting [0] @ [9]\<rparr>) =
    (Inl ''SOCKS5 client does not offer the required authentication method'',
     sample_conn\<lparr>cin := [9], cout := [version, method_rejected]\<rparr>)"
  using negotiate_rejects [of "sample_conn\<lparr>cin := encode_greeting [0] @ [9]\<rparr>" "[0]" "[9]" "''me''" "''pw''"]
  by (simp add: sample_conn_def wanted_method_def method_password_def)

section \<open>Requests and replies\<close>

lemma read_encode_request:
  assumes "wf_target t" and "wf_port port" and "cin c = encode_request cmd t port @ rest"
  shows "read_request c = (Inr (cmd, target_network t,
      join_host_port (target_host t) (show_int port)), c\<lparr>cin := rest\<rparr>)"
proof -
  have pb: "read_full 2 (c\<lparr>cin := port_bytes port @ rest\<rparr>) = (Inr (port_bytes port), c\<lparr>cin := rest\<rparr>)"
    by simp
  have start: "read_full 4 c = (Inr [version, cmd, 0, hd (encode_target t)],
      c\<lparr>cin := tl (encode_target t) @ port_bytes port @ rest\<rparr>)"
    using assms(3) by (cases t) (simp_all add: read_full_def encode_request_def)
  note port = port_of_port_bytes [of port]
  show ?thesis
  proof (cases t)
    case (V4 a)
    with assms pb port show ?thesis
      by (simp add: read_request_def read_address_def start wf_port_def)
  next
    case (V6 a)
    with assms pb port show ?thesis
      by (simp add: read_request_def read_address_def start wf_port_def wire_simps)
  next
    case (Domain d)
    then have len: "length d < 256" and "d \<noteq> []" using assms by simp_all
    then have nz: "(of_nat (length d) :: byte) \<noteq> 0"
      using byte_length [OF len] by (metis length_0_conv unat_0)
    with Domain assms pb port byte_length [OF len] show ?thesis
      by (simp add: read_request_def read_address_def start wf_port_def wire_simps)
  qed
qed

lemma read_address_InrD:
  assumes "read_address a c1 = (Inr r, c4)"
  shows "\<exists>t. wf_target t \<and> a # cin c1 = encode_target t @ cin c4"
proof -
  consider "a = address_ipv4" | "a = address_ipv6" "a \<noteq> address_ipv4"
    | "a = address_domain" "a \<noteq> address_ipv4" "a \<noteq> address_ipv6"
    using assms by (auto simp: read_address_def split: if_splits)
  then show ?thesis
  proof cases
    case 1
    with assms obtain v where "read_full 4 c1 = (Inr v, c4)"
      by (auto simp: read_address_def elim!: bind_conn_InrE)
    from read_full_InrD [OF this] 1 show ?thesis by (intro exI [of _ "V4 v"]) simp
  next
    case 2
    with assms obtain v where "read_full 16 c1 = (Inr v, c4)"
      by (auto simp: read_address_def elim!: bind_conn_InrE)
    from read_full_InrD [OF this] 2 show ?thesis by (intro exI [of _ "V6 v"]) simp
  next
    case 3
    with assms obtain len c2 v where l: "read_full 1 c1 = (Inr len, c2)" "len ! 0 \<noteq> 0"
      and v: "read_full (unat (len ! 0)) c2 = (Inr v, c4)"
      by (auto simp: read_address_def elim!: bind_conn_InrE split: if_splits)
    note r = read_full_InrD [OF l(1)] read_full_InrD [OF v]
    obtain n where n: "len = [n]" using r by (cases len) auto
    then have "unat n \<noteq> 0" using l by (simp add: unat_eq_zero)
    then have "v \<noteq> []" "length v < 256" "of_nat (length v) = n"
      using r n by auto
    with r n 3 show ?thesis
      by (intro exI [of _ "Domain (string_of_bytes v)"]) auto
  qed
qed

lemma read_request_InrD:
  assumes "read_request c = (Inr (cmd, network, address), c')"
  shows "\<exists>t port. wf_target t \<and> wf_port port \<and> cin c = encode_request cmd t port @ cin c'"
proof -
  obtain header c1 r c4 port where h: "read_full 4 c = (Inr header, c1)"
      "header ! 0 = version" "header ! 2 = 0" "header ! 1 = cmd"
    and addr: "read_address (header ! 3) c1 = (Inr r, c4)"
    and p: "read_full 2 c4 = (Inr port, c')"
    using assms unfolding read_request_def
    by (auto elim!: bind_conn_InrE split: if_splits prod.splits)
  note rh = read_full_InrD [OF h(1)] and rp = read_full_InrD [OF p]
  obtain a where header: "header = [version, cmd, 0, a]"
    using rh h by (auto simp: numeral_eq_Suc length_Suc_conv)
  then obtain t where t: "wf_target t" "a # cin c1 = encode_target t @ cin c4"
    using read_address_InrD [OF addr] by auto
  have "cin c = encode_request cmd t (port_of_bytes port) @ cin c'"
    using rh rp header t port_bytes_surj [of port] by (simp add: encode_request_def)
  with t show ?thesis using wf_port_of_bytes by blast
qed

text \<open>
  C29: \<open>readRequest\<close> succeeds exactly on the requests of RFC 1928 with a non-empty host: it
  returns the command, the network the address type stands for and \<open>host:port\<close>, and
  consumes just the request.
\<close>

theorem read_request_exact:
  "read_request c = (Inr (cmd, network, address), c') \<longleftrightarrow>
    (\<exists>t port rest. wf_target t \<and> wf_port port \<and> cin c = encode_request cmd t port @ rest \<and>
       network = target_network t \<and> address = join_host_port (target_host t) (show_int port) \<and>
       c' = c\<lparr>cin := rest\<rparr>)" (is "?lhs \<longleftrightarrow> ?rhs")
proof
  assume l: ?lhs
  then obtain t port where "wf_target t" "wf_port port" "cin c = encode_request cmd t port @ cin c'"
    using read_request_InrD by blast
  with l read_encode_request [OF this] show ?rhs
    by (intro exI [of _ t] exI [of _ port] exI [of _ "cin c'"]) auto
next
  assume ?rhs
  then show ?lhs by (auto simp: read_encode_request)
qed

lemma reply_bytes_ip:
  assumes "wf_ip a"
  shows "reply_bytes status (TCPAddr a port) = encode_request status (ip_target a) port"
    and "reply_bytes status (UDPAddr a port) = encode_request status (ip_target a) port"
proof -
  have "to4 a = None \<Longrightarrow> to16 a = Some a"
    using assms by (auto simp: wf_ip_def to16_def)
  then show "reply_bytes status (TCPAddr a port) = encode_request status (ip_target a) port"
    and "reply_bytes status (UDPAddr a port) = encode_request status (ip_target a) port"
    by (auto simp: reply_bytes_def encode_request_def ip_target_def split: option.splits)
qed

lemma reply_bytes_nil:
  "reply_bytes status NilAddr = encode_request status (V4 [0, 0, 0, 0]) 0"
  by (simp add: reply_bytes_def encode_request_def ipv4_zero_def)

text \<open>
  The address a request names reaches the dialer intact: \<open>net.SplitHostPort\<close> of the
  joined address gives the host and the port back, for every address and for every
  domain without brackets.
\<close>

lemma split_request_address:
  assumes "wf_target t" and "CHR ''['' \<notin> set (target_host t)" "CHR '']'' \<notin> set (target_host t)"
    and "0 \<le> port"
  shows "split_host_port (join_host_port (target_host t) (show_int port)) =
    Inr (target_host t, show_int port)"
  using assms by (intro split_join_host_port) (auto simp: show_int_def)

lemma split_request_ip:
  assumes "wf_ip a" and "0 \<le> port"
  shows "split_host_port (join_host_port (ip_string a) (show_int port)) = Inr (ip_string a, show_int port)"
  using assms ip_string_no_bracket [of a]
  by (intro split_join_host_port) (auto simp: show_int_def wf_ip_def)

text \<open>
  The reply \<open>writeReply\<close> sends for a bound IP address reads back, with the request
  reader, as the status, that address and that port.
\<close>

theorem reply_reads_back:
  assumes "wf_ip a" and "wf_port port"
  shows "read_request \<lparr>cin = reply_bytes status (TCPAddr a port) @ rest, cout = [], cfails = []\<rparr> =
    (Inr (status, target_network (ip_target a), join_host_port (ip_string a) (show_int port)),
     \<lparr>cin = rest, cout = [], cfails = []\<rparr>)"
  using read_encode_request [OF wf_ip_target [OF assms(1)] assms(2)]
  by (simp add: reply_bytes_ip [OF assms(1)] target_host_ip_target)

lemma reply_reads_back_witness:
  "fst (read_request \<lparr>cin = reply_bytes 0 (TCPAddr [127, 0, 0, 1] 1080), cout = [], cfails = []\<rparr>) =
    Inr (0, target_network (ip_target [127, 0, 0, 1]),
      join_host_port (ip_string [127, 0, 0, 1]) (show_int 1080))"
  using reply_reads_back [of "[127, 0, 0, 1]" 1080 0 "[]"] by (simp add: wf_ip_def wf_port_def)

end
