(* ===== verification/SocksServer.thy ===== *)
theory SocksServer
  imports SocksWire
begin

text \<open>
  One client of the SOCKS5 server, \<open>src/internal/socks5/server.go\<close>: \<open>handle\<close> up to the relaying of
  a connection or a UDP association, the address of the UDP relay, and forwarding one datagram.
  Deadlines make reads and writes fail, which a connection's state already says; the dialer and
  its optional interfaces are arguments.
\<close>

section \<open>Handling a client\<close>

datatype handled = Failed string | Relaying string string | Associated "string list"

text \<open>
  What the world answers: the dialer with the upstream's local address or an error, clearing the
  deadline, whether the dialer opens packet sockets, the client's local address, listening for
  datagrams, and opening a datagram socket per network.
\<close>

record handle_env =
  he_dial :: "string \<Rightarrow> string \<Rightarrow> net_addr result"
  he_clear :: "string option"
  he_packets :: bool
  he_local :: net_addr
  he_listen :: "string \<Rightarrow> ip \<Rightarrow> net_addr result"
  he_socket :: "string \<Rightarrow> string option"

definition handle_connect :: "handle_env \<Rightarrow> string \<Rightarrow> string \<Rightarrow> conn \<Rightarrow> handled \<times> conn" where
  "handle_connect env network address c =
     (case he_dial env network address of
        Inl e \<Rightarrow> (Failed (''connect to '' @ address @ '': '' @ e), snd (write_reply reply_general NilAddr c))
      | Inr upstream \<Rightarrow>
          (case write_reply reply_ok upstream c of
             (Inl e, c') \<Rightarrow> (Failed e, c')
           | (Inr _, c') \<Rightarrow>
               (case he_clear env of Some e \<Rightarrow> (Failed e, c') | None \<Rightarrow> (Relaying network address, c'))))"

text \<open>\<open>udpRelayAddress\<close>; an empty address is Go's \<open>nil\<close>.\<close>

definition udp_relay_address :: "net_addr \<Rightarrow> (string \<times> ip) result" where
  "udp_relay_address address =
     (case address of
        TCPAddr a port \<Rightarrow>
          if a = [] \<or> is_unspecified a
          then (if to4 a \<noteq> None \<or> a = [] then Inr (''udp4'', ipv4 127 0 0 1) else Inr (''udp6'', ipv6_loopback))
          else (case to4 a of
              Some v4 \<Rightarrow> Inr (''udp4'', v4)
            | None \<Rightarrow> Inr (''udp6'', case to16 a of Some v6 \<Rightarrow> v6 | None \<Rightarrow> []))
      | _ \<Rightarrow> Inl ''SOCKS5 client does not have a TCP local address'')"

fun open_sockets :: "handle_env \<Rightarrow> string list \<Rightarrow> string list result" where
  "open_sockets env [] = Inr []"
| "open_sockets env (n # ns) =
     (case he_socket env n of
        Some e \<Rightarrow>
          if n = ''udp4'' then Inl (''open VPN '' @ n @ '' datagram socket: '' @ e) else open_sockets env ns
      | None \<Rightarrow> map_sum id (\<lambda>opened. n # opened) (open_sockets env ns))"

text \<open>\<open>handleUDPAssociate\<close> up to the reply that names the relay.\<close>

definition handle_udp_associate :: "handle_env \<Rightarrow> conn \<Rightarrow> handled \<times> conn" where
  "handle_udp_associate env c =
     (let refuse = (\<lambda>e. (Failed e, snd (write_reply reply_general NilAddr c)))
      in if \<not> he_packets env then refuse ''active VPN session does not support UDP ASSOCIATE''
         else case udp_relay_address (he_local env) of
             Inl e \<Rightarrow> refuse e
           | Inr (network, a) \<Rightarrow>
               (case he_listen env network a of
                  Inl e \<Rightarrow> refuse (''listen for SOCKS5 UDP relay: '' @ e)
                | Inr relay \<Rightarrow>
                    (case open_sockets env [''udp4'', ''udp6''] of
                       Inl e \<Rightarrow> refuse e
                     | Inr opened \<Rightarrow>
                         if opened = [] then refuse ''VPN session does not provide a datagram socket''
                         else (case write_reply reply_ok relay c of
                             (Inl e, c') \<Rightarrow> (Failed e, c')
                           | (Inr _, c') \<Rightarrow> (Associated opened, c')))))"

text \<open>\<open>handle\<close>: besides the outcome, what was dialled.\<close>

definition handle ::
  "string \<Rightarrow> string \<Rightarrow> handle_env \<Rightarrow> conn \<Rightarrow> (string \<times> string) option \<times> handled \<times> conn" where
  "handle username password env c =
     (case negotiate username password c of
        (Inl e, c1) \<Rightarrow> (None, Failed e, c1)
      | (Inr _, c1) \<Rightarrow>
          (case read_request c1 of
             (Inl e, c2) \<Rightarrow> (None, Failed e, snd (write_reply reply_address NilAddr c2))
           | (Inr (command, network, address), c2) \<Rightarrow>
               if command = command_connect then (Some (network, address), handle_connect env network address c2)
               else if command = command_udp_associate then (None, handle_udp_associate env c2)
               else (None, Failed ''only SOCKS5 CONNECT and UDP ASSOCIATE are supported'',
                     snd (write_reply reply_command NilAddr c2))))"

section \<open>Forwarding a datagram\<close>

text \<open>
  What the world answers to one request: \<open>ResolveIPv4\<close> if the dialer has it, the state of the
  request's context once the socket is free, setting its deadline, and the write.
\<close>

record forward_env =
  fe_resolve :: "(string \<Rightarrow> ip list result) option"
  fe_context :: "string option"
  fe_deadline :: "string option"
  fe_write :: "string option"

datatype sent = Sent string bytes ip int

definition destination_ip :: "forward_env \<Rightarrow> string \<Rightarrow> ip result" where
  "destination_ip env host =
     (case parse_ip host of
        Some a \<Rightarrow> Inr a
      | None \<Rightarrow>
          (case fe_resolve env of
             None \<Rightarrow> Inl ''VPN session does not support UDP domain resolution''
           | Some resolve \<Rightarrow>
               (case resolve host of
                  Inl e \<Rightarrow> Inl (''resolve UDP destination '' @ host @ '': '' @ e)
                | Inr addresses \<Rightarrow>
                    (case addresses of
                       [] \<Rightarrow> Inl (''resolve UDP destination '' @ host @ '': no IPv4 address'')
                     | a # _ \<Rightarrow>
                         (case to4 a of
                            None \<Rightarrow> Inl (''resolve UDP destination '' @ host @ '': no IPv4 address'')
                          | Some v4 \<Rightarrow> Inr v4)))))"

definition socket_of :: "ip \<Rightarrow> string \<times> ip" where
  "socket_of a =
     (case to4 a of
        Some v4 \<Rightarrow> (''udp4'', v4)
      | None \<Rightarrow> (''udp6'', case to16 a of Some v6 \<Rightarrow> v6 | None \<Rightarrow> []))"

text \<open>The write, with its network, payload and destination, also when it fails.\<close>

definition forward_udp_request ::
  "forward_env \<Rightarrow> string list \<Rightarrow> bytes \<Rightarrow> unit result \<times> sent option" where
  "forward_udp_request env opened datagram =
     (case parse_udp_request datagram of
        Inl e \<Rightarrow> (Inl e, None)
      | Inr (host, port, payload) \<Rightarrow>
          (case destination_ip env host of
             Inl e \<Rightarrow> (Inl e, None)
           | Inr a \<Rightarrow>
               (case socket_of a of (network, to) \<Rightarrow>
                  if network \<notin> set opened
                  then (Inl (''VPN session does not support '' @ network @ '' datagrams''), None)
                  else case fe_context env of Some e \<Rightarrow> (Inl e, None)
                  | None \<Rightarrow>
                      (case fe_deadline env of Some e \<Rightarrow> (Inl e, None)
                       | None \<Rightarrow>
                           (case fe_write env of
                              Some e \<Rightarrow> (Inl (''write VPN UDP datagram to '' @
                                join_host_port (ip_string to) (show_int port) @ '': '' @ e),
                                Some (Sent network payload to port))
                            | None \<Rightarrow> (Inr (), Some (Sent network payload to port)))))))"

section \<open>Who gets a connection\<close>

lemma write_reply_cin [simp]: "cin (snd (write_reply s a c)) = cin c"
  by (simp add: write_reply_def)

lemma write_reply_D: "write_reply s a c = (r, c') \<Longrightarrow> cin c' = cin c"
  using write_reply_cin [of s a c] by simp

lemma handle_connect_cin: "cin (snd (handle_connect env network address c)) = cin c"
  by (auto simp: handle_connect_def split: sum.splits prod.splits option.splits dest: write_reply_D)

lemma handle_authentic:
  assumes "handle u p env c = (Some (network, address), r, c')"
  shows "\<exists>methods t port. cin c = encode_greeting methods @ (if u = [] then [] else encode_auth u p) @
      encode_request command_connect t port @ cin c' \<and>
    wanted_method u \<in> set methods \<and> wf_target t \<and> wf_port port \<and> network = target_network t \<and>
    address = join_host_port (target_host t) (show_int port) \<and>
    (\<forall>n a. r = Relaying n a \<longrightarrow> n = network \<and> a = address \<and> (\<exists>local. he_dial env n a = Inr local))"
proof -
  from assms obtain c1 c2 where n: "negotiate u p c = (Inr (), c1)"
    and rq: "read_request c1 = (Inr (command_connect, network, address), c2)"
    and h: "handle_connect env network address c2 = (r, c')"
    by (auto simp: handle_def split: prod.splits sum.splits if_splits)
  obtain methods where g: "cin c = encode_greeting methods @ (if u = [] then [] else encode_auth u p) @ cin c1"
    "wanted_method u \<in> set methods" using negotiate_only_authentic [OF n] by blast
  obtain t port where t: "wf_target t" "wf_port port" "cin c1 = encode_request command_connect t port @ cin c2"
    using read_request_InrD [OF rq] by blast
  have "network = target_network t \<and> address = join_host_port (target_host t) (show_int port)"
    using read_encode_request [OF t] rq by simp
  moreover have "cin c2 = cin c'" using handle_connect_cin [of env network address c2] h by simp
  moreover have "r = Relaying n a \<longrightarrow> n = network \<and> a = address \<and> (\<exists>local. he_dial env n a = Inr local)" for n a
    using h by (auto simp: handle_connect_def split: sum.splits prod.splits option.splits)
  ultimately show ?thesis using g t by auto
qed

text \<open>
  C2: The dialer is called only for a client that offered the configured method, sent exactly the
  configured credentials where there are any, and then a CONNECT request; and then for exactly
  the host and port of that request, on the network of its address type. What is relayed later is
  what the client sent after the request.
\<close>

theorem handle_dials_only_authentic:
  assumes "handle u p env c = (Some (network, address), r, c')"
  shows "\<exists>methods t port. cin c = encode_greeting methods @ (if u = [] then [] else encode_auth u p) @
      encode_request command_connect t port @ cin c' \<and>
    wanted_method u \<in> set methods \<and> wf_target t \<and> wf_port port \<and> network = target_network t \<and>
    address = join_host_port (target_host t) (show_int port) \<and>
    (\<forall>n a. r = Relaying n a \<longrightarrow> n = network \<and> a = address \<and> (\<exists>local. he_dial env n a = Inr local))"
  using assms by (rule handle_authentic)

text \<open>
  C30: A client that offers the configured method, authenticates and asks for a connection that the
  dialer can make is told so with the upstream's local address and is relayed from the byte after
  its request on; when the dialer fails it is sent the general failure and nothing else.
\<close>

theorem handle_serves:
  assumes c: "cin c = encode_greeting methods @ (if u = [] then [] else encode_auth u p) @
      encode_request command_connect t port @ rest"
    and ok: "wanted_method u \<in> set methods" "length methods < 256" "length u < 256" "length p < 256"
      "wf_target t" "wf_port port" "cfails c = []"
  defines "address \<equiv> join_host_port (target_host t) (show_int port)"
    and "greeted \<equiv> cout c @ [version, wanted_method u] @ (if u = [] then [] else [1, 0])"
  shows "handle u p env c = (Some (target_network t, address),
    (case he_dial env (target_network t) address of
       Inl e \<Rightarrow> (Failed (''connect to '' @ address @ '': '' @ e),
         c\<lparr>cin := rest, cout := greeted @ reply_bytes reply_general NilAddr\<rparr>)
     | Inr upstream \<Rightarrow>
         (case he_clear env of Some e \<Rightarrow> Failed e | None \<Rightarrow> Relaying (target_network t) address,
          c\<lparr>cin := rest, cout := greeted @ reply_bytes reply_ok upstream\<rparr>)))"
proof -
  define c1 where "c1 = c\<lparr>cin := encode_request command_connect t port @ rest, cout := greeted\<rparr>"
  have n: "negotiate u p c = (Inr (), c1)"
    unfolding c1_def greeted_def using negotiate_ok [of c methods u p] c ok by simp
  have "read_request c1 = (Inr (command_connect, target_network t, address), c1\<lparr>cin := rest\<rparr>)"
    unfolding address_def using ok by (intro read_encode_request) (simp_all add: c1_def)
  then show ?thesis
    using ok n
    by (simp add: handle_def handle_connect_def write_reply_def write_conn_ok c1_def
        split: sum.split option.split)
qed

section \<open>What a datagram becomes\<close>

text \<open>The address a request names: its own, or for a name that is none what the resolver says first.\<close>

fun named_ip :: "forward_env \<Rightarrow> target \<Rightarrow> ip option" where
  "named_ip env (V4 a) = Some a"
| "named_ip env (V6 a) = Some a"
| "named_ip env (Domain d) =
     (case parse_ip d of
        Some a \<Rightarrow> Some a
      | None \<Rightarrow> (case fe_resolve env of
          Some f \<Rightarrow> (case f d of Inr (a # _) \<Rightarrow> to4 a | _ \<Rightarrow> None) | None \<Rightarrow> None))"

lemma socket_of_to16:
  assumes "length a = 4 \<or> length a = 16"
  obtains b where "to16 a = Some b" "socket_of b = socket_of a"
proof -
  obtain b where b: "to16 a = Some b" using assms by (auto simp: to16_def)
  then have "socket_of b = socket_of a"
    using to4_of_to16 [OF b] to16_idem [OF b] b by (cases "to4 a") (simp_all add: socket_of_def)
  with b show thesis by (rule that)
qed

lemma destination_address:
  assumes "length b = 4 \<or> length b = 16" and "destination_ip env (ip_string b) = Inr a"
  shows "socket_of a = socket_of b"
proof -
  obtain c where "to16 b = Some c" "socket_of c = socket_of b" by (rule socket_of_to16 [OF assms(1)])
  then show ?thesis using assms(2) by (simp add: destination_ip_def parse_ip_ip_string [OF assms(1)])
qed

lemma destination_named:
  assumes "wf_target t" and "destination_ip env (target_host t) = Inr a"
  shows "\<exists>b. named_ip env t = Some b \<and> socket_of a = socket_of b"
  using assms
proof (cases t)
  case (Domain d)
  then show ?thesis
    using assms by (auto simp: destination_ip_def split: option.splits sum.splits list.splits)
qed (auto simp: destination_address)

lemma forward_sent:
  assumes "forward_udp_request env opened datagram = (r, Some (Sent network payload to port))"
  shows "\<exists>t b. wf_target t \<and> wf_port port \<and> datagram = encode_udp t port payload \<and>
    named_ip env t = Some b \<and> socket_of b = (network, to) \<and> network \<in> set opened"
proof -
  obtain host a where p: "parse_udp_request datagram = Inr (host, port, payload)"
    and d: "destination_ip env host = Inr a" and so: "socket_of a = (network, to)" "network \<in> set opened"
    using assms
    by (auto simp: forward_udp_request_def split: sum.splits prod.splits if_splits option.splits)
  from parse_udp_request_Inr [OF p] obtain t where t: "wf_target t" "wf_port port" "host = target_host t"
    "datagram = encode_udp t port payload" by auto
  obtain b where "named_ip env t = Some b" "socket_of a = socket_of b"
    using destination_named t d by blast
  then show ?thesis using t so by auto
qed

text \<open>
  A datagram that leaves through the VPN is the payload of a well-formed unfragmented request
  datagram, sent to the request's port and to the address it names (for a name, the first address
  the resolver gives), through the socket of that address's family, which is open; a datagram
  that is no such request is not sent.
\<close>

theorem forward_sends_request:
  assumes "forward_udp_request env opened datagram = (r, out)"
  shows "case out of
      None \<Rightarrow> \<exists>e. r = Inl e
    | Some (Sent network payload to port) \<Rightarrow>
        \<exists>t b. wf_target t \<and> wf_port port \<and> datagram = encode_udp t port payload \<and>
          named_ip env t = Some b \<and> socket_of b = (network, to) \<and> network \<in> set opened"
proof (cases out)
  case None
  then show ?thesis
    using assms by (auto simp: forward_udp_request_def split: sum.splits prod.splits if_splits option.splits)
next
  case (Some s)
  then show ?thesis using assms forward_sent by (cases s) auto
qed

section \<open>A sample client\<close>

definition sample_client :: conn where
  "sample_client = \<lparr>cin = encode_greeting [0, 2] @ encode_auth ''me'' ''pw'' @
     encode_request command_connect (Domain ''host'') 443 @ [9, 9], cout = [], cfails = []\<rparr>"

definition sample_handle_env :: handle_env where
  "sample_handle_env = \<lparr>he_dial = \<lambda>n a. if a = ''host:443'' then Inr (TCPAddr [10, 0, 0, 1] 5000) else Inl ''refused'',
     he_clear = None, he_packets = True, he_local = TCPAddr [127, 0, 0, 1] 1080,
     he_listen = \<lambda>n a. Inr (UDPAddr a 4000), he_socket = \<lambda>n. if n = ''udp6'' then Some ''no IPv6'' else None\<rparr>"

lemma sample_address: "join_host_port ''host'' (show_int 443) = ''host:443''"
  by (simp add: join_host_port_def show_int_def show_nat.simps digit_char_def char_of_def bit_0)

lemma sample_client_ok:
  "cin sample_client = encode_greeting [0, 2] @ (if ''me'' = [] then [] else encode_auth ''me'' ''pw'') @
     encode_request command_connect (Domain ''host'') 443 @ [9, 9]"
  "wanted_method ''me'' \<in> set [0, 2]" "cfails sample_client = []"
  by (simp_all add: sample_client_def wanted_method_def wire_simps)

lemma sample_handled:
  "handle ''me'' ''pw'' sample_handle_env sample_client =
    (Some (''tcp4'', ''host:443''), Relaying ''tcp4'' ''host:443'',
     sample_client\<lparr>cin := [9, 9], cout := [5, 2, 1, 0, 5, 0, 0, 1, 10, 0, 0, 1] @ port_bytes 5000\<rparr>)"
proof -
  define c1 where "c1 = sample_client\<lparr>cin := encode_request command_connect (Domain ''host'') 443 @ [9, 9],
      cout := [5, 2, 1, 0]\<rparr>"
  have n: "negotiate ''me'' ''pw'' sample_client = (Inr (), c1)"
    using negotiate_ok [OF sample_client_ok(1,2) _ _ _ sample_client_ok(3)]
    by (simp add: c1_def wanted_method_def wire_simps sample_client_def)
  have "wf_target (Domain ''host'')" "wf_port 443" by (simp_all add: wf_port_def)
  then have "read_request c1 = (Inr (command_connect, ''tcp4'', ''host:443''), c1\<lparr>cin := [9, 9]\<rparr>)"
    using read_encode_request [of "Domain ''host''" 443 c1 command_connect "[9, 9]"] sample_address
    by (simp add: c1_def)
  then show ?thesis
    using n by (simp add: handle_def handle_connect_def sample_handle_env_def write_reply_def write_conn_def
        c1_def sample_client_def reply_bytes_def to4_def wire_simps)
qed

theorem handle_dials_only_authentic_witness:
  "\<exists>methods t port. cin sample_client = encode_greeting methods @ encode_auth ''me'' ''pw'' @
     encode_request command_connect t port @ [9, 9] \<and> ''host:443'' = join_host_port (target_host t) (show_int port)"
  using handle_dials_only_authentic [OF sample_handled] by auto

theorem handle_serves_witness:
  "fst (snd (handle ''me'' ''pw'' (sample_handle_env\<lparr>he_dial := \<lambda>_ _. Inl ''down''\<rparr>) sample_client)) =
     Failed ''connect to host:443: down''"
  using handle_serves [OF sample_client_ok(1,2) _ _ _ _ _ sample_client_ok(3),
      of "sample_handle_env\<lparr>he_dial := \<lambda>_ _. Inl ''down''\<rparr>"]
  by (simp add: sample_address wf_port_def)

definition sample_forward_env :: forward_env where
  "sample_forward_env = \<lparr>fe_resolve = Some (\<lambda>_. Inr [[10, 0, 0, 7]]), fe_context = None, fe_deadline = None,
     fe_write = None\<rparr>"

theorem forward_sends_request_witness:
  "\<exists>t b. wf_target t \<and> encode_udp (Domain ''dns'') 53 [1, 2] = encode_udp t 53 [1, 2] \<and>
     named_ip sample_forward_env t = Some b \<and> socket_of b = (''udp4'', [10, 0, 0, 7])"
proof -
  have "parse_ip ''dns'' = None" by (simp add: parse_ip_def)
  moreover have "wf_target (Domain ''dns'')" "wf_port 53" by (simp_all add: wf_port_def)
  ultimately have "forward_udp_request sample_forward_env [''udp4''] (encode_udp (Domain ''dns'') 53 [1, 2]) =
      (Inr (), Some (Sent ''udp4'' [1, 2] [10, 0, 0, 7] 53))"
    by (simp add: forward_udp_request_def parse_encode_udp destination_ip_def sample_forward_env_def
        socket_of_def to4_def)
  from forward_sends_request [OF this] show ?thesis by auto
qed

end
