(* ===== verification/SocksUdp.thy ===== *)
theory SocksUdp
  imports SocksServer
begin

text \<open>
  A UDP association, the rest of \<open>handleUDPAssociate\<close> in \<open>src/internal/socks5/server.go\<close>: the
  reading goroutines, the loop with its channels, and the four workers that forward requests.
\<close>

section \<open>State\<close>

text \<open>A datagram read by a goroutine: from the relay socket, from an upstream socket, or its failure.\<close>

datatype packet = FromClient bytes net_addr | FromVpn bytes net_addr | ReadFailed string string

datatype association_result = Open | Ended "string option"

record association =
  as_packets :: "packet list"
  as_requests :: "bytes list"
  as_working :: "bytes list"
  as_client :: "net_addr option"
  as_result :: association_result
  as_received :: "packet list"
  as_sent :: "sent list"
  as_replies :: "(bytes \<times> net_addr) list"

definition request_capacity :: nat where "request_capacity = 64"
definition worker_count :: nat where "worker_count = 4"

definition new_association :: association where
  "new_association = \<lparr>as_packets = [], as_requests = [], as_working = [], as_client = None, as_result = Open,
     as_received = [], as_sent = [], as_replies = []\<rparr>"

section \<open>Operations\<close>

text \<open>A reader waits while the channel of \<open>length opened + 1\<close> places is full.\<close>

definition receive_packet :: "packet \<Rightarrow> association \<Rightarrow> association" where
  "receive_packet p a = a\<lparr>as_packets := as_packets a @ [p], as_received := as_received a @ [p]\<rparr>"

text \<open>One turn of the loop on a packet; \<open>written\<close> says whether the write to the client succeeds.\<close>

definition take_packet :: "bool \<Rightarrow> packet \<Rightarrow> association \<Rightarrow> association" where
  "take_packet written p a =
     (case p of
        ReadFailed source e \<Rightarrow>
          a\<lparr>as_result := Ended (Some (''read SOCKS5 UDP '' @ source @ '' datagram: '' @ e))\<rparr>
      | FromClient contents from \<Rightarrow>
          a\<lparr>as_client := Some from,
            as_requests := (if length (as_requests a) < request_capacity then as_requests a @ [contents]
                            else as_requests a)\<rparr>
      | FromVpn contents from \<Rightarrow>
          (case (marshal_udp_response from contents, as_client a) of
             (Inr response, Some client) \<Rightarrow>
               if written then a\<lparr>as_replies := as_replies a @ [(response, client)]\<rparr> else a
           | _ \<Rightarrow> a))"

definition take_request :: "association \<Rightarrow> association" where
  "take_request a = a\<lparr>as_requests := tl (as_requests a), as_working := as_working a @ [hd (as_requests a)]\<rparr>"

definition finish_request :: "forward_env \<Rightarrow> string list \<Rightarrow> bytes \<Rightarrow> association \<Rightarrow> association" where
  "finish_request env opened contents a =
     a\<lparr>as_working := remove1 contents (as_working a),
       as_sent := as_sent a @ (case snd (forward_udp_request env opened contents) of None \<Rightarrow> [] | Some s \<Rightarrow> [s])\<rparr>"

inductive association_step :: "string list \<Rightarrow> association \<Rightarrow> association \<Rightarrow> bool" for opened where
  receive: "length (as_packets a) < length opened + 1 \<Longrightarrow> association_step opened a (receive_packet p a)"
| packet: "as_result a = Open \<Longrightarrow> as_packets a = p # ps \<Longrightarrow>
    association_step opened a (take_packet written p (a\<lparr>as_packets := ps\<rparr>))"
| request: "as_result a = Open \<Longrightarrow> as_requests a \<noteq> [] \<Longrightarrow> length (as_working a) < worker_count \<Longrightarrow>
    association_step opened a (take_request a)"
| finished: "contents \<in> set (as_working a) \<Longrightarrow> (as_result a \<noteq> Open \<Longrightarrow> fe_context env \<noteq> None) \<Longrightarrow>
    association_step opened a (finish_request env opened contents a)"
| ended: "as_result a = Open \<Longrightarrow> association_step opened a (a\<lparr>as_result := Ended None\<rparr>)"

section \<open>What may pass\<close>

definition from_client :: "packet list \<Rightarrow> bytes \<Rightarrow> bool" where
  "from_client ps contents \<longleftrightarrow> (\<exists>from. FromClient contents from \<in> set ps)"

text \<open>What left through the VPN is what some request datagram asks for.\<close>

definition requested :: "string list \<Rightarrow> packet list \<Rightarrow> sent \<Rightarrow> bool" where
  "requested opened ps s \<longleftrightarrow> (case s of Sent network payload to port \<Rightarrow>
     \<exists>env t b. from_client ps (encode_udp t port payload) \<and> wf_target t \<and> wf_port port \<and>
       named_ip env t = Some b \<and> socket_of b = (network, to) \<and> network \<in> set opened)"

definition answered :: "packet list \<Rightarrow> bytes \<times> net_addr \<Rightarrow> bool" where
  "answered ps r \<longleftrightarrow>
     (\<exists>contents from. FromVpn contents from \<in> set ps \<and> marshal_udp_response from contents = Inr (fst r)) \<and>
     (\<exists>contents. FromClient contents (snd r) \<in> set ps)"

definition association_ok :: "string list \<Rightarrow> association \<Rightarrow> bool" where
  "association_ok opened a \<longleftrightarrow>
     length (as_packets a) \<le> length opened + 1 \<and> length (as_requests a) \<le> request_capacity \<and>
     length (as_working a) \<le> worker_count \<and> set (as_packets a) \<subseteq> set (as_received a) \<and>
     (\<forall>d \<in> set (as_requests a) \<union> set (as_working a). from_client (as_received a) d) \<and>
     (\<forall>c. as_client a = Some c \<longrightarrow> (\<exists>d. FromClient d c \<in> set (as_received a))) \<and>
     (\<forall>s \<in> set (as_sent a). requested opened (as_received a) s) \<and>
     (\<forall>r \<in> set (as_replies a). answered (as_received a) r)"

lemma requested_mono: "set ps \<subseteq> set qs \<Longrightarrow> requested opened ps s \<Longrightarrow> requested opened qs s"
  by (cases s) (fastforce simp: requested_def from_client_def)

lemma answered_mono: "set ps \<subseteq> set qs \<Longrightarrow> answered ps r \<Longrightarrow> answered qs r"
  by (fastforce simp: answered_def)

lemma forward_requested:
  assumes "snd (forward_udp_request env opened d) = Some s" and "from_client ps d"
  shows "requested opened ps s"
proof -
  obtain network payload to port where s: "s = Sent network payload to port" by (cases s)
  obtain r where "forward_udp_request env opened d = (r, Some s)" using assms(1) by (metis prod.collapse)
  from forward_sent [OF this [unfolded s]] show ?thesis
    using assms(2) unfolding s requested_def by auto
qed

lemma association_step_ok: "association_step opened a a' \<Longrightarrow> association_ok opened a \<Longrightarrow> association_ok opened a'"
proof (induction rule: association_step.induct)
  case (receive a p)
  have m: "set (as_received a) \<subseteq> set (as_received (receive_packet p a))" by (auto simp: receive_packet_def)
  show ?case
    using receive requested_mono [OF m] answered_mono [OF m]
    by (auto simp: association_ok_def receive_packet_def from_client_def)
next
  case (packet a p ps written)
  then show ?case
    by (auto simp: association_ok_def take_packet_def from_client_def answered_def split: packet.split sum.split option.split)
next
  case (request a)
  then show ?case by (cases "as_requests a") (auto simp: association_ok_def take_request_def)
next
  case (finished contents a env)
  have "requested opened (as_received a) s" if "snd (forward_udp_request env opened contents) = Some s" for s
    using forward_requested [OF that] finished by (auto simp: association_ok_def)
  with finished show ?case
    by (auto simp: association_ok_def finish_request_def length_remove1 split: option.splits dest: notin_set_remove1 set_remove1_subset [THEN subsetD])
next
  case (ended a)
  then show ?case by (auto simp: association_ok_def)
qed

interpretation associating: step_invariant "association_step opened" "association_ok opened" for opened
  by unfold_locales (rule association_step_ok)

lemma association_reachable_ok: "(association_step opened)\<^sup>*\<^sup>* new_association a \<Longrightarrow> association_ok opened a"
  by (erule associating.ok_reachable) (simp add: association_ok_def new_association_def)

text \<open>
  C15: However readers, loop and workers are interleaved, an association keeps at most 64 requests
  waiting and four under way; every datagram it sent into the VPN is the payload of a well-formed
  request read from the relay socket, to the address and port that names, over an open socket of
  that family; and everything it wrote to the relay socket is the encoding of a datagram read
  from the VPN with its sender's address, and went to an address a request came from.
\<close>

theorem association_relays_only_requests:
  assumes "(association_step opened)\<^sup>*\<^sup>* new_association a"
  shows "length (as_requests a) \<le> 64 \<and> length (as_working a) \<le> 4 \<and>
    (\<forall>network payload to port. Sent network payload to port \<in> set (as_sent a) \<longrightarrow>
      (\<exists>env t b from. FromClient (encode_udp t port payload) from \<in> set (as_received a) \<and> wf_target t \<and>
        wf_port port \<and> named_ip env t = Some b \<and> socket_of b = (network, to) \<and> network \<in> set opened)) \<and>
    (\<forall>response client. (response, client) \<in> set (as_replies a) \<longrightarrow>
      (\<exists>contents from. FromVpn contents from \<in> set (as_received a) \<and>
        marshal_udp_response from contents = Inr response) \<and>
      (\<exists>request. FromClient request client \<in> set (as_received a)))"
proof -
  have ok: "association_ok opened a" by (rule association_reachable_ok [OF assms])
  have "requested opened (as_received a) (Sent network payload to port)"
    if "Sent network payload to port \<in> set (as_sent a)" for network payload to port
    using ok that by (auto simp: association_ok_def)
  moreover have "answered (as_received a) (response, client)"
    if "(response, client) \<in> set (as_replies a)" for response client
    using ok that by (auto simp: association_ok_def)
  ultimately show ?thesis
    using ok
    by (auto simp: association_ok_def request_capacity_def worker_count_def requested_def answered_def from_client_def)
qed

text \<open>
  The relay socket takes datagrams from anyone: after one from a stranger's address, whatever that
  one sent, the next datagram from the VPN is written to the stranger.
\<close>

lemma stranger_takes_over:
  assumes "as_result a = Open" "as_packets a = []" "opened \<noteq> []"
    and "marshal_udp_response from contents = Inr response"
  shows "\<exists>a'. (association_step opened)\<^sup>*\<^sup>* a a' \<and> as_result a' = Open \<and>
    as_replies a' = as_replies a @ [(response, stranger)]"
proof -
  let ?p = "FromClient junk stranger" and ?q = "FromVpn contents from"
  let ?a1 = "receive_packet ?p a"
  let ?a2 = "receive_packet ?q ?a1"
  let ?a3 = "take_packet True ?p (?a2\<lparr>as_packets := [?q]\<rparr>)"
  let ?a4 = "take_packet True ?q (?a3\<lparr>as_packets := []\<rparr>)"
  have "association_step opened a ?a1" using assms by (intro association_step.receive) simp
  moreover have "association_step opened ?a1 ?a2"
    using assms by (intro association_step.receive) (simp add: receive_packet_def Suc_le_eq)
  moreover have "association_step opened ?a2 ?a3"
    using assms by (intro association_step.packet) (simp_all add: receive_packet_def)
  moreover have "association_step opened ?a3 ?a4"
    using assms by (intro association_step.packet) (simp_all add: receive_packet_def take_packet_def)
  moreover have "as_result ?a4 = Open \<and> as_replies ?a4 = as_replies a @ [(response, stranger)]"
    using assms by (simp add: take_packet_def receive_packet_def)
  ultimately show ?thesis by (meson converse_rtranclp_into_rtranclp rtranclp.rtrancl_refl)
qed

theorem association_relays_only_requests_witness:
  "\<exists>a. (association_step [''udp4''])\<^sup>*\<^sup>* new_association a \<and>
    (\<exists>request. FromClient request (UDPAddr [10, 0, 0, 9] 7) \<in> set (as_received a))"
proof -
  obtain a where a: "(association_step [''udp4''])\<^sup>*\<^sup>* new_association a"
    "as_replies a = [([0, 0, 0, 1, 8, 8, 8, 8] @ port_bytes 53 @ [1], UDPAddr [10, 0, 0, 9] 7)]"
    using stranger_takes_over [of new_association "[''udp4'']" "UDPAddr [8, 8, 8, 8] 53" "[1]"
        "[0, 0, 0, 1, 8, 8, 8, 8] @ port_bytes 53 @ [1]" "UDPAddr [10, 0, 0, 9] 7"]
    by (auto simp: new_association_def marshal_udp_response_def to4_def address_ipv4_def)
  then show ?thesis using association_relays_only_requests [OF a(1)] by auto
qed

end
