(* ===== verification/SocksRelay.thy ===== *)
theory SocksRelay
  imports Prelude "HOL-Library.Sublist"
begin

text \<open>
  The relay of a connection, \<open>relayTCP\<close> in \<open>src/internal/socks5/relay.go\<close>: two goroutines that copy
  a direction each and the loop that waits for them, the timers and the context. Times are
  nanoseconds since the relay started.
\<close>

section \<open>State\<close>

text \<open>One direction: what was read from the source and what the destination took.\<close>

datatype copy_state = Copying | Finished "string option" | Collected "string option"

record direction =
  cp_read :: bytes
  cp_written :: bytes
  cp_closed :: bool
  cp_state :: copy_state

datatype relay_result = Running | Returned "string option"

record relay =
  rl_now :: int
  rl_last :: int
  rl_up :: direction
  rl_down :: direction
  rl_completed :: nat
  rl_idle :: int
  rl_half :: "int option"
  rl_result :: relay_result
  rl_cancelled :: bool

definition new_direction :: direction where
  "new_direction = \<lparr>cp_read = [], cp_written = [], cp_closed = False, cp_state = Copying\<rparr>"

definition new_relay :: "int \<Rightarrow> relay" where
  "new_relay idle_timeout = \<lparr>rl_now = 0, rl_last = 0, rl_up = new_direction, rl_down = new_direction,
     rl_completed = 0, rl_idle = idle_timeout, rl_half = None, rl_result = Running, rl_cancelled = False\<rparr>"

section \<open>The copying goroutines\<close>

text \<open>
  One round of \<open>io.Copy\<close>: a chunk is read and the destination takes \<open>n\<close> bytes of it, which
  \<open>activityWriter\<close> notes; a short write or an error ends the copy.
\<close>

definition copy_chunk :: "bytes \<Rightarrow> nat \<Rightarrow> string option \<Rightarrow> direction \<Rightarrow> direction" where
  "copy_chunk chunk n err d =
     d\<lparr>cp_read := cp_read d @ chunk, cp_written := cp_written d @ take n chunk,
       cp_state := (case err of Some e \<Rightarrow> Finished (Some e)
         | None \<Rightarrow> if n < length chunk then Finished (Some ''short write'') else Copying)\<rparr>"

definition note_activity :: "nat \<Rightarrow> bytes \<Rightarrow> relay \<Rightarrow> relay" where
  "note_activity n chunk r = (if take n chunk \<noteq> [] then r\<lparr>rl_last := rl_now r\<rparr> else r)"

text \<open>
  The end of the source: the destination's write half is closed if it has one; \<open>closed\<close> is the
  outcome of \<open>CloseWrite\<close> where there is one.
\<close>

definition copy_end :: "string option option \<Rightarrow> direction \<Rightarrow> direction" where
  "copy_end closed d =
     (case closed of
        None \<Rightarrow> d\<lparr>cp_state := Finished None\<rparr>
      | Some None \<Rightarrow> d\<lparr>cp_state := Finished None, cp_closed := True\<rparr>
      | Some (Some e) \<Rightarrow> d\<lparr>cp_state := Finished (Some e)\<rparr>)"

definition copy_failed :: "string \<Rightarrow> direction \<Rightarrow> direction" where
  "copy_failed e d = d\<lparr>cp_state := Finished (Some e)\<rparr>"

section \<open>The loop\<close>

definition collect :: "int \<Rightarrow> string option \<Rightarrow> relay \<Rightarrow> relay" where
  "collect half_timeout err r =
     (let r1 = r\<lparr>rl_completed := rl_completed r + 1\<rparr>
      in case err of
          Some e \<Rightarrow> r1\<lparr>rl_result := Returned (Some (''relay TCP: '' @ e))\<rparr>
        | None \<Rightarrow>
            if rl_completed r1 = 1
            then r1\<lparr>rl_last := rl_now r, rl_half := Some (rl_now r + half_timeout)\<rparr>
            else r1\<lparr>rl_result := Returned None\<rparr>)"

definition half_fired :: "int \<Rightarrow> relay \<Rightarrow> relay" where
  "half_fired half_timeout r =
     (let remaining = half_timeout - (rl_now r - rl_last r)
      in if remaining \<le> 0 then r\<lparr>rl_result := Returned (Some ''TCP half-close timeout'')\<rparr>
         else r\<lparr>rl_half := Some (rl_now r + remaining)\<rparr>)"

definition idle_fired :: "int \<Rightarrow> relay \<Rightarrow> relay" where
  "idle_fired idle_timeout r =
     (let remaining = idle_timeout - (rl_now r - rl_last r)
      in if remaining \<le> 0 then r\<lparr>rl_result := Returned (Some ''TCP idle timeout'')\<rparr>
         else r\<lparr>rl_idle := rl_now r + remaining\<rparr>)"

inductive relay_step :: "int \<Rightarrow> int \<Rightarrow> relay \<Rightarrow> relay \<Rightarrow> bool" for idle half where
  tick: "rl_now r \<le> t \<Longrightarrow> relay_step idle half r (r\<lparr>rl_now := t\<rparr>)"
| chunk_up: "cp_state (rl_up r) = Copying \<Longrightarrow>
    relay_step idle half r (note_activity n chunk (r\<lparr>rl_up := copy_chunk chunk n err (rl_up r)\<rparr>))"
| chunk_down: "cp_state (rl_down r) = Copying \<Longrightarrow>
    relay_step idle half r (note_activity n chunk (r\<lparr>rl_down := copy_chunk chunk n err (rl_down r)\<rparr>))"
| end_up: "cp_state (rl_up r) = Copying \<Longrightarrow> relay_step idle half r (r\<lparr>rl_up := copy_end closed (rl_up r)\<rparr>)"
| end_down: "cp_state (rl_down r) = Copying \<Longrightarrow> relay_step idle half r (r\<lparr>rl_down := copy_end closed (rl_down r)\<rparr>)"
| fail_up: "cp_state (rl_up r) = Copying \<Longrightarrow> relay_step idle half r (r\<lparr>rl_up := copy_failed e (rl_up r)\<rparr>)"
| fail_down: "cp_state (rl_down r) = Copying \<Longrightarrow> relay_step idle half r (r\<lparr>rl_down := copy_failed e (rl_down r)\<rparr>)"
| collect_up: "rl_result r = Running \<Longrightarrow> cp_state (rl_up r) = Finished err \<Longrightarrow>
    relay_step idle half r (collect half err (r\<lparr>rl_up := (rl_up r)\<lparr>cp_state := Collected err\<rparr>\<rparr>))"
| collect_down: "rl_result r = Running \<Longrightarrow> cp_state (rl_down r) = Finished err \<Longrightarrow>
    relay_step idle half r (collect half err (r\<lparr>rl_down := (rl_down r)\<lparr>cp_state := Collected err\<rparr>\<rparr>))"
| cancelled: "rl_result r = Running \<Longrightarrow>
    relay_step idle half r (r\<lparr>rl_result := Returned None, rl_cancelled := True\<rparr>)"
| half_timer: "rl_result r = Running \<Longrightarrow> rl_half r = Some t \<Longrightarrow> t \<le> rl_now r \<Longrightarrow>
    relay_step idle half r (half_fired half r)"
| idle_timer: "rl_result r = Running \<Longrightarrow> rl_idle r \<le> rl_now r \<Longrightarrow>
    relay_step idle half r (idle_fired idle r)"

inductive_cases relay_stepE: "relay_step idle half r r'"

lemmas relay_defs =
  copy_chunk_def note_activity_def copy_end_def copy_failed_def collect_def half_fired_def idle_fired_def

section \<open>Nothing is lost, changed or reordered\<close>

text \<open>A direction is faithful; while it copies or once it has ended well it has delivered everything.\<close>

definition faithful :: "direction \<Rightarrow> bool" where
  "faithful d \<longleftrightarrow> prefix (cp_written d) (cp_read d) \<and> (cp_state d = Copying \<longrightarrow> \<not> cp_closed d) \<and>
     (cp_state d \<in> {Copying, Finished None, Collected None} \<or> cp_closed d \<longrightarrow> cp_written d = cp_read d)"

lemma faithful_step:
  "faithful d \<Longrightarrow> cp_state d = Copying \<Longrightarrow> faithful (copy_chunk chunk n err d)"
  "faithful d \<Longrightarrow> cp_state d = Copying \<Longrightarrow> faithful (copy_end closed d)"
  "faithful d \<Longrightarrow> cp_state d = Copying \<Longrightarrow> faithful (copy_failed e d)"
  "faithful d \<Longrightarrow> cp_state d = Finished err \<Longrightarrow> faithful (d\<lparr>cp_state := Collected err\<rparr>)"
  by (auto simp: faithful_def relay_defs take_is_prefix split: option.splits)

definition collected :: "direction \<Rightarrow> nat" where
  "collected d = (case cp_state d of Collected _ \<Rightarrow> 1 | _ \<Rightarrow> 0)"

text \<open>
  The invariant of the loop: what was collected while it runs ended well, and the timers are set
  to fire no later than the timeouts after the last activity.
\<close>

definition relay_ok :: "int \<Rightarrow> int \<Rightarrow> relay \<Rightarrow> bool" where
  "relay_ok idle half r \<longleftrightarrow> faithful (rl_up r) \<and> faithful (rl_down r) \<and> rl_last r \<le> rl_now r \<and>
     (rl_result r = Running \<longrightarrow>
        rl_completed r = collected (rl_up r) + collected (rl_down r) \<and> rl_completed r < 2 \<and>
        (\<forall>d e. d \<in> {rl_up r, rl_down r} \<longrightarrow> cp_state d \<noteq> Collected (Some e)) \<and>
        rl_idle r \<le> rl_last r + idle \<and>
        (rl_half r \<noteq> None \<longleftrightarrow> rl_completed r = 1) \<and> (\<forall>t. rl_half r = Some t \<longrightarrow> t \<le> rl_last r + half)) \<and>
     (rl_result r = Returned None \<and> \<not> rl_cancelled r \<longrightarrow>
        cp_state (rl_up r) = Collected None \<and> cp_state (rl_down r) = Collected None)"

lemma copying_uncollected: "cp_state d = Copying \<Longrightarrow> collected d = 0"
  by (simp add: collected_def)

lemma copy_collected [simp]:
  "collected (copy_chunk chunk n err d) = 0" "collected (copy_end closed d) = 0" "collected (copy_failed e d) = 0"
  by (simp_all add: collected_def relay_defs split: option.split)

lemma copy_not_collected [simp]:
  "cp_state (copy_chunk chunk n err d) \<noteq> Collected x" "cp_state (copy_end closed d) \<noteq> Collected x"
  "cp_state (copy_failed e d) \<noteq> Collected x"
  by (simp_all add: relay_defs split: option.split)

lemma relay_ok_new: "0 \<le> idle \<Longrightarrow> relay_ok idle half (new_relay idle)"
  by (simp add: relay_ok_def new_relay_def new_direction_def faithful_def collected_def)

lemma relay_step_ok: "relay_step idle half r r' \<Longrightarrow> relay_ok idle half r \<Longrightarrow> relay_ok idle half r'"
proof (induction rule: relay_step.induct)
  case (tick r t)
  then show ?case by (auto simp: relay_ok_def)
next
  case (chunk_up r n chunk err)
  then show ?case by (auto simp: relay_ok_def note_activity_def faithful_step copying_uncollected)
next
  case (chunk_down r n chunk err)
  then show ?case by (auto simp: relay_ok_def note_activity_def faithful_step copying_uncollected)
next
  case (end_up r closed)
  then show ?case by (auto simp: relay_ok_def faithful_step copying_uncollected)
next
  case (end_down r closed)
  then show ?case by (auto simp: relay_ok_def faithful_step copying_uncollected)
next
  case (fail_up r e)
  then show ?case by (auto simp: relay_ok_def faithful_step copying_uncollected)
next
  case (fail_down r e)
  then show ?case by (auto simp: relay_ok_def faithful_step copying_uncollected)
next
  case (collect_up r err)
  then show ?case
    by (cases err) (auto simp: relay_ok_def collect_def Let_def faithful_step collected_def split: copy_state.splits)
next
  case (collect_down r err)
  then show ?case
    by (cases err) (auto simp: relay_ok_def collect_def Let_def faithful_step collected_def split: copy_state.splits)
next
  case (cancelled r)
  then show ?case by (auto simp: relay_ok_def)
next
  case (half_timer r t)
  then show ?case by (auto simp: relay_ok_def half_fired_def Let_def)
next
  case (idle_timer r)
  then show ?case by (auto simp: relay_ok_def idle_fired_def Let_def)
qed

interpretation relaying: step_invariant "relay_step idle half" "relay_ok idle half" for idle half
  by unfold_locales (rule relay_step_ok)

lemma relay_reachable_ok:
  "(relay_step idle half)\<^sup>*\<^sup>* (new_relay idle) r \<Longrightarrow> 0 \<le> idle \<Longrightarrow> relay_ok idle half r"
  using relaying.ok_reachable relay_ok_new by blast

text \<open>
  C10: Along every run of the relay, whatever the sockets, the timers and the scheduler do, each side
  has been given a prefix of what the other sent, unchanged and in order; its write half is closed
  only when it was given everything; and when the relay returns without an error and was not
  cancelled, both directions were delivered completely.
\<close>

theorem relay_faithful:
  assumes "(relay_step idle half)\<^sup>*\<^sup>* (new_relay idle) r" and "0 \<le> idle"
  shows "\<forall>d \<in> {rl_up r, rl_down r}. prefix (cp_written d) (cp_read d) \<and>
    (cp_closed d \<or> rl_result r = Returned None \<and> \<not> rl_cancelled r \<longrightarrow> cp_written d = cp_read d)"
  using relay_reachable_ok [OF assms] by (auto simp: relay_ok_def faithful_def)

section \<open>The timeouts\<close>

lemma relay_timeout_facts:
  assumes "(relay_step idle half)\<^sup>*\<^sup>* (new_relay idle) r" and "0 \<le> idle" and run: "rl_result r = Running"
  shows "\<forall>r' e. relay_step idle half r r' \<and> rl_result r' = Returned (Some e) \<longrightarrow>
      idle \<le> rl_now r - rl_last r \<or> rl_completed r = 1 \<and> half \<le> rl_now r - rl_last r \<or>
      (\<exists>d \<in> {rl_up r, rl_down r}. \<exists>c. cp_state d = Finished (Some c) \<and> e = ''relay TCP: '' @ c)"
    and "idle \<le> rl_now r - rl_last r \<Longrightarrow>
      \<exists>r'. relay_step idle half r r' \<and> rl_result r' = Returned (Some ''TCP idle timeout'')"
    and "rl_completed r = 1 \<Longrightarrow> half \<le> rl_now r - rl_last r \<Longrightarrow>
      \<exists>r'. relay_step idle half r r' \<and> rl_result r' = Returned (Some ''TCP half-close timeout'')"
proof -
  have ok: "rl_idle r \<le> rl_last r + idle" "rl_half r \<noteq> None \<longleftrightarrow> rl_completed r = 1"
    "rl_half r = Some t \<Longrightarrow> t \<le> rl_last r + half" for t
    using relay_reachable_ok [OF assms(1,2)] run by (auto simp: relay_ok_def)
  show "\<forall>r' e. relay_step idle half r r' \<and> rl_result r' = Returned (Some e) \<longrightarrow>
      idle \<le> rl_now r - rl_last r \<or> rl_completed r = 1 \<and> half \<le> rl_now r - rl_last r \<or>
      (\<exists>d \<in> {rl_up r, rl_down r}. \<exists>c. cp_state d = Finished (Some c) \<and> e = ''relay TCP: '' @ c)"
    using run ok(2) by (auto elim!: relay_stepE simp: relay_defs Let_def split: if_splits option.splits)
  show "\<exists>r'. relay_step idle half r r' \<and> rl_result r' = Returned (Some ''TCP idle timeout'')"
    if "idle \<le> rl_now r - rl_last r"
    using that ok(1) run by (intro exI [of _ "idle_fired idle r"] conjI relay_step.idle_timer)
      (auto simp: idle_fired_def Let_def)
  show "\<exists>r'. relay_step idle half r r' \<and> rl_result r' = Returned (Some ''TCP half-close timeout'')"
    if c: "rl_completed r = 1" "half \<le> rl_now r - rl_last r"
  proof -
    obtain t where t: "rl_half r = Some t" using ok(2) c(1) by auto
    then show ?thesis
      using ok(3) [OF t] c(2) run by (intro exI [of _ "half_fired half r"] conjI relay_step.half_timer [OF run t])
        (auto simp: half_fired_def Let_def)
  qed
qed


section \<open>A sample connection\<close>

text \<open>The client sends two bytes and finishes; nothing comes back for eight units.\<close>

definition sample_relay :: relay where
  "sample_relay = (new_relay 10)\<lparr>rl_now := 8, rl_completed := 1, rl_half := Some 3,
     rl_up := \<lparr>cp_read = [1, 2], cp_written = [1, 2], cp_closed = True, cp_state = Collected None\<rparr>\<rparr>"

lemma sample_relay_reached: "(relay_step 10 3)\<^sup>*\<^sup>* (new_relay 10) sample_relay"
proof -
  define r1 where "r1 = (new_relay 10)\<lparr>rl_up := \<lparr>cp_read = [1, 2], cp_written = [1, 2], cp_closed = False, cp_state = Copying\<rparr>\<rparr>"
  define r2 where "r2 = r1\<lparr>rl_up := \<lparr>cp_read = [1, 2], cp_written = [1, 2], cp_closed = True, cp_state = Finished None\<rparr>\<rparr>"
  define r3 where "r3 = sample_relay\<lparr>rl_now := 0\<rparr>"
  have "r1 = note_activity 2 [1, 2] ((new_relay 10)\<lparr>rl_up := copy_chunk [1, 2] 2 None (rl_up (new_relay 10))\<rparr>)"
    by (simp add: r1_def note_activity_def copy_chunk_def new_relay_def new_direction_def)
  then have s1: "relay_step 10 3 (new_relay 10) r1"
    using relay_step.chunk_up [of "new_relay 10" 10 3 2 "[1, 2]" None] by (simp add: new_relay_def new_direction_def)
  have "r2 = r1\<lparr>rl_up := copy_end (Some None) (rl_up r1)\<rparr>" by (simp add: r1_def r2_def copy_end_def)
  then have s2: "relay_step 10 3 r1 r2"
    using relay_step.end_up [of r1 10 3 "Some None"] by (simp add: r1_def)
  have "r3 = collect 3 None (r2\<lparr>rl_up := (rl_up r2)\<lparr>cp_state := Collected None\<rparr>\<rparr>)"
    by (simp add: r1_def r2_def r3_def sample_relay_def collect_def new_relay_def)
  then have s3: "relay_step 10 3 r2 r3"
    using relay_step.collect_up [of r2 None 10 3] by (simp add: r1_def r2_def new_relay_def)
  have "sample_relay = r3\<lparr>rl_now := 8\<rparr>" by (simp add: r3_def sample_relay_def)
  then have s4: "relay_step 10 3 r3 sample_relay"
    using relay_step.tick [of r3 8 10 3] by (simp add: r3_def)
  from s1 s2 s3 s4 show ?thesis by (blast intro: converse_rtranclp_into_rtranclp r_into_rtranclp)
qed

theorem relay_faithful_witness: "cp_written (rl_up sample_relay) = cp_read (rl_up sample_relay)"
  using relay_faithful [OF sample_relay_reached] by (simp add: sample_relay_def)


end
