(* ===== verification/SocksServe.thy ===== *)
theory SocksServe
  imports Prelude
begin

text \<open>
  The accept loop of the SOCKS5 server, \<open>Serve\<close> in \<open>src/internal/socks5/server.go\<close>, with the
  goroutine that watches the context and a goroutine per client. Connections are numbered as they
  are accepted.
\<close>

section \<open>State\<close>

text \<open>
  The loop accepts, has accepted a connection it is about to register, is leaving with a result,
  waits for the handlers, or has returned.
\<close>

datatype serve_phase = Accepting | Registering nat | Leaving "string option" | Waiting "string option" | Left "string option"

record serve =
  se_phase :: serve_phase
  se_listening :: bool
  se_cancelled :: bool
  se_watching :: bool
  se_tracked :: "nat set"
  se_open :: "nat set"
  se_handling :: "nat set"
  se_next :: nat

definition new_serve :: serve where
  "new_serve = \<lparr>se_phase = Accepting, se_listening = True, se_cancelled = False, se_watching = True,
     se_tracked = {}, se_open = {}, se_handling = {}, se_next = 0\<rparr>"

section \<open>Operations\<close>

definition close_connections :: "serve \<Rightarrow> serve" where
  "close_connections s = s\<lparr>se_open := se_open s - se_tracked s\<rparr>"

definition accept :: "serve \<Rightarrow> serve" where
  "accept s = s\<lparr>se_phase := Registering (se_next s), se_open := insert (se_next s) (se_open s),
     se_next := Suc (se_next s)\<rparr>"

text \<open>An error of \<open>Accept\<close>: a cancelled context or a closed listener is a normal end.\<close>

definition accept_failed :: "bool \<Rightarrow> string \<Rightarrow> serve \<Rightarrow> serve" where
  "accept_failed closed e s = s\<lparr>se_phase := Leaving
     (if se_cancelled s \<or> closed then None else Some (''accept SOCKS5 connection: '' @ e))\<rparr>"

definition register :: "nat \<Rightarrow> serve \<Rightarrow> serve" where
  "register n s = s\<lparr>se_phase := Accepting, se_tracked := insert n (se_tracked s),
     se_handling := insert n (se_handling s)\<rparr>"

text \<open>The watcher once the context has ended.\<close>

definition watch :: "serve \<Rightarrow> serve" where
  "watch s = close_connections (s\<lparr>se_watching := False, se_listening := False\<rparr>)"

text \<open>The deferred cleanup before it waits for the handlers.\<close>

definition leave :: "string option \<Rightarrow> serve \<Rightarrow> serve" where
  "leave result s = close_connections (s\<lparr>se_phase := Waiting result, se_listening := False, se_watching := False\<rparr>)"

text \<open>The end of a handler: the connection is closed and forgotten.\<close>

definition handler_done :: "nat \<Rightarrow> serve \<Rightarrow> serve" where
  "handler_done n s = s\<lparr>se_open := se_open s - {n}, se_tracked := se_tracked s - {n},
     se_handling := se_handling s - {n}\<rparr>"

inductive serve_step :: "serve \<Rightarrow> serve \<Rightarrow> bool" where
  accepted: "se_phase s = Accepting \<Longrightarrow> se_listening s \<Longrightarrow> serve_step s (accept s)"
| registered: "se_phase s = Registering n \<Longrightarrow> serve_step s (register n s)"
| failed: "se_phase s = Accepting \<Longrightarrow> (closed \<longleftrightarrow> \<not> se_listening s) \<Longrightarrow> serve_step s (accept_failed closed e s)"
| cancelled: "serve_step s (s\<lparr>se_cancelled := True\<rparr>)"
| watched: "se_cancelled s \<Longrightarrow> se_watching s \<Longrightarrow> serve_step s (watch s)"
| leaving: "se_phase s = Leaving result \<Longrightarrow> serve_step s (leave result s)"
| handled: "n \<in> se_handling s \<Longrightarrow> serve_step s (handler_done n s)"
| returned: "se_phase s = Waiting result \<Longrightarrow> se_handling s = {} \<Longrightarrow> serve_step s (s\<lparr>se_phase := Left result\<rparr>)"

section \<open>Nothing is left open\<close>

definition registering :: "serve \<Rightarrow> nat set" where
  "registering s = (case se_phase s of Registering n \<Rightarrow> {n} | _ \<Rightarrow> {})"

definition serve_ok :: "serve \<Rightarrow> bool" where
  "serve_ok s \<longleftrightarrow> se_tracked s = se_handling s \<and> se_open s \<subseteq> se_handling s \<union> registering s \<and>
     (\<forall>n \<in> se_handling s \<union> registering s. n < se_next s) \<and> registering s \<inter> se_handling s = {} \<and>
     (\<forall>r. se_phase s \<in> {Waiting r, Left r} \<longrightarrow> se_open s = {} \<and> \<not> se_listening s) \<and>
     (\<forall>r. se_phase s = Left r \<longrightarrow> se_handling s = {}) \<and>
     (\<forall>e. se_phase s \<in> {Leaving (Some e), Waiting (Some e), Left (Some e)} \<longrightarrow>
       (\<exists>c. e = ''accept SOCKS5 connection: '' @ c))"

lemmas serve_defs =
  accept_def accept_failed_def register_def watch_def leave_def handler_done_def close_connections_def

lemma serve_step_ok: "serve_step s s' \<Longrightarrow> serve_ok s \<Longrightarrow> serve_ok s'"
  by (induction rule: serve_step.induct)
    (auto simp: serve_ok_def serve_defs registering_def less_Suc_eq split: serve_phase.splits)

interpretation serving: step_invariant serve_step serve_ok
  by unfold_locales (rule serve_step_ok)

lemma serve_reachable_ok: "serve_step\<^sup>*\<^sup>* new_serve s \<Longrightarrow> serve_ok s"
  by (erule serving.ok_reachable) (simp add: serve_ok_def new_serve_def registering_def)

lemma handlers_end:
  assumes "finite (se_handling s)"
  shows "\<exists>s'. serve_step\<^sup>*\<^sup>* s s' \<and> se_handling s' = {} \<and> se_phase s' = se_phase s"
  using assms
proof (induction "card (se_handling s)" arbitrary: s)
  case 0
  then show ?case by (intro exI [of _ s]) simp
next
  case (Suc k)
  then obtain n where n: "n \<in> se_handling s" by (metis card.empty equals0I nat.distinct(1))
  then have "card (se_handling (handler_done n s)) = k" "finite (se_handling (handler_done n s))"
    using Suc.hyps(2) Suc.prems by (simp_all add: handler_done_def)
  from Suc.hyps(1) [OF this(1) [symmetric] this(2)] obtain s' where
    "serve_step\<^sup>*\<^sup>* (handler_done n s) s'" "se_handling s' = {}" "se_phase s' = se_phase (handler_done n s)" by blast
  moreover have "serve_step s (handler_done n s)" using n by (rule serve_step.handled)
  ultimately show ?case by (intro exI [of _ s']) (auto simp: handler_done_def)
qed

lemma handling_finite: "serve_ok s \<Longrightarrow> finite (se_handling s)"
  by (rule finite_subset [of _ "{..<se_next s}"]) (auto simp: serve_ok_def)

lemma serve_returns:
  assumes "serve_ok s"
  shows "\<exists>s' r. serve_step\<^sup>*\<^sup>* s s' \<and> se_phase s' = Left r"
proof -
  have waiting: "\<exists>s' r. serve_step\<^sup>*\<^sup>* s s' \<and> se_phase s' = Left r" if w: "se_phase s = Waiting r" "serve_ok s" for s r
  proof -
    obtain s1 where s1: "serve_step\<^sup>*\<^sup>* s s1" "se_handling s1 = {}" "se_phase s1 = Waiting r"
      using handlers_end [OF handling_finite [OF w(2)]] w(1) by auto
    have "serve_step s1 (s1\<lparr>se_phase := Left r\<rparr>)" by (rule serve_step.returned [OF s1(3,2)])
    with s1(1) show ?thesis by (intro exI [of _ "s1\<lparr>se_phase := Left r\<rparr>"]) auto
  qed
  have leaving: "\<exists>s' r. serve_step\<^sup>*\<^sup>* s s' \<and> se_phase s' = Left r" if "se_phase s = Leaving r" "serve_ok s" for s r
  proof -
    have st: "serve_step s (leave r s)" by (rule serve_step.leaving [OF that(1)])
    have "se_phase (leave r s) = Waiting r" by (simp add: leave_def close_connections_def)
    from waiting [OF this serve_step_ok [OF st that(2)]] show ?thesis
      using st by (meson converse_rtranclp_into_rtranclp)
  qed
  have accepting: "\<exists>s' r. serve_step\<^sup>*\<^sup>* s s' \<and> se_phase s' = Left r" if "se_phase s = Accepting" "serve_ok s" for s
  proof -
    have st: "serve_step s (accept_failed (\<not> se_listening s) [] s)"
      using that(1) by (intro serve_step.failed) simp_all
    have "\<exists>r. se_phase (accept_failed (\<not> se_listening s) [] s) = Leaving r" by (simp add: accept_failed_def)
    then show ?thesis
      using leaving serve_step_ok [OF st that(2)] st by (meson converse_rtranclp_into_rtranclp)
  qed
  show ?thesis
  proof (cases "se_phase s")
    case (Registering n)
    then have st: "serve_step s (register n s)" by (rule serve_step.registered)
    from accepting [OF _ serve_step_ok [OF st assms]] show ?thesis
      using st by (simp add: register_def) (meson converse_rtranclp_into_rtranclp)
  next
    case (Left r)
    then show ?thesis by blast
  qed (use accepting leaving waiting assms in blast)+
qed

text \<open>
  C18: When the server has returned, its listener is closed, every connection it accepted is closed
  and no handler runs, whenever the context ended, also between an accept and the registration of
  its connection; while it waits for the handlers all their connections are closed already; and
  from every state it can still come to return.
\<close>

theorem serve_leaves_nothing:
  assumes "serve_step\<^sup>*\<^sup>* new_serve s"
  shows "(\<forall>r. se_phase s = Left r \<longrightarrow> \<not> se_listening s \<and> se_open s = {} \<and> se_handling s = {}) \<and>
    (\<forall>r. se_phase s = Waiting r \<longrightarrow> se_open s = {}) \<and>
    se_open s \<subseteq> se_handling s \<union> registering s \<and>
    (\<exists>s' r. serve_step\<^sup>*\<^sup>* s s' \<and> se_phase s' = Left r)"
  using serve_reachable_ok [OF assms] serve_returns [of s] by (auto simp: serve_ok_def)

theorem serve_leaves_nothing_witness:
  "\<exists>s' r. serve_step\<^sup>*\<^sup>* (register 0 (accept new_serve)) s' \<and> se_phase s' = Left r"
proof -
  have "serve_step new_serve (accept new_serve)" by (rule serve_step.accepted) (simp_all add: new_serve_def)
  moreover have "serve_step (accept new_serve) (register 0 (accept new_serve))"
    by (rule serve_step.registered) (simp add: accept_def new_serve_def)
  ultimately have "serve_step\<^sup>*\<^sup>* new_serve (register 0 (accept new_serve))" by auto
  from serve_leaves_nothing [OF this] show ?thesis by blast
qed

end
