(* ===== verification/GoTime.thy ===== *)
theory GoTime
  imports GoStrings
begin

text \<open>
  Go's \<open>time.Time\<close> as the store sees it: an instant is an \<open>int\<close> of nanoseconds
  since 1970-01-01 UTC, the zero time is 0001-01-01. \<open>format_time\<close> and
  \<open>parse_time\<close> model \<open>formatTime\<close> and \<open>parseTime\<close> of
  \<open>src/internal/store/store.go\<close>: UTC in \<open>time.RFC3339Nano\<close>, the empty string for
  the zero time. Parsing is modelled on the text that \<open>formatTime\<close> writes (the
  only text the columns hold); other text reads as the zero time. The round trip
  holds for every instant of the years 0 to 9999.
\<close>

section \<open>Civil dates\<close>

type_synonym time = int

definition zero_time :: time where
  "zero_time = -62135596800000000000"

definition second :: int where
  "second = 1000000000"

text \<open>
  Years start in March here, so that the leap day is the last one. \<open>split_days\<close>
  gives the year and the day in it for the days since 0000-03-01, by the 400, 100, 4
  and 1-year cycles.
\<close>

definition split_days :: "int \<Rightarrow> int \<times> int" where
  "split_days z =
     (let era = z div 146097; doe = z mod 146097;
          c = min 3 (doe div 36524); doc = doe - 36524 * c;
          q = doc div 1461; doq = doc - 1461 * q;
          y = min 3 (doq div 365)
      in (400 * era + 100 * c + 4 * q + y, doq - 365 * y))"

definition join_days :: "int \<Rightarrow> int \<Rightarrow> int" where
  "join_days y doy = 365 * y + y div 4 - y div 100 + y div 400 + doy"

definition leap :: "int \<Rightarrow> bool" where
  "leap y = (y mod 4 = 0 \<and> (y mod 100 \<noteq> 0 \<or> y mod 400 = 0))"

definition days_in :: "int \<Rightarrow> int \<Rightarrow> int" where
  "days_in y m = (if m = 2 then (if leap y then 29 else 28)
                  else if m \<in> {4, 6, 9, 11} then 30 else 31)"

definition civil_of_days :: "int \<Rightarrow> int \<times> int \<times> int" where
  "civil_of_days days =
     (let (y, doy) = split_days (days + 719468);
          mp = (5 * doy + 2) div 153;
          d = doy - (153 * mp + 2) div 5 + 1;
          m = (if mp < 10 then mp + 3 else mp - 9)
      in (if m \<le> 2 then y + 1 else y, m, d))"

definition days_of_civil :: "int \<Rightarrow> int \<Rightarrow> int \<Rightarrow> int" where
  "days_of_civil y m d =
     (let mp = (if m > 2 then m - 3 else m + 9)
      in join_days (if m \<le> 2 then y - 1 else y) ((153 * mp + 2) div 5 + d - 1) - 719468)"

lemma split_days_bounds:
  fixes doe :: int
  assumes "0 \<le> doe" "doe < 146097"
    and "c = min 3 (doe div 36524)" and "doc = doe - 36524 * c"
    and "q = doc div 1461" and "doq = doc - 1461 * q" and "y = min 3 (doq div 365)"
  shows "0 \<le> c" "c \<le> 3" "0 \<le> q" "q \<le> 24" "0 \<le> y" "y \<le> 3"
    and "0 \<le> doq - 365 * y" "doq - 365 * y \<le> 365"
    and "doq - 365 * y = 365 \<Longrightarrow> y = 3 \<and> (q = 24 \<longrightarrow> c = 3)"
proof -
  show c: "0 \<le> c" "c \<le> 3" using assms(1,3) by auto
  have doc: "0 \<le> doc" "doc \<le> 36524" "c < 3 \<Longrightarrow> doc < 36524"
    using assms(1-4) by (auto simp: min_def split: if_splits)
  show q: "0 \<le> q" "q \<le> 24" using doc assms(5) by auto
  have doq: "0 \<le> doq" "doq \<le> 1460" using assms(5,6) by auto
  show y: "0 \<le> y" "y \<le> 3" using doq assms(7) by auto
  show "0 \<le> doq - 365 * y" "doq - 365 * y \<le> 365"
    using doq assms(7) by (auto simp: min_def split: if_splits)
  assume "doq - 365 * y = 365"
  then have "y = 3" and "doq = 1460"
    using doq assms(7) by (auto simp: min_def split: if_splits)
  moreover have "q = 24 \<Longrightarrow> doq = 1460 \<Longrightarrow> c = 3"
    using doc c assms(6) by linarith
  ultimately show "y = 3 \<and> (q = 24 \<longrightarrow> c = 3)" by simp
qed

lemma split_days_spec:
  assumes "split_days z = (y, doy)"
  shows "join_days y doy = z" and "0 \<le> doy" "doy \<le> 365" and "doy = 365 \<Longrightarrow> leap (y + 1)"
proof -
  define era doe where "era = z div 146097" and "doe = z mod 146097"
  define c where "c = min 3 (doe div 36524)"
  define doc where "doc = doe - 36524 * c"
  define q where "q = doc div 1461"
  define doq where "doq = doc - 1461 * q"
  define w where "w = min 3 (doq div 365)"
  have "split_days z = (400 * era + 100 * c + 4 * q + w, doq - 365 * w)"
    unfolding split_days_def Let_def era_def doe_def c_def doc_def q_def doq_def w_def
    by (rule refl)
  then have y: "y = 400 * era + 100 * c + 4 * q + w" and doy: "doy = doq - 365 * w"
    using assms by simp_all
  have doe: "0 \<le> doe" "doe < 146097" by (simp_all add: doe_def)
  note b = split_days_bounds [OF doe c_def doc_def q_def doq_def w_def]
  have "y = 4 * (100 * era + 25 * c + q) + w" using y by simp
  then have y4: "y div 4 = 100 * era + 25 * c + q"
    using b(5,6) by (intro int_div_pos_eq [where r = w]) auto
  have "y = 100 * (4 * era + c) + (4 * q + w)" using y by simp
  then have y100: "y div 100 = 4 * era + c"
    using b(3-6) by (intro int_div_pos_eq [where r = "4 * q + w"]) auto
  have "y = 400 * era + (100 * c + 4 * q + w)" using y by simp
  then have y400: "y div 400 = era"
    using b(1-6) by (intro int_div_pos_eq [where r = "100 * c + 4 * q + w"]) auto
  have z: "z = 146097 * era + doe" by (simp add: era_def doe_def)
  show "join_days y doy = z"
    unfolding join_days_def y4 y100 y400 unfolding y doy z doq_def doc_def by simp
  show "0 \<le> doy" "doy \<le> 365" using b(7,8) doy by simp_all
  assume "doy = 365"
  with b(9) doy have w: "w = 3" and qc: "q = 24 \<Longrightarrow> c = 3" by simp_all
  have "y + 1 = 4 * (100 * era + 25 * c + q + 1)" using y w by simp
  then have m4: "(y + 1) mod 4 = 0" by simp
  show "leap (y + 1)"
  proof (cases "q = 24")
    case True
    then have "y + 1 = 400 * (era + 1)" using y w qc by simp
    then show ?thesis using m4 by (simp add: leap_def)
  next
    case False
    have "y + 1 = (4 * q + 4) + 100 * (4 * era + c)" using y w by simp
    then have "(y + 1) mod 100 = (4 * q + 4) mod 100" by (metis mod_mult_self2)
    also have "\<dots> = 4 * q + 4" using b(3,4) False by simp
    finally show ?thesis using m4 b(3) by (simp add: leap_def)
  qed
qed

lemma civil_of_days_spec:
  assumes "civil_of_days days = (y, m, d)"
  shows "days_of_civil y m d = days" and "1 \<le> m" "m \<le> 12" and "1 \<le> d" "d \<le> days_in y m"
proof -
  obtain w doy where s: "split_days (days + 719468) = (w, doy)" by (cases "split_days (days + 719468)")
  note sp = split_days_spec [OF s]
  define mp where "mp = (5 * doy + 2) div 153"
  have mp: "0 \<le> mp" "mp \<le> 11" using sp by (simp_all add: mp_def)
  have m: "m = (if mp < 10 then mp + 3 else mp - 9)" and d: "d = doy - (153 * mp + 2) div 5 + 1"
    and y: "y = (if m \<le> 2 then w + 1 else w)"
    using assms s by (auto simp: civil_of_days_def Let_def mp_def split: if_splits)
  show "1 \<le> m" "m \<le> 12" using mp m by auto
  have mp': "(if m > 2 then m - 3 else m + 9) = mp" and y': "(if m \<le> 2 then y - 1 else y) = w"
    using mp m y by auto
  show "days_of_civil y m d = days"
    unfolding days_of_civil_def mp' y' Let_def d using sp(1) by simp
  have lo: "153 * mp \<le> 5 * doy + 2" and hi: "5 * doy + 2 < 153 * mp + 153"
    by (simp_all add: mp_def)
  show "1 \<le> d" using lo d by simp
  have "mp = 0 \<or> mp = 1 \<or> mp = 2 \<or> mp = 3 \<or> mp = 4 \<or> mp = 5 \<or> mp = 6 \<or> mp = 7 \<or> mp = 8 \<or>
      mp = 9 \<or> mp = 10 \<or> mp = 11" using mp by arith
  moreover have "\<not> leap (w + 1) \<Longrightarrow> doy \<le> 364" using sp(3,4) by fastforce
  ultimately show "d \<le> days_in y m"
    using hi sp(2,3) m d y by (elim disjE) (simp_all add: days_in_def)
qed

section \<open>Formatting\<close>

definition pad :: "nat \<Rightarrow> nat \<Rightarrow> string" where
  "pad w n = replicate (w - length (show_nat n)) CHR ''0'' @ show_nat n"

definition strip_zeros :: "string \<Rightarrow> string" where
  "strip_zeros s = rev (dropWhile (\<lambda>c. c = CHR ''0'') (rev s))"

definition format_year :: "int \<Rightarrow> string" where
  "format_year y = (if y < 0 then CHR ''-'' # pad 4 (nat (- y)) else pad 4 (nat y))"

definition format_frac :: "nat \<Rightarrow> string" where
  "format_frac ns = (if ns = 0 then [] else CHR ''.'' # strip_zeros (pad 9 ns))"

definition format_clock :: "nat \<Rightarrow> string" where
  "format_clock sod = pad 2 (sod div 3600) @ '':'' @ pad 2 (sod div 60 mod 60) @ '':'' @ pad 2 (sod mod 60)"

definition format_time :: "time \<Rightarrow> string" where
  "format_time t =
     (if t = zero_time then []
      else let secs = t div 1000000000; (y, m, d) = civil_of_days (secs div 86400)
        in format_year y @ ''-'' @ pad 2 (nat m) @ ''-'' @ pad 2 (nat d) @ ''T'' @
           format_clock (nat (secs mod 86400)) @ format_frac (nat (t mod 1000000000)) @ ''Z'')"

section \<open>Parsing\<close>

definition parse_num :: "nat \<Rightarrow> string \<Rightarrow> (nat \<times> string) option" where
  "parse_num w s =
     (if w \<le> length s \<and> list_all is_digit (take w s) then Some (dec_value 0 (take w s), drop w s)
      else None)"

definition parse_lit :: "char \<Rightarrow> string \<Rightarrow> string option" where
  "parse_lit c s = (case s of [] \<Rightarrow> None | x # xs \<Rightarrow> if x = c then Some xs else None)"

definition parse_frac :: "string \<Rightarrow> (nat \<times> string) option" where
  "parse_frac s =
     (case s of
        [] \<Rightarrow> Some (0, [])
      | c # cs \<Rightarrow>
          if c \<noteq> CHR ''.'' then Some (0, c # cs)
          else let ds = takeWhile is_digit cs in
            if ds = [] then None
            else Some (dec_value 0 (take 9 ds) * 10 ^ (9 - length (take 9 ds)), dropWhile is_digit cs))"

definition parse_rfc3339 :: "string \<Rightarrow> time option" where
  "parse_rfc3339 s0 =
     Option.bind (parse_num 4 s0) (\<lambda>(y, s1). Option.bind (parse_lit CHR ''-'' s1) (\<lambda>s2.
     Option.bind (parse_num 2 s2) (\<lambda>(m, s3). Option.bind (parse_lit CHR ''-'' s3) (\<lambda>s4.
     Option.bind (parse_num 2 s4) (\<lambda>(d, s5). Option.bind (parse_lit CHR ''T'' s5) (\<lambda>s6.
     Option.bind (parse_num 2 s6) (\<lambda>(hh, s7). Option.bind (parse_lit CHR '':'' s7) (\<lambda>s8.
     Option.bind (parse_num 2 s8) (\<lambda>(mi, s9). Option.bind (parse_lit CHR '':'' s9) (\<lambda>s10.
     Option.bind (parse_num 2 s10) (\<lambda>(ss, s11). Option.bind (parse_frac s11) (\<lambda>(ns, s12).
     Option.bind (parse_lit CHR ''Z'' s12) (\<lambda>rest.
       if rest = [] \<and> 1 \<le> m \<and> m \<le> 12 \<and> 1 \<le> d \<and> int d \<le> days_in (int y) (int m) \<and>
          hh < 24 \<and> mi < 60 \<and> ss < 60
       then Some ((days_of_civil (int y) (int m) (int d) * 86400 +
                   int (hh * 3600 + mi * 60 + ss)) * 1000000000 + int ns)
       else None)))))))))))))"

definition parse_time :: "string \<Rightarrow> time" where
  "parse_time s = (case parse_rfc3339 s of Some t \<Rightarrow> t | None \<Rightarrow> zero_time)"

section \<open>The round trip\<close>

lemma length_show_nat: "n < 10 ^ Suc k \<Longrightarrow> length (show_nat n) \<le> Suc k"
proof (induction k arbitrary: n)
  case 0
  then show ?case by (simp add: show_nat.simps)
next
  case (Suc k)
  show ?case
  proof (cases "n < 10")
    case True
    then show ?thesis by (simp add: show_nat.simps)
  next
    case False
    have "n div 10 < 10 ^ Suc k" using Suc.prems by (simp add: less_mult_imp_div_less mult.commute)
    with Suc.IH have "length (show_nat (n div 10)) \<le> Suc k" by blast
    with False show ?thesis by (simp add: show_nat.simps [of n])
  qed
qed

lemma length_pad: "n < 10 ^ Suc k \<Longrightarrow> length (pad (Suc k) n) = Suc k"
  using length_show_nat by (simp add: pad_def)

lemma is_digit_zero [simp]: "is_digit CHR ''0''" "digit_value CHR ''0'' = 0"
  by (simp_all add: is_digit_def digit_value_def)

lemma pad_digits: "list_all is_digit (pad w n)"
  by (auto simp: pad_def list_all_iff dest: show_nat_digits)

lemma dec_value_zeros: "dec_value 0 (replicate k CHR ''0'' @ s) = dec_value 0 s"
  by (induction k) simp_all

lemma dec_value_pad [simp]: "dec_value 0 (pad w n) = n"
  by (simp add: pad_def dec_value_zeros dec_value_show_nat)

lemma parse_num_pad: "n < 10 ^ Suc k \<Longrightarrow> parse_num (Suc k) (pad (Suc k) n @ s) = Some (n, s)"
  by (simp add: parse_num_def length_pad pad_digits)

lemma parse_num_pad2 [simp]: "n < 100 \<Longrightarrow> parse_num 2 (pad 2 n @ s) = Some (n, s)"
  using parse_num_pad [of n "Suc 0" s] by (simp add: numeral_2_eq_2)

lemma parse_num_pad4 [simp]: "n < 10000 \<Longrightarrow> parse_num 4 (pad 4 n @ s) = Some (n, s)"
  using parse_num_pad [of n 3 s] by simp

lemma parse_lit_Cons [simp]: "parse_lit c (c # s) = Some s"
  by (simp add: parse_lit_def)

lemma dropWhile_replicate: "\<exists>k. xs = replicate k c @ dropWhile (\<lambda>x. x = c) xs"
proof (induction xs)
  case Nil
  then show ?case by simp
next
  case (Cons x xs)
  then obtain k where k: "replicate k c @ dropWhile (\<lambda>x. x = c) xs = xs" by metis
  show ?case
  proof (cases "x = c")
    case True
    then show ?thesis using k by (intro exI [of _ "Suc k"]) simp
  next
    case False
    then show ?thesis by (intro exI [of _ 0]) simp
  qed
qed

lemma strip_zeros_append: "\<exists>k. s = strip_zeros s @ replicate k CHR ''0''"
proof -
  from dropWhile_replicate [of "rev s" "CHR ''0''"]
  obtain k where "rev s = replicate k CHR ''0'' @ dropWhile (\<lambda>c. c = CHR ''0'') (rev s)" ..
  then have "rev (rev s) = strip_zeros s @ rev (replicate k CHR ''0'')"
    unfolding strip_zeros_def by (metis rev_append)
  then show ?thesis by auto
qed

lemma dec_value_replicate: "dec_value acc (replicate k CHR ''0'') = acc * 10 ^ k"
  by (induction k arbitrary: acc) simp_all

lemma parse_format_frac:
  assumes "ns < 1000000000"
  shows "parse_frac (format_frac ns @ ''Z'') = Some (ns, ''Z'')"
proof (cases "ns = 0")
  case True
  then show ?thesis by (simp add: parse_frac_def format_frac_def)
next
  case False
  let ?p = "pad 9 ns" and ?s = "strip_zeros (pad 9 ns)"
  have len: "length ?p = 9" using length_pad [of ns 8] assms by simp
  obtain k where p: "?p = ?s @ replicate k CHR ''0''" using strip_zeros_append by blast
  have ls: "length ?s + k = 9" using len p by (metis length_append length_replicate)
  have dig: "\<forall>c \<in> set ?s. is_digit c"
    using pad_digits [of 9 ns] p by (metis list_all_append list_all_iff)
  have val: "dec_value 0 ?s * 10 ^ k = ns"
    using dec_value_pad [of 9 ns] by (subst (asm) p) (simp add: dec_value_append dec_value_replicate)
  have ne: "?s \<noteq> []" using val False by (metis dec_value.simps(1) mult_0)
  have nz: "\<not> is_digit CHR ''Z''" by (simp add: is_digit_def)
  have "takeWhile is_digit (?s @ ''Z'') = ?s" "dropWhile is_digit (?s @ ''Z'') = ''Z''"
    using dig nz by simp_all
  moreover have "9 - length ?s = k" "length ?s \<le> 9" using ls by simp_all
  ultimately show ?thesis
    using False ne val by (simp add: parse_frac_def format_frac_def)
qed

definition in_years :: "time \<Rightarrow> bool" where
  "in_years t = (-62167219200000000000 \<le> t \<and> t < 253402300800000000000)"

lemma year_range:
  assumes "civil_of_days days = (y, m, d)" and "-719528 \<le> days" and "days \<le> 2932896"
  shows "0 \<le> y" and "y \<le> 9999"
proof -
  obtain w doy where s: "split_days (days + 719468) = (w, doy)" by (cases "split_days (days + 719468)")
  note sp = split_days_spec [OF s]
  define mp where "mp = (5 * doy + 2) div 153"
  have mp: "0 \<le> mp" "mp \<le> 11" using sp by (simp_all add: mp_def)
  have m: "m = (if mp < 10 then mp + 3 else mp - 9)" and y: "y = (if m \<le> 2 then w + 1 else w)"
    using assms s by (auto simp: civil_of_days_def Let_def mp_def split: if_splits)
  have j: "365 * w + w div 4 - w div 100 + w div 400 + doy = days + 719468"
    using sp(1) by (simp add: join_days_def)
  have d4: "4 * (w div 4) \<le> w" "w \<le> 4 * (w div 4) + 3" by simp_all
  have d100: "100 * (w div 100) \<le> w" "w \<le> 100 * (w div 100) + 99" by simp_all
  have d400: "400 * (w div 400) \<le> w" "w \<le> 400 * (w div 400) + 399" by simp_all
  have w: "-1 \<le> w" "w \<le> 9999" using j d4 d100 d400 sp(2,3) assms(2,3) by linarith+
  have lo: "mp < 10 \<Longrightarrow> doy \<le> 305" and hi: "\<not> mp < 10 \<Longrightarrow> 306 \<le> doy"
    by (simp_all add: mp_def)
  show "0 \<le> y"
  proof (cases "w = -1")
    case True
    then have "\<not> mp < 10" using j lo assms(2) by auto
    with True m y show ?thesis using mp by simp
  next
    case False
    with w y show ?thesis by simp
  qed
  show "y \<le> 9999"
  proof (cases "w = 9999")
    case True
    then have "mp < 10" using j hi assms(3) by (cases "mp < 10") auto
    with True m y show ?thesis using mp by simp
  next
    case False
    with w y show ?thesis by simp
  qed
qed

lemma parse_format_time:
  assumes "in_years t" and "t \<noteq> zero_time"
  shows "parse_rfc3339 (format_time t) = Some t"
proof -
  define secs where "secs = t div 1000000000"
  define days where "days = secs div 86400"
  define sod where "sod = nat (secs mod 86400)"
  define ns where "ns = nat (t mod 1000000000)"
  obtain y m d where c: "civil_of_days days = (y, m, d)" by (cases "civil_of_days days")
  note cs = civil_of_days_spec [OF c]
  have "-62167219200000000000 div 1000000000 \<le> secs" "secs \<le> 253402300799999999999 div 1000000000"
    using assms(1) unfolding secs_def in_years_def by (intro zdiv_mono1; simp)+
  then have "-62167219200 div 86400 \<le> days" "days \<le> 253402300799 div 86400"
    unfolding days_def by (intro zdiv_mono1; simp)+
  then have "-719528 \<le> days" "days \<le> 2932896" by simp_all
  note y = year_range [OF c this]
  have d31: "d \<le> 31" using cs(5) by (auto simp: days_in_def split: if_splits)
  have sod: "sod < 86400" "int sod = secs mod 86400" by (simp_all add: sod_def nat_less_iff)
  have ns: "ns < 1000000000" "int ns = t mod 1000000000" by (simp_all add: ns_def nat_less_iff)
  have ft: "format_time t = pad 4 (nat y) @ ''-'' @ pad 2 (nat m) @ ''-'' @ pad 2 (nat d) @ ''T'' @
      (pad 2 (sod div 3600) @ '':'' @ pad 2 (sod div 60 mod 60) @ '':'' @ pad 2 (sod mod 60)) @
      format_frac ns @ ''Z''"
    using assms(2) c y by (simp add: format_time_def Let_def secs_def [symmetric] days_def [symmetric]
        sod_def [symmetric] ns_def [symmetric] format_year_def format_clock_def)
  have b: "nat y < 10000" "nat m < 100" "nat d < 100" "sod div 3600 < 100"
    "sod div 60 mod 60 < 100" "sod mod 60 < 100"
    using y cs d31 sod by (simp_all add: nat_less_iff less_mult_imp_div_less)
  have clock: "sod div 3600 * 3600 + sod div 60 mod 60 * 60 + sod mod 60 = sod"
  proof -
    have "sod div 3600 = sod div 60 div 60" by (simp add: div_mult2_eq [symmetric])
    moreover have "60 * (sod div 60 div 60) + sod div 60 mod 60 = sod div 60" by simp
    moreover have "60 * (sod div 60) + sod mod 60 = sod" by simp
    ultimately show ?thesis by linarith
  qed
  have nb: "nat m \<le> 12" "1 \<le> nat m" "1 \<le> nat d" using cs by linarith+
  have "sod div 3600 < 24" using sod(1) by (simp add: less_mult_imp_div_less)
  then have "parse_rfc3339 (format_time t) =
      Some ((days_of_civil y m d * 86400 + int sod) * 1000000000 + int ns)"
    unfolding ft parse_rfc3339_def using b nb cs y clock parse_format_frac [OF ns(1)] by simp
  also have "(days_of_civil y m d * 86400 + int sod) * 1000000000 + int ns = t"
    by (simp add: cs(1) sod ns days_def secs_def)
  finally show ?thesis .
qed

lemma parse_time_format_time: "in_years t \<Longrightarrow> parse_time (format_time t) = t"
  by (cases "t = zero_time")
    (auto simp: parse_time_def parse_format_time, simp add: format_time_def parse_rfc3339_def parse_num_def)

lemma format_time_inject:
  "in_years s \<Longrightarrow> in_years t \<Longrightarrow> format_time s = format_time t \<longleftrightarrow> s = t"
  by (metis parse_time_format_time)

lemma format_time_empty_iff: "in_years t \<Longrightarrow> format_time t = [] \<longleftrightarrow> t = zero_time"
  using format_time_inject [of t zero_time] by (simp add: format_time_def in_years_def zero_time_def)

end
