(* ===== verification/NodeModel.thy ===== *)
theory NodeModel
  imports GoTime
begin

text \<open>
  The data model, \<open>src/internal/model/node.go\<close>: the protocol names, a VPN node and
  the runtime status the web interface shows. 64-bit integers are \<open>int\<close>s (they are
  parsed with \<open>strconv.ParseInt\<close>'s bounds and only compared), times are instants.
\<close>

definition protocol_openvpn_udp :: string where "protocol_openvpn_udp = ''openvpn_udp''"
definition protocol_openvpn_tcp :: string where "protocol_openvpn_tcp = ''openvpn_tcp''"
definition protocol_softether_tls :: string where "protocol_softether_tls = ''softether_https''"
definition protocol_sstp :: string where "protocol_sstp = ''sstp''"
definition protocol_l2tp :: string where "protocol_l2tp = ''l2tp''"

lemmas protocol_defs =
  protocol_openvpn_udp_def protocol_openvpn_tcp_def protocol_softether_tls_def
  protocol_sstp_def protocol_l2tp_def

record node =
  n_host_name :: string
  n_ip :: string
  n_port :: int
  n_score :: int
  n_ping_ms :: int
  n_speed_bps :: int
  n_country_long :: string
  n_country_short :: string
  n_sessions :: int
  n_uptime_ms :: int
  n_total_users :: int
  n_total_traffic :: int
  n_log_type :: string
  n_operator :: string
  n_message :: string
  n_openvpn_config :: string
  n_protocols :: "string list"
  n_measured_bps :: int
  n_measured_at :: time
  n_speed_test_failed :: bool
  n_last_failure :: time
  n_failure_reason :: string
  n_refreshed_at :: time

text \<open>The zero value \<open>model.Node{}\<close>.\<close>

definition zero_node :: node where
  "zero_node =
     \<lparr>n_host_name = [], n_ip = [], n_port = 0, n_score = 0, n_ping_ms = 0, n_speed_bps = 0,
      n_country_long = [], n_country_short = [], n_sessions = 0, n_uptime_ms = 0,
      n_total_users = 0, n_total_traffic = 0, n_log_type = [], n_operator = [], n_message = [],
      n_openvpn_config = [], n_protocols = [], n_measured_bps = 0, n_measured_at = zero_time,
      n_speed_test_failed = False, n_last_failure = zero_time, n_failure_reason = [],
      n_refreshed_at = zero_time\<rparr>"

record runtime_status =
  rs_state :: string
  rs_connecting_ip :: string
  rs_selection :: string
  rs_active_ip :: string
  rs_active_host_name :: string
  rs_active_protocol :: string
  rs_last_refresh :: time
  rs_last_health_check :: time
  rs_last_error :: string
  rs_refresh_running :: bool
  rs_direct_mode :: bool
  rs_connection_paused :: bool

end
