(* ===== verification/NodeStore.thy ===== *)
theory NodeStore
  imports NodeModel "HOL-Library.Product_Lexorder"
begin

text \<open>
  The node database, \<open>src/internal/store/store.go\<close>. The two tables are a list of
  rows in scan order and a map; each SQL statement of the code is the function it
  denotes on them, one transaction is one step, and an I/O or context error of the
  driver is the argument \<open>io\<close> (the statement or transaction then has no effect).
  Time columns hold the text of \<open>formatTime\<close>; the JSON column of protocols is the
  list it encodes. \<open>db_inv\<close> is the PRIMARY KEY of \<open>nodes\<close>. The facts shown: every
  operation keeps the key, a refresh is all or nothing and keeps each node's own
  measurements, \<open>Nodes\<close> returns the best rows in order, and single-row updates
  touch one row.
\<close>

section \<open>Tables\<close>

record row =
  c_ip :: string
  c_host_name :: string
  c_port :: int
  c_score :: int
  c_ping_ms :: int
  c_speed_bps :: int
  c_country_long :: string
  c_country_short :: string
  c_sessions :: int
  c_uptime_ms :: int
  c_total_users :: int
  c_total_traffic :: int
  c_log_type :: string
  c_operator :: string
  c_message :: string
  c_openvpn_config :: string
  c_protocols :: "string list"
  c_measured_bps :: int
  c_measured_at :: string
  c_speed_test_failed :: bool
  c_last_failure :: string
  c_failure_reason :: string
  c_refreshed_at :: string

record db =
  rows :: "row list"
  meta :: "string \<Rightarrow> string option"

definition db_inv :: "db \<Rightarrow> bool" where
  "db_inv d \<longleftrightarrow> distinct (map c_ip (rows d))"

definition find_row :: "string \<Rightarrow> db \<Rightarrow> row option" where
  "find_row a d = find (\<lambda>r. c_ip r = a) (rows d)"

definition err_no_rows :: string where
  "err_no_rows = ''sql: no rows in result set''"

definition is_not_found :: "string \<Rightarrow> bool" where
  "is_not_found e = (e = err_no_rows)"

section \<open>Operations\<close>

text \<open>\<open>initialize\<close> on a database with the current schema: IPv6 rows are deleted.\<close>

definition initialize :: "string option \<Rightarrow> db \<Rightarrow> unit result \<times> db" where
  "initialize io d =
     (case io of Some e \<Rightarrow> (Inl e, d)
      | None \<Rightarrow> (Inr (), d\<lparr>rows := filter (\<lambda>r. CHR '':'' \<notin> set (c_ip r)) (rows d)\<rparr>))"

text \<open>The \<open>INSERT INTO incoming_nodes\<close>: a node's columns, the old row's measurements.\<close>

definition incoming_row :: "db \<Rightarrow> string \<Rightarrow> node \<Rightarrow> row" where
  "incoming_row d refreshed n =
     (let old = find_row (n_ip n) d;
          coalesce = (\<lambda>col (dflt :: string). case old of None \<Rightarrow> dflt | Some r \<Rightarrow> col r)
      in \<lparr>c_ip = n_ip n, c_host_name = n_host_name n, c_port = n_port n, c_score = n_score n,
          c_ping_ms = n_ping_ms n, c_speed_bps = n_speed_bps n,
          c_country_long = n_country_long n, c_country_short = n_country_short n,
          c_sessions = n_sessions n, c_uptime_ms = n_uptime_ms n,
          c_total_users = n_total_users n, c_total_traffic = n_total_traffic n,
          c_log_type = n_log_type n, c_operator = n_operator n, c_message = n_message n,
          c_openvpn_config = n_openvpn_config n, c_protocols = n_protocols n,
          c_measured_bps = (case old of None \<Rightarrow> 0 | Some r \<Rightarrow> c_measured_bps r),
          c_measured_at = coalesce c_measured_at [],
          c_speed_test_failed = (case old of None \<Rightarrow> False | Some r \<Rightarrow> c_speed_test_failed r),
          c_last_failure = coalesce c_last_failure [],
          c_failure_reason = coalesce c_failure_reason [],
          c_refreshed_at = refreshed\<rparr>)"

definition preserved_rows :: "string \<Rightarrow> row list \<Rightarrow> db \<Rightarrow> row list" where
  "preserved_rows preserve incoming d =
     (if preserve \<noteq> [] \<and> preserve \<notin> set (map c_ip incoming)
      then filter (\<lambda>r. c_ip r = preserve) (rows d) else [])"

definition replace_nodes ::
  "string option \<Rightarrow> node list \<Rightarrow> time \<Rightarrow> string \<Rightarrow> db \<Rightarrow> unit result \<times> db" where
  "replace_nodes io nodes refreshed_at preserve d =
     (case io of Some e \<Rightarrow> (Inl e, d)
      | None \<Rightarrow>
          let stamp = format_time refreshed_at;
              fresh = map (incoming_row d stamp) nodes;
              incoming = fresh @ preserved_rows preserve fresh d
          in if \<not> distinct (map c_ip incoming)
             then (Inl ''UNIQUE constraint failed: nodes.ip'', d)
             else (Inr (), d\<lparr>rows := incoming, meta := (meta d)(''last_refresh'' \<mapsto> stamp)\<rparr>))"

definition delete_node_if_stale :: "string option \<Rightarrow> string \<Rightarrow> db \<Rightarrow> unit result \<times> db" where
  "delete_node_if_stale io a d =
     (case io of Some e \<Rightarrow> (Inl e, d)
      | None \<Rightarrow> (Inr (), d\<lparr>rows := filter (\<lambda>r. \<not> (c_ip r = a \<and>
          (case meta d ''last_refresh'' of None \<Rightarrow> False | Some v \<Rightarrow> c_refreshed_at r \<noteq> v))) (rows d)\<rparr>))"

text \<open>
  \<open>orderBy\<close> as a sort key: descending columns negated, the \<open>CASE\<close> of the ping order
  as its first component. Rows that tie keep the table's order.
\<close>

definition order_key :: "string \<Rightarrow> row \<Rightarrow> int \<times> int \<times> int" where
  "order_key mode r =
     (if mode = ''ping'' then (if c_ping_ms r \<le> 0 then 1 else 0, c_ping_ms r, - c_score r)
      else if mode = ''score'' then (- c_score r, - c_speed_bps r, 0)
      else (- c_speed_bps r, - c_score r, 0))"

definition scan_node :: "row \<Rightarrow> node" where
  "scan_node r =
     \<lparr>n_host_name = c_host_name r, n_ip = c_ip r, n_port = c_port r, n_score = c_score r,
      n_ping_ms = c_ping_ms r, n_speed_bps = c_speed_bps r, n_country_long = c_country_long r,
      n_country_short = c_country_short r, n_sessions = c_sessions r, n_uptime_ms = c_uptime_ms r,
      n_total_users = c_total_users r, n_total_traffic = c_total_traffic r,
      n_log_type = c_log_type r, n_operator = c_operator r, n_message = c_message r,
      n_openvpn_config = c_openvpn_config r, n_protocols = c_protocols r,
      n_measured_bps = c_measured_bps r, n_measured_at = parse_time (c_measured_at r),
      n_speed_test_failed = c_speed_test_failed r, n_last_failure = parse_time (c_last_failure r),
      n_failure_reason = c_failure_reason r, n_refreshed_at = parse_time (c_refreshed_at r)\<rparr>"

text \<open>A negative \<open>LIMIT\<close> is no limit, a negative \<open>OFFSET\<close> is none.\<close>

definition sql_page :: "int \<Rightarrow> int \<Rightarrow> 'a list \<Rightarrow> 'a list" where
  "sql_page limit offset xs =
     (let ys = drop (nat offset) xs in if limit < 0 then ys else take (nat limit) ys)"

definition store_nodes :: "string option \<Rightarrow> string \<Rightarrow> int \<Rightarrow> int \<Rightarrow> db \<Rightarrow> node list result" where
  "store_nodes io mode limit offset d =
     (case io of Some e \<Rightarrow> Inl e
      | None \<Rightarrow> Inr (map scan_node (sql_page limit offset (sort_key (order_key mode) (rows d)))))"

definition store_node :: "string option \<Rightarrow> string \<Rightarrow> db \<Rightarrow> node result" where
  "store_node io a d =
     (case io of Some e \<Rightarrow> Inl e
      | None \<Rightarrow> (case find_row a d of None \<Rightarrow> Inl err_no_rows | Some r \<Rightarrow> Inr (scan_node r)))"

definition update_rows :: "string \<Rightarrow> (row \<Rightarrow> row) \<Rightarrow> db \<Rightarrow> db" where
  "update_rows a f d = d\<lparr>rows := map (\<lambda>r. if c_ip r = a then f r else r) (rows d)\<rparr>"

definition mark_failure :: "string option \<Rightarrow> time \<Rightarrow> string \<Rightarrow> string \<Rightarrow> db \<Rightarrow> unit result \<times> db" where
  "mark_failure io now a reason d =
     (case io of Some e \<Rightarrow> (Inl e, d)
      | None \<Rightarrow> (Inr (), update_rows a
          (\<lambda>r. r\<lparr>c_last_failure := format_time now, c_failure_reason := reason\<rparr>) d))"

definition save_measurement :: "string option \<Rightarrow> time \<Rightarrow> string \<Rightarrow> int \<Rightarrow> db \<Rightarrow> unit result \<times> db" where
  "save_measurement io now a bps d =
     (case io of Some e \<Rightarrow> (Inl e, d)
      | None \<Rightarrow> (Inr (), update_rows a (\<lambda>r. r\<lparr>c_measured_bps := bps,
          c_measured_at := format_time now, c_speed_test_failed := False\<rparr>) d))"

definition save_measurement_failure :: "string option \<Rightarrow> time \<Rightarrow> string \<Rightarrow> db \<Rightarrow> unit result \<times> db" where
  "save_measurement_failure io now a d =
     (case io of Some e \<Rightarrow> (Inl e, d)
      | None \<Rightarrow> (Inr (), update_rows a (\<lambda>r. r\<lparr>c_measured_bps := 0,
          c_measured_at := format_time now, c_speed_test_failed := True\<rparr>) d))"

definition get_metadata :: "string option \<Rightarrow> string \<Rightarrow> db \<Rightarrow> string result" where
  "get_metadata io key d =
     (case io of Some e \<Rightarrow> Inl e
      | None \<Rightarrow> (case meta d key of None \<Rightarrow> Inl err_no_rows | Some v \<Rightarrow> Inr v))"

definition set_metadata :: "string option \<Rightarrow> string \<Rightarrow> string \<Rightarrow> db \<Rightarrow> unit result \<times> db" where
  "set_metadata io key v d =
     (case io of Some e \<Rightarrow> (Inl e, d) | None \<Rightarrow> (Inr (), d\<lparr>meta := (meta d)(key \<mapsto> v)\<rparr>))"

definition last_refresh :: "string option \<Rightarrow> db \<Rightarrow> time" where
  "last_refresh io d =
     (case get_metadata io ''last_refresh'' d of Inl _ \<Rightarrow> zero_time | Inr v \<Rightarrow> parse_time v)"


section \<open>Evaluation\<close>

lemmas store_defs =
  initialize_def replace_nodes_def delete_node_if_stale_def mark_failure_def
  save_measurement_def save_measurement_failure_def set_metadata_def update_rows_def

lemma rows_update_ip:
  "(\<And>r. c_ip (f r) = c_ip r) \<Longrightarrow> map c_ip (rows (update_rows a f d)) = map c_ip (rows d)"
  by (simp add: update_rows_def comp_def if_distrib cong: if_cong)

lemma find_row_Some_iff:
  assumes "db_inv d"
  shows "find_row a d = Some r \<longleftrightarrow> r \<in> set (rows d) \<and> c_ip r = a"
proof -
  have "find (\<lambda>r. c_ip r = a) xs = Some r \<longleftrightarrow> r \<in> set xs \<and> c_ip r = a"
    if "distinct (map c_ip xs)" for xs
    using that by (induction xs) (auto simp: image_iff)
  then show ?thesis using assms by (simp add: find_row_def db_inv_def)
qed

lemma find_row_self: "db_inv d \<Longrightarrow> r \<in> set (rows d) \<Longrightarrow> find_row (c_ip r) d = Some r"
  by (simp add: find_row_Some_iff)

lemma find_row_None_iff: "find_row a d = None \<longleftrightarrow> a \<notin> c_ip ` set (rows d)"
  by (auto simp: find_row_def find_None_iff)

lemma find_row_ip: "find_row a d = Some r \<Longrightarrow> c_ip r = a"
  by (auto simp: find_row_def find_Some_iff)

lemma find_row_update:
  assumes "\<And>r. c_ip (f r) = c_ip r"
  shows "find_row b (update_rows a f d) =
    (if b = a then map_option f (find_row a d) else find_row b d)"
proof -
  have "find (\<lambda>r. c_ip r = b) (map (\<lambda>r. if c_ip r = a then f r else r) xs) =
      (if b = a then map_option f (find (\<lambda>r. c_ip r = a) xs) else find (\<lambda>r. c_ip r = b) xs)" for xs
    by (induction xs) (use assms in auto)
  then show ?thesis by (simp add: find_row_def update_rows_def)
qed

lemma map_scan_ip [simp]: "n_ip (scan_node r) = c_ip r"
  by (simp add: scan_node_def)

lemma c_ip_incoming_row [simp]: "c_ip (incoming_row d t n) = n_ip n"
  by (simp add: incoming_row_def Let_def)

lemma db_inv_filter: "db_inv d \<Longrightarrow> db_inv (d\<lparr>rows := filter P (rows d)\<rparr>)"
  by (simp add: db_inv_def distinct_map_filter)

lemma db_inv_update: "(\<And>r. c_ip (f r) = c_ip r) \<Longrightarrow> db_inv d \<Longrightarrow> db_inv (update_rows a f d)"
  by (simp add: db_inv_def rows_update_ip)

section \<open>The key of the table\<close>

text \<open>One statement or transaction of the store, with its environment.\<close>

datatype store_op =
    Initialize
  | ReplaceNodes "node list" time string
  | DeleteNodeIfStale string
  | MarkFailure time string string
  | SaveMeasurement time string int
  | SaveMeasurementFailure time string
  | SetMetadata string string

fun run_op :: "string option \<Rightarrow> store_op \<Rightarrow> db \<Rightarrow> unit result \<times> db" where
  "run_op io Initialize d = initialize io d"
| "run_op io (ReplaceNodes ns t p) d = replace_nodes io ns t p d"
| "run_op io (DeleteNodeIfStale a) d = delete_node_if_stale io a d"
| "run_op io (MarkFailure t a w) d = mark_failure io t a w d"
| "run_op io (SaveMeasurement t a b) d = save_measurement io t a b d"
| "run_op io (SaveMeasurementFailure t a) d = save_measurement_failure io t a d"
| "run_op io (SetMetadata k v) d = set_metadata io k v d"

fun_cases run_op_cases: "run_op io p d = y"

lemma run_op_inv:
  assumes "db_inv d"
  shows "db_inv (snd (run_op io p d))"
proof (cases io)
  case (Some e)
  then show ?thesis using assms by (cases p) (simp_all add: store_defs)
next
  case None
  have upd: "db_inv (d\<lparr>rows := map (\<lambda>r. if c_ip r = a then f r else r) (rows d)\<rparr>)"
    if "\<And>r. c_ip (f r) = c_ip r" for a f
    using db_inv_update [OF that assms] by (simp add: update_rows_def)
  show ?thesis
  proof (cases p)
    case (ReplaceNodes ns t p)
    then show ?thesis using None assms by (simp add: store_defs Let_def db_inv_def image_image comp_def)
  qed (use None assms upd in \<open>simp_all add: store_defs db_inv_filter\<close>,
      simp_all add: db_inv_def)
qed

lemma run_op_error_keeps: "fst (run_op io p d) = Inl e \<Longrightarrow> snd (run_op io p d) = d"
  by (cases p; cases io) (auto simp: store_defs Let_def split: if_splits)

definition run_ops :: "(string option \<times> store_op) list \<Rightarrow> db \<Rightarrow> db" where
  "run_ops ops d = fold (\<lambda>(io, p) d. snd (run_op io p d)) ops d"

definition empty_db :: db where
  "empty_db = \<lparr>rows = [], meta = (\<lambda>_. None)\<rparr>"

interpretation store_ops: invariant_ops "\<lambda>(io, p) d. snd (run_op io p d)" db_inv
  by unfold_locales (auto simp: run_op_inv)

lemma run_ops_inv: "db_inv d \<Longrightarrow> db_inv (run_ops ops d)"
  unfolding run_ops_def by (rule store_ops.ok_runs)

section \<open>Refreshing the table\<close>

lemma replace_nodes_Inr:
  assumes "distinct (map n_ip ns)" and "db_inv d"
  shows "replace_nodes None ns t p d =
    (Inr (), d\<lparr>rows := map (incoming_row d (format_time t)) ns @
                 preserved_rows p (map (incoming_row d (format_time t)) ns) d,
              meta := (meta d)(''last_refresh'' \<mapsto> format_time t)\<rparr>)"
proof -
  let ?fresh = "map (incoming_row d (format_time t)) ns"
  have "map c_ip ?fresh = map n_ip ns" by (simp add: comp_def)
  moreover have "distinct (map c_ip (preserved_rows p ?fresh d))"
    using assms(2) by (simp add: preserved_rows_def db_inv_def distinct_map_filter)
  moreover have "set (map c_ip (preserved_rows p ?fresh d)) \<inter> set (map c_ip ?fresh) = {}"
    by (auto simp: preserved_rows_def)
  ultimately have "distinct (map c_ip (?fresh @ preserved_rows p ?fresh d))"
    using assms(1) by (metis distinct_append inf_commute map_append)
  then show ?thesis by (simp add: replace_nodes_def Let_def image_image comp_def)
qed

lemma find_row_append:
  "find_row a (d\<lparr>rows := xs @ ys\<rparr>) =
    (case find_row a (d\<lparr>rows := xs\<rparr>) of None \<Rightarrow> find_row a (d\<lparr>rows := ys\<rparr>) | Some r \<Rightarrow> Some r)"
  by (induction xs) (simp_all add: find_row_def)

lemma find_row_meta [simp]: "find_row a (d\<lparr>meta := m\<rparr>) = find_row a d"
  by (simp add: find_row_def)

lemma find_row_fresh:
  assumes "distinct (map n_ip ns)" "n \<in> set ns"
  shows "find_row (n_ip n) (e\<lparr>rows := map (incoming_row d t) ns\<rparr>) = Some (incoming_row d t n)"
proof -
  have "distinct (map c_ip (map (incoming_row d t) ns))"
    using assms(1) by (simp add: comp_def)
  then have "db_inv (e\<lparr>rows := map (incoming_row d t) ns\<rparr>)" by (simp add: db_inv_def)
  then show ?thesis using assms(2) by (simp add: find_row_Some_iff)
qed

lemma find_row_preserved:
  "find_row a (e\<lparr>rows := preserved_rows p fresh d\<rparr>) =
    (if a = p \<and> p \<noteq> [] \<and> p \<notin> c_ip ` set fresh then find_row a d else None)"
proof -
  have "find (\<lambda>r. c_ip r = a) (filter (\<lambda>r. c_ip r = p) xs) =
      (if a = p then find (\<lambda>r. c_ip r = a) xs else None)" for xs
    by (induction xs) auto
  then show ?thesis by (auto simp: find_row_def preserved_rows_def)
qed

lemma scan_incoming:
  "scan_node (incoming_row d (format_time t) n) =
   (let old = map_option scan_node (find_row (n_ip n) d)
    in n\<lparr>n_measured_bps := (case old of None \<Rightarrow> 0 | Some m \<Rightarrow> n_measured_bps m),
         n_measured_at := (case old of None \<Rightarrow> parse_time [] | Some m \<Rightarrow> n_measured_at m),
         n_speed_test_failed := (case old of None \<Rightarrow> False | Some m \<Rightarrow> n_speed_test_failed m),
         n_last_failure := (case old of None \<Rightarrow> parse_time [] | Some m \<Rightarrow> n_last_failure m),
         n_failure_reason := (case old of None \<Rightarrow> [] | Some m \<Rightarrow> n_failure_reason m),
         n_refreshed_at := parse_time (format_time t)\<rparr>)"
  by (cases "find_row (n_ip n) d") (simp_all add: incoming_row_def scan_node_def Let_def)

section \<open>Pages\<close>

lemma sql_page_all: "sql_page (- 1) 0 xs = xs"
  by (simp add: sql_page_def)

lemma sql_page_next:
  "0 \<le> k \<Longrightarrow> 0 \<le> l \<Longrightarrow> 0 \<le> off \<Longrightarrow>
   sql_page k off xs @ sql_page l (off + k) xs = sql_page (k + l) off xs"
  by (simp add: sql_page_def Let_def nat_add_distrib take_add add.commute)

lemma sorted_sort_nodes:
  "sorted (map (order_key m) (sort_key (order_key m) xs))"
  by simp

definition order_node :: "string \<Rightarrow> node \<Rightarrow> int \<times> int \<times> int" where
  "order_node mode n =
     (if mode = ''ping'' then (if n_ping_ms n \<le> 0 then 1 else 0, n_ping_ms n, - n_score n)
      else if mode = ''score'' then (- n_score n, - n_speed_bps n, 0)
      else (- n_speed_bps n, - n_score n, 0))"

lemma order_node_scan [simp]: "order_node m (scan_node r) = order_key m r"
  by (simp add: order_node_def order_key_def scan_node_def)

lemma sorted_page: "sorted (map f xs) \<Longrightarrow> sorted (map f (sql_page l off xs))"
  by (simp add: sql_page_def Let_def sorted_wrt_take sorted_wrt_drop
      flip: take_map drop_map)

lemma mset_page_subset: "set (sql_page l off xs) \<subseteq> set xs"
  by (auto simp: sql_page_def Let_def dest: in_set_takeD in_set_dropD)

section \<open>Tables updated by key\<close>

text \<open>
  The contract the single-row statements share: an update under key \<open>a\<close> changes what
  is read under \<open>a\<close> and nothing else. The manager's failure marks and the speed-test
  worker's results rely on it.
\<close>

locale keyed_table =
  fixes look :: "'k \<Rightarrow> 's \<Rightarrow> 'v option"
    and change :: "'k \<Rightarrow> ('v \<Rightarrow> 'v) \<Rightarrow> 's \<Rightarrow> 's"
    and ok :: "('v \<Rightarrow> 'v) \<Rightarrow> bool"
  assumes look_change:
    "ok f \<Longrightarrow> look b (change a f s) = (if b = a then map_option f (look a s) else look b s)"
begin

lemma look_same: "ok f \<Longrightarrow> look a (change a f s) = map_option f (look a s)"
  by (simp add: look_change)

lemma look_other: "ok f \<Longrightarrow> b \<noteq> a \<Longrightarrow> look b (change a f s) = look b s"
  by (simp add: look_change)

lemma absent_stays: "ok f \<Longrightarrow> look b (change a f s) = None \<longleftrightarrow> look b s = None"
  by (simp add: look_change)

lemma change_commute:
  assumes "ok f" "ok g" "a \<noteq> b"
  shows "look c (change a f (change b g s)) = look c (change b g (change a f s))"
  using assms by (simp add: look_change)

lemma change_overrides:
  assumes "ok f" "ok g" "\<And>x. f (g x) = f x"
  shows "look c (change a f (change a g s)) = look c (change a f s)"
  using assms by (simp add: look_change option.map_comp comp_def)

end

definition keeps_ip :: "(row \<Rightarrow> row) \<Rightarrow> bool" where
  "keeps_ip f \<longleftrightarrow> (\<forall>r. c_ip (f r) = c_ip r)"

interpretation node_rows: keyed_table find_row update_rows keeps_ip
  by unfold_locales (simp add: find_row_update keeps_ip_def)

lemma keeps_ip_updates [simp]:
  "keeps_ip (\<lambda>r. r\<lparr>c_last_failure := x, c_failure_reason := y\<rparr>)"
  "keeps_ip (\<lambda>r. r\<lparr>c_measured_bps := b, c_measured_at := x, c_speed_test_failed := z\<rparr>)"
  by (simp_all add: keeps_ip_def)

lemmas single_row_defs =
  mark_failure_def save_measurement_def save_measurement_failure_def

lemma store_node_update:
  assumes "keeps_ip f"
  shows "store_node None b (update_rows a f d) =
    (if b = a then (case find_row a d of None \<Rightarrow> Inl err_no_rows | Some r \<Rightarrow> Inr (scan_node (f r)))
     else store_node None b d)"
  by (auto simp: store_node_def node_rows.look_change [OF assms] split: option.splits)

section \<open>Properties\<close>

text \<open>What a refresh leaves of a node \<open>n\<close> that the table had as \<open>old\<close>.\<close>

definition refreshed_node :: "node option \<Rightarrow> time \<Rightarrow> node \<Rightarrow> node" where
  "refreshed_node old t n =
     n\<lparr>n_measured_bps := (case old of None \<Rightarrow> 0 | Some m \<Rightarrow> n_measured_bps m),
       n_measured_at := (case old of None \<Rightarrow> zero_time | Some m \<Rightarrow> n_measured_at m),
       n_speed_test_failed := (case old of None \<Rightarrow> False | Some m \<Rightarrow> n_speed_test_failed m),
       n_last_failure := (case old of None \<Rightarrow> zero_time | Some m \<Rightarrow> n_last_failure m),
       n_failure_reason := (case old of None \<Rightarrow> [] | Some m \<Rightarrow> n_failure_reason m),
       n_refreshed_at := t\<rparr>"

definition node_option :: "string \<Rightarrow> db \<Rightarrow> node option" where
  "node_option a d = (case store_node None a d of Inl _ \<Rightarrow> None | Inr n \<Rightarrow> Some n)"

lemma node_option_find: "node_option a d = map_option scan_node (find_row a d)"
  by (simp add: node_option_def store_node_def split: option.splits)

lemma zero_time_in_years: "in_years zero_time"
  by (simp add: in_years_def zero_time_def)

lemma parse_time_Nil: "parse_time [] = zero_time"
  using parse_time_format_time [OF zero_time_in_years] by (simp add: format_time_def)

lemma scan_refreshed:
  "in_years t \<Longrightarrow>
   scan_node (incoming_row d (format_time t) n) = refreshed_node (node_option (n_ip n) d) t n"
  by (cases "find_row (n_ip n) d") (simp_all add: scan_incoming node_option_find
      refreshed_node_def Let_def parse_time_Nil parse_time_format_time)

lemma find_fresh_None:
  "find (\<lambda>n. n_ip n = a) ns = None \<Longrightarrow> find_row a (e\<lparr>rows := map (incoming_row d s) ns\<rparr>) = None"
  by (auto simp: find_row_def find_None_iff)

lemma replace_nodes_reads:
  assumes "db_inv d" "distinct (map n_ip ns)" "in_years t"
    and r: "replace_nodes None ns t p d = (Inr (), d')"
  shows "store_node None a d' =
    (case find (\<lambda>n. n_ip n = a) ns of
       Some n \<Rightarrow> Inr (refreshed_node (node_option a d) t n)
     | None \<Rightarrow> if a = p \<and> p \<noteq> [] then store_node None a d else Inl err_no_rows)"
proof -
  let ?fresh = "map (incoming_row d (format_time t)) ns"
  have f: "find_row a d' = (case find_row a (d\<lparr>rows := ?fresh\<rparr>) of
      None \<Rightarrow> find_row a (d\<lparr>rows := preserved_rows p ?fresh d\<rparr>) | Some r \<Rightarrow> Some r)"
  proof -
    have "d' = d\<lparr>rows := ?fresh @ preserved_rows p ?fresh d,
        meta := (meta d)(''last_refresh'' \<mapsto> format_time t)\<rparr>"
      using r by (simp add: replace_nodes_Inr [OF assms(2,1)])
    then show ?thesis by (simp add: find_row_append)
  qed
  show ?thesis
  proof (cases "find (\<lambda>n. n_ip n = a) ns")
    case None
    then have "a \<notin> n_ip ` set ns" by (auto simp: find_None_iff)
    with None show ?thesis
      by (auto simp: store_node_def f find_fresh_None find_row_preserved image_image)
  next
    case (Some n)
    then have n: "n \<in> set ns" "n_ip n = a" by (auto simp: find_Some_iff)
    with Some show ?thesis
      using find_row_fresh [OF assms(2) n(1)] scan_refreshed [OF assms(3), of d n]
      by (simp add: store_node_def f)
  qed
qed


text \<open>
  A statement or transaction that reports an error has changed nothing.
\<close>

theorem store_error_changes_nothing:
  assumes "run_op io p d = (Inl e, d')"
  shows "d' = d"
  using run_op_error_keeps [of io p d e] assms by simp

lemma replace_nodes_effect:
  assumes "db_inv d" "distinct (map n_ip ns)" "in_years t"
  shows "\<exists>d'. replace_nodes None ns t p d = (Inr (), d') \<and> db_inv d' \<and> last_refresh None d' = t \<and>
    (\<forall>a. store_node None a d' =
      (case find (\<lambda>n. n_ip n = a) ns of
         Some n \<Rightarrow> Inr (refreshed_node (node_option a d) t n)
       | None \<Rightarrow> if a = p \<and> p \<noteq> [] then store_node None a d else Inl err_no_rows))"
proof -
  obtain d' where r: "replace_nodes None ns t p d = (Inr (), d')"
    using replace_nodes_Inr [OF assms(2,1)] by blast
  have "db_inv d'" using run_op_inv [OF assms(1), of None "ReplaceNodes ns t p"] r by simp
  moreover have "last_refresh None d' = t"
    using r by (auto simp: replace_nodes_Inr [OF assms(2,1)] last_refresh_def get_metadata_def
        parse_time_format_time [OF assms(3)])
  ultimately show ?thesis
    using r replace_nodes_reads [OF assms r] by blast
qed

text \<open>
  \<open>ReplaceNodes\<close> with pairwise different addresses succeeds; afterwards reading
  any address gives the new node with the measurements and failure marks its old row had,
  or the preserved row unchanged when the list lacks it, and nothing else; the refresh
  time reads back exactly.
\<close>

theorem replace_nodes_correct:
  assumes "db_inv d" "distinct (map n_ip ns)" "in_years t"
  shows "\<exists>d'. replace_nodes None ns t p d = (Inr (), d') \<and> db_inv d' \<and> last_refresh None d' = t \<and>
    (\<forall>a. store_node None a d' =
      (case find (\<lambda>n. n_ip n = a) ns of
         Some n \<Rightarrow> Inr (refreshed_node (node_option a d) t n)
       | None \<Rightarrow> if a = p \<and> p \<noteq> [] then store_node None a d else Inl err_no_rows))"
  using assms by (rule replace_nodes_effect)

lemma first_page:
  assumes "db_inv d" "0 \<le> k"
  shows "\<exists>page. store_nodes None mode k 0 d = Inr page \<and>
    length page = min (nat k) (length (rows d)) \<and>
    sorted (map (order_node mode) page) \<and> distinct (map n_ip page) \<and>
    (\<forall>n \<in> set page. store_node None (n_ip n) d = Inr n) \<and>
    (\<forall>a n. store_node None a d = Inr n \<longrightarrow> n \<notin> set page \<longrightarrow>
       (\<forall>m \<in> set page. order_node mode m \<le> order_node mode n))"
proof -
  define ys where "ys = sort_key (order_key mode) (rows d)"
  define page where "page = map scan_node (take (nat k) ys)"
  have ys: "set ys = set (rows d)" "length ys = length (rows d)" "sorted (map (order_key mode) ys)"
      "distinct (map c_ip ys)"
    using assms(1) by (auto simp: ys_def db_inv_def distinct_map)
  have all: "\<forall>n \<in> set page. store_node None (n_ip n) d = Inr n"
    using ys(1) by (auto simp: page_def store_node_def find_row_self [OF assms(1)]
        dest!: in_set_takeD)
  have best: "order_node mode m \<le> order_node mode n"
    if "store_node None a d = Inr n" "n \<notin> set page" "m \<in> set page" for a n m
  proof -
    from that(1) obtain r where r: "r \<in> set (rows d)" "n = scan_node r"
      using find_row_Some_iff [OF assms(1)] by (auto simp: store_node_def split: option.splits)
    then have "r \<in> set (take (nat k) ys) \<or> r \<in> set (drop (nat k) ys)"
      using ys(1) by (metis Un_iff append_take_drop_id set_append)
    with that(2) r(2) have "r \<in> set (drop (nat k) ys)" by (auto simp: page_def)
    moreover from that(3) obtain q where "q \<in> set (take (nat k) ys)" "m = scan_node q"
      by (auto simp: page_def)
    moreover have "sorted (map (order_key mode) (take (nat k) ys) @ map (order_key mode) (drop (nat k) ys))"
      using ys(3) by (simp flip: map_append)
    ultimately show ?thesis using r(2) by (auto simp: sorted_append)
  qed
  have "store_nodes None mode k 0 d = Inr page"
    using assms(2) by (simp add: store_nodes_def sql_page_def page_def ys_def)
  moreover have "length page = min (nat k) (length (rows d))"
    using ys(2) by (simp add: page_def)
  moreover have "sorted (map (order_node mode) page)"
    using sorted_wrt_take [OF ys(3), of "nat k"] by (simp add: page_def comp_def take_map)
  moreover have "distinct (map n_ip page)"
    using distinct_take [OF ys(4), of "nat k"] by (simp add: page_def comp_def take_map)
  ultimately show ?thesis using all best by blast
qed

text \<open>
  A page of \<open>Nodes\<close> is sorted, holds only stored nodes and, from offset 0, is
  the best: a stored node that is not on it ranks no better than any node on it.
\<close>

theorem first_page_best:
  assumes "db_inv d" "0 \<le> k"
  shows "\<exists>page. store_nodes None mode k 0 d = Inr page \<and>
    length page = min (nat k) (length (rows d)) \<and>
    sorted (map (order_node mode) page) \<and> distinct (map n_ip page) \<and>
    (\<forall>n \<in> set page. store_node None (n_ip n) d = Inr n) \<and>
    (\<forall>a n. store_node None a d = Inr n \<longrightarrow> n \<notin> set page \<longrightarrow>
       (\<forall>m \<in> set page. order_node mode m \<le> order_node mode n))"
  using assms by (rule first_page)

text \<open>
  Walking the list page by page, each starting where the previous one ended, visits
  exactly the rows of one longer page.
\<close>

theorem pages_partition:
  assumes "0 \<le> k" "0 \<le> l" "0 \<le> off"
  shows "store_nodes None mode (k + l) off d =
    bind_result (store_nodes None mode k off d)
      (\<lambda>ps. bind_result (store_nodes None mode l (off + k) d) (\<lambda>qs. Inr (ps @ qs)))"
  using sql_page_next [OF assms, of "sort_key (order_key mode) (rows d)"]
  by (simp add: store_nodes_def flip: map_append)

text \<open>
  Right after a refresh, \<open>DeleteNodeIfStale\<close> removes the node it names exactly when
  the refreshed list lacked it (the row was only preserved), and touches no other node.
\<close>

theorem delete_stale_after_refresh:
  assumes "db_inv d" "distinct (map n_ip ns)"
    and r: "replace_nodes None ns t p d = (Inr (), d1)"
    and old: "\<forall>r \<in> set (rows d). c_refreshed_at r \<noteq> format_time t"
    and s: "delete_node_if_stale None a d1 = (res, d2)"
  shows "res = Inr () \<and> store_node None b d2 =
    (if b = a \<and> a \<notin> n_ip ` set ns then Inl err_no_rows else store_node None b d1)"
proof -
  let ?s = "format_time t"
  let ?fresh = "map (incoming_row d ?s) ns"
  have d1: "d1 = d\<lparr>rows := ?fresh @ preserved_rows p ?fresh d,
      meta := (meta d)(''last_refresh'' \<mapsto> ?s)\<rparr>"
    using r by (simp add: replace_nodes_Inr [OF assms(2,1)])
  have fresh: "c_refreshed_at x = ?s" if "x \<in> set ?fresh" for x
    using that by (auto simp: incoming_row_def Let_def)
  have kept: "c_refreshed_at x \<noteq> ?s" if "x \<in> set (preserved_rows p ?fresh d)" for x
    using that old by (auto simp: preserved_rows_def split: if_splits)
  have stale: "c_refreshed_at x \<noteq> ?s \<longleftrightarrow> c_ip x \<notin> n_ip ` set ns" if "x \<in> set (rows d1)" for x
  proof (cases "x \<in> set ?fresh")
    case True
    then show ?thesis using fresh [OF True] by auto
  next
    case False
    then have k: "x \<in> set (preserved_rows p ?fresh d)" using that by (simp add: d1)
    then have "c_ip x \<notin> n_ip ` set ns"
      by (auto simp: preserved_rows_def image_image split: if_splits)
    then show ?thesis using kept [OF k] by simp
  qed
  have d2: "res = Inr ()" "d2 = d1\<lparr>rows := filter (\<lambda>r. \<not> (c_ip r = a \<and> c_refreshed_at r \<noteq> ?s)) (rows d1)\<rparr>"
    using s by (simp_all add: delete_node_if_stale_def d1)
  have "find (\<lambda>r. c_ip r = b) (filter (\<lambda>r. \<not> (c_ip r = a \<and> c_refreshed_at r \<noteq> ?s)) xs) =
      (if b = a \<and> a \<notin> n_ip ` set ns then None else find (\<lambda>r. c_ip r = b) xs)"
    if "set xs \<subseteq> set (rows d1)" for xs
    using that by (induction xs) (auto simp: stale)
  from this [of "rows d1"] show ?thesis
    by (auto simp: d2 store_node_def find_row_def)
qed

text \<open>
  The three single-row statements of the failure marks and measurements: what was
  written is read back (times to the nanosecond), and every other node reads as before.
\<close>

theorem single_row_updates:
  assumes "in_years now" and n: "store_node None a d = Inr n"
  shows "store_node None b (snd (mark_failure None now a why d)) =
      (if b = a then Inr (n\<lparr>n_last_failure := now, n_failure_reason := why\<rparr>) else store_node None b d)
    \<and> store_node None b (snd (save_measurement None now a bps d)) =
      (if b = a then Inr (n\<lparr>n_measured_bps := bps, n_measured_at := now, n_speed_test_failed := False\<rparr>)
       else store_node None b d)
    \<and> store_node None b (snd (save_measurement_failure None now a d)) =
      (if b = a then Inr (n\<lparr>n_measured_bps := 0, n_measured_at := now, n_speed_test_failed := True\<rparr>)
       else store_node None b d)"
proof -
  obtain r where r: "find_row a d = Some r" "n = scan_node r"
    using n by (auto simp: store_node_def split: option.splits)
  have t: "parse_time (format_time now) = now" by (rule parse_time_format_time [OF assms(1)])
  show ?thesis
    by (simp add: single_row_defs store_node_update r t scan_node_def)
qed

section \<open>Instances\<close>

definition sample_node :: "string \<Rightarrow> int \<Rightarrow> node" where
  "sample_node a speed = zero_node\<lparr>n_ip := a, n_speed_bps := speed, n_protocols := [protocol_sstp]\<rparr>"

definition sample_db :: db where
  "sample_db = run_ops
     [(None, ReplaceNodes [sample_node ''a'' 5, sample_node ''b'' 9, sample_node ''c'' 7] 1000 []),
      (None, SaveMeasurement 2000 ''b'' 42)] empty_db"

lemma in_years_small: "0 \<le> t \<Longrightarrow> t < 1000000000000 \<Longrightarrow> in_years t"
  by (simp add: in_years_def)

lemma sample_db_inv: "db_inv sample_db"
  unfolding sample_db_def by (rule run_ops_inv) (simp add: db_inv_def empty_db_def)

lemma store_error_witness:
  "snd (run_op (Some ''disk full'') (MarkFailure 0 ''a'' ''x'') sample_db) = sample_db"
  by (rule store_error_changes_nothing [where e = "''disk full''"
        and io = "Some ''disk full''" and p = "MarkFailure 0 ''a'' ''x''"]) (simp add: mark_failure_def)

lemma replace_nodes_witness:
  "\<exists>d'. replace_nodes None [sample_node ''b'' 1] 5000 ''c'' sample_db = (Inr (), d')
     \<and> last_refresh None d' = 5000"
  using replace_nodes_correct [OF sample_db_inv, of "[sample_node ''b'' 1]" 5000 "''c''"]
  by (auto simp: in_years_small)

lemma first_page_witness:
  "\<exists>page. store_nodes None ''speed'' 2 0 sample_db = Inr page \<and> distinct (map n_ip page)"
  using first_page_best [OF sample_db_inv, of 2 "''speed''"] by auto

lemma pages_witness:
  "store_nodes None ''ping'' (2 + 1) 0 sample_db =
    bind_result (store_nodes None ''ping'' 2 0 sample_db)
      (\<lambda>ps. bind_result (store_nodes None ''ping'' 1 (0 + 2) sample_db) (\<lambda>qs. Inr (ps @ qs)))"
  by (rule pages_partition) simp_all

lemma sample_stamps: "\<forall>r \<in> set (rows sample_db). c_refreshed_at r \<noteq> format_time 5000"
proof -
  have "c_refreshed_at r = format_time 1000" if "r \<in> set (rows sample_db)" for r
    using that by (auto simp: sample_db_def run_ops_def replace_nodes_def Let_def preserved_rows_def
        save_measurement_def update_rows_def incoming_row_def empty_db_def split: if_splits)
  then show ?thesis
    using format_time_inject [of 1000 5000] in_years_small by auto
qed

definition sample_row :: row where
  "sample_row = incoming_row empty_db (format_time 1000) (sample_node ''b'' 9)"

lemma sample_row_read: "store_node None ''b'' (empty_db\<lparr>rows := [sample_row]\<rparr>) = Inr (scan_node sample_row)"
proof -
  have "c_ip sample_row = ''b''"
    unfolding sample_row_def c_ip_incoming_row by (simp add: sample_node_def)
  then show ?thesis by (simp add: store_node_def find_row_def)
qed

lemma delete_stale_witness:
  "let d1 = snd (replace_nodes None [sample_node ''b'' 1] 5000 ''c'' sample_db)
   in store_node None ''c'' (snd (delete_node_if_stale None ''c'' d1)) = Inl err_no_rows"
proof -
  have d: "distinct (map n_ip [sample_node ''b'' 1])" by simp
  have c: "''c'' = ''c'' \<and> ''c'' \<notin> n_ip ` set [sample_node ''b'' 1]" by (simp add: sample_node_def)
  note r = replace_nodes_Inr [OF d sample_db_inv, of 5000 "''c''"]
  note del = delete_stale_after_refresh [OF sample_db_inv d r sample_stamps surjective_pairing,
        of "''c''" "''c''", THEN conjunct2, unfolded if_P [OF c]]
  show ?thesis unfolding Let_def r snd_conv by (rule del)
qed

lemma single_row_witness:
  "store_node None ''b'' (snd (save_measurement None 3000 ''b'' 42 (empty_db\<lparr>rows := [sample_row]\<rparr>))) =
    Inr (scan_node sample_row\<lparr>n_measured_bps := 42, n_measured_at := 3000, n_speed_test_failed := False\<rparr>)"
  using single_row_updates [OF in_years_small sample_row_read, of 3000 "''b''"] by simp

end
