(* ===== verification/Prog.thy ===== *)
theory Prog
  imports Prelude
begin

text \<open>
  Concurrent programs: a goroutine is a tree of atomic actions, each a critical section
  (a function on the shared state, with the environment's answer as its input) after
  which the scheduler may run another goroutine. \<open>exec\<close> runs one goroutine undisturbed;
  \<open>sys_step\<close> interleaves any number of them; \<open>ok\<close> is a rely-guarantee judgement, and the
  locale \<open>rely_guarantee\<close> lifts it to every reachable state of the interleaving.
\<close>

section \<open>Programs\<close>

datatype ('i, 'w, 'a) prog =
    Ret 'a
  | Act "'i \<Rightarrow> 'w \<Rightarrow> (('i, 'w, 'a) prog \<times> 'w) option"

text \<open>\<open>Act f\<close> is blocked in a state where \<open>f\<close> gives \<open>None\<close>.\<close>

primrec bind_prog :: "('i, 'w, 'a) prog \<Rightarrow> ('a \<Rightarrow> ('i, 'w, 'b) prog) \<Rightarrow> ('i, 'w, 'b) prog" where
  "bind_prog (Ret a) k = k a"
| "bind_prog (Act f) k = Act (\<lambda>i w. map_option (map_prod (\<lambda>p. bind_prog p k) id) (f i w))"

definition atomic :: "('i \<Rightarrow> 'w \<Rightarrow> 'a \<times> 'w) \<Rightarrow> ('i, 'w, 'a) prog" where
  "atomic f = Act (\<lambda>i w. case f i w of (a, w') \<Rightarrow> Some (Ret a, w'))"

definition await :: "('i \<Rightarrow> 'w \<Rightarrow> ('a \<times> 'w) option) \<Rightarrow> ('i, 'w, 'a) prog" where
  "await f = Act (\<lambda>i w. map_option (map_prod Ret id) (f i w))"

definition ask :: "('w \<Rightarrow> 'a) \<Rightarrow> ('i, 'w, 'a) prog" where
  "ask f = atomic (\<lambda>_ w. (f w, w))"

definition modify :: "('w \<Rightarrow> 'w) \<Rightarrow> ('i, 'w, unit) prog" where
  "modify f = atomic (\<lambda>_ w. ((), f w))"

lemma bind_prog_Ret_right [simp]: "bind_prog p Ret = p"
proof (induction p)
  case (Ret a)
  then show ?case by simp
next
  case (Act f)
  have "map_option (map_prod (\<lambda>p. bind_prog p Ret) id) (f i w) = f i w" for i w
  proof (cases "f i w")
    case (Some r)
    then have "bind_prog (fst r) Ret = fst r"
      using Act.IH [of "f i" "f i w" r "fst r"] by (auto simp: image_iff prod_set_defs) metis
    then show ?thesis using Some by (cases r) simp
  qed simp
  then show ?case by simp
qed

section \<open>Undisturbed runs\<close>

text \<open>The environment answers as a function of the state it is asked in.\<close>

primrec exec :: "('i, 'w, 'a) prog \<Rightarrow> ('w \<Rightarrow> 'i) \<Rightarrow> 'w \<Rightarrow> ('a \<times> 'w) option" where
  "exec (Ret a) = (\<lambda>e w. Some (a, w))"
| "exec (Act f) = (\<lambda>e w. case map_option (map_prod (\<lambda>p. exec p) id) (f (e w) w) of
      None \<Rightarrow> None | Some (run, w') \<Rightarrow> run e w')"

lemma exec_Ret [simp]: "exec (Ret a) e w = Some (a, w)"
  by simp

lemma exec_Act: "exec (Act f) e w = (case f (e w) w of None \<Rightarrow> None | Some (p, w') \<Rightarrow> exec p e w')"
  by (cases "f (e w) w") auto

declare exec.simps [simp del]

lemmas exec_rules [simp] = exec.simps(1)

lemma exec_atomic [simp]: "exec (atomic f) e w = Some (f (e w) w)"
  by (simp add: atomic_def exec_Act split: prod.splits)

lemma exec_await [simp]: "exec (await f) e w = f (e w) w"
  by (cases "f (e w) w") (auto simp: await_def exec_Act)

lemma exec_ask [simp]: "exec (ask f) e w = Some (f w, w)"
  by (simp add: ask_def)

lemma exec_modify [simp]: "exec (modify f) e w = Some ((), f w)"
  by (simp add: modify_def)

lemma exec_bind [simp]:
  "exec (bind_prog p k) e w = (case exec p e w of None \<Rightarrow> None | Some (a, w') \<Rightarrow> exec (k a) e w')"
proof (induction p arbitrary: w)
  case (Ret a)
  then show ?case by simp
next
  case (Act f)
  show ?case
  proof (cases "f (e w) w")
    case None
    then show ?thesis by (simp add: exec_Act)
  next
    case (Some r)
    obtain p' w' where r: "r = (p', w')" by (cases r)
    have "exec (bind_prog p' k) e w' = (case exec p' e w' of None \<Rightarrow> None | Some (a, w'') \<Rightarrow> exec (k a) e w'')"
    proof (rule Act.IH [of "f (e w)" "Some r" r p'])
      show "Some r \<in> range (f (e w))" using Some by (metis rangeI)
    qed (use r in auto)
    with Some r show ?thesis by (simp add: exec_Act)
  qed
qed

section \<open>The rely-guarantee judgement\<close>

text \<open>
  \<open>ok J R G B Q p w\<close>: from state \<open>w\<close>, with inputs of \<open>J\<close> and interference \<open>R\<close> between
  any two actions, every action of \<open>p\<close> is in \<open>G\<close>, \<open>p\<close> is blocked only in states of
  \<open>B\<close>, and where it returns \<open>a\<close>, \<open>Q a\<close> holds and is kept by the interference.
\<close>

inductive ok ::
  "('i \<Rightarrow> bool) \<Rightarrow> ('w \<Rightarrow> 'w \<Rightarrow> bool) \<Rightarrow> ('w \<Rightarrow> 'w \<Rightarrow> bool) \<Rightarrow> ('w \<Rightarrow> bool) \<Rightarrow>
   ('a \<Rightarrow> 'w \<Rightarrow> bool) \<Rightarrow> ('i, 'w, 'a) prog \<Rightarrow> 'w \<Rightarrow> bool"
  for J R G B Q where
  ok_Ret: "(\<And>w'. R\<^sup>*\<^sup>* w w' \<Longrightarrow> Q a w') \<Longrightarrow> ok J R G B Q (Ret a) w"
| ok_Act: "(\<And>w' i p w''. R\<^sup>*\<^sup>* w w' \<Longrightarrow> J i \<Longrightarrow> f i w' = Some (p, w'') \<Longrightarrow> G w' w'') \<Longrightarrow>
    (\<And>w' i p w''. R\<^sup>*\<^sup>* w w' \<Longrightarrow> J i \<Longrightarrow> f i w' = Some (p, w'') \<Longrightarrow> ok J R G B Q p w'') \<Longrightarrow>
    (\<And>w'. R\<^sup>*\<^sup>* w w' \<Longrightarrow> (\<And>i. J i \<Longrightarrow> f i w' = None) \<Longrightarrow> B w') \<Longrightarrow>
    ok J R G B Q (Act f) w"

inductive_cases ok_RetE: "ok J R G B Q (Ret a) w"
inductive_cases ok_ActE: "ok J R G B Q (Act f) w"

lemma ok_Ret_post: "ok J R G B Q (Ret a) w \<Longrightarrow> Q a w"
  by (erule ok_RetE) blast

lemma ok_Act_step:
  "ok J R G B Q (Act f) w \<Longrightarrow> J i \<Longrightarrow> f i w = Some (p, w') \<Longrightarrow> G w w' \<and> ok J R G B Q p w'"
  by (erule ok_ActE) blast

lemma ok_Act_blocked:
  "ok J R G B Q (Act f) w \<Longrightarrow> (\<And>i. J i \<Longrightarrow> f i w = None) \<Longrightarrow> B w"
  by (erule ok_ActE) blast

lemma ok_rely: "ok J R G B Q p w \<Longrightarrow> R\<^sup>*\<^sup>* w w' \<Longrightarrow> ok J R G B Q p w'"
proof (induction rule: ok.induct)
  case (ok_Ret w a)
  then show ?case by (intro ok.ok_Ret) (meson rtranclp_trans)
next
  case (ok_Act w f)
  show ?case
  proof (rule ok.ok_Act)
    fix v i q w''
    assume "R\<^sup>*\<^sup>* w' v" "J i" "f i v = Some (q, w'')"
    moreover from this(1) ok_Act.prems have "R\<^sup>*\<^sup>* w v" by (meson rtranclp_trans)
    ultimately show "G v w''" "ok J R G B Q q w''" using ok_Act.hyps by blast+
  next
    fix v
    assume "R\<^sup>*\<^sup>* w' v" "\<And>i. J i \<Longrightarrow> f i v = None"
    moreover from this(1) ok_Act.prems have "R\<^sup>*\<^sup>* w v" by (meson rtranclp_trans)
    ultimately show "B v" using ok_Act.hyps(3) by blast
  qed
qed

lemma ok_bind:
  assumes "ok J R G B (\<lambda>a. ok J R G B Q (k a)) p w"
  shows "ok J R G B Q (bind_prog p k) w"
  using assms
proof (induction rule: ok.induct)
  case (ok_Ret w a)
  then show ?case by simp
next
  case (ok_Act w f)
  show ?case
    unfolding bind_prog.simps
  proof (rule ok.ok_Act)
    fix v i q w''
    assume r: "R\<^sup>*\<^sup>* w v" "J i" and "map_option (map_prod (\<lambda>p. bind_prog p k) id) (f i v) = Some (q, w'')"
    then obtain p' where "f i v = Some (p', w'')" "q = bind_prog p' k" by auto
    with r ok_Act show "G v w''" "ok J R G B Q q w''" by blast+
  next
    fix v
    assume "R\<^sup>*\<^sup>* w v" "\<And>i. J i \<Longrightarrow> map_option (map_prod (\<lambda>p. bind_prog p k) id) (f i v) = None"
    then show "B v" using ok_Act.hyps(3) by simp
  qed
qed

lemma ok_weaken:
  assumes "ok J R G B Q p w" and "\<And>a w. Q a w \<Longrightarrow> Q' a w"
  shows "ok J R G B Q' p w"
  using assms
proof (induction rule: ok.induct)
  case (ok_Ret w a)
  then show ?case by (simp add: ok.ok_Ret)
next
  case (ok_Act w f)
  then show ?case by (intro ok.ok_Act) blast+
qed

text \<open>What both the program and the interference keep can be added to the result.\<close>

lemma ok_frame:
  assumes "ok J R G B Q p w" and "I w" and "\<And>w w'. I w \<Longrightarrow> R w w' \<Longrightarrow> I w'" "\<And>w w'. I w \<Longrightarrow> G w w' \<Longrightarrow> I w'"
  shows "ok J R G B (\<lambda>a w. Q a w \<and> I w) p w"
  using assms(1,2)
proof (induction rule: ok.induct)
  have rely: "R\<^sup>*\<^sup>* w w' \<Longrightarrow> I w \<Longrightarrow> I w'" for w w'
    by (induction rule: rtranclp_induct) (use assms(3) in blast)+
  {
    case (ok_Ret w a)
    then show ?case using rely by (intro ok.ok_Ret) blast
  next
    case (ok_Act w f)
    then show ?case using rely assms(4) by (intro ok.ok_Act) blast+
  }
qed

text \<open>Assertions that the interference keeps.\<close>

definition stable :: "('w \<Rightarrow> 'w \<Rightarrow> bool) \<Rightarrow> ('w \<Rightarrow> bool) \<Rightarrow> bool" where
  "stable R P \<longleftrightarrow> (\<forall>w w'. P w \<longrightarrow> R w w' \<longrightarrow> P w')"

lemma stable_rtranclp: "stable R P \<Longrightarrow> R\<^sup>*\<^sup>* w w' \<Longrightarrow> P w \<Longrightarrow> P w'"
  by (rotate_tac, induction rule: rtranclp_induct) (auto simp: stable_def)

lemma stable_conj: "stable R P \<Longrightarrow> stable R Q \<Longrightarrow> stable R (\<lambda>w. P w \<and> Q w)"
  by (auto simp: stable_def)

lemma ok_RetI: "stable R (Q a) \<Longrightarrow> Q a w \<Longrightarrow> ok J R G B Q (Ret a) w"
  by (rule ok_Ret) (rule stable_rtranclp)

lemma ok_atomic:
  fixes f :: "'i \<Rightarrow> 'w \<Rightarrow> 'a \<times> 'w"
  assumes "stable R P" "P w" "\<And>a. stable R (Q a)"
    and "\<And>i w a w'. P w \<Longrightarrow> J i \<Longrightarrow> f i w = (a, w') \<Longrightarrow> G w w' \<and> Q a w'"
    and "\<exists>i. J i"
  shows "ok J R G B Q (atomic f) w"
  unfolding atomic_def
proof (rule ok_Act)
  fix w' i and p :: "('i, 'w, 'a) prog" and w''
  assume r: "R\<^sup>*\<^sup>* w w'" and i: "J i" and "(case f i w' of (a, w') \<Rightarrow> Some (Ret a, w')) = Some (p, w'')"
  then obtain a where f: "f i w' = (a, w'')" and p: "p = Ret a" by (auto split: prod.splits)
  have "P w'" using stable_rtranclp [OF assms(1) r assms(2)] .
  with assms(4) [OF _ i f] have "G w' w''" "Q a w''" by auto
  then show "G w' w''" "ok J R G B Q p w''" using assms(3) p by (auto intro: ok_RetI)
next
  fix w'
  assume "\<And>i. J i \<Longrightarrow> (case f i w' of (a, w') \<Rightarrow> Some (Ret a :: ('i, 'w, 'a) prog, w')) = None"
  moreover obtain i where "J i" using assms(5) by blast
  ultimately show "B w'" by (fastforce split: prod.splits)
qed

lemma ok_await:
  fixes f :: "'i \<Rightarrow> 'w \<Rightarrow> ('a \<times> 'w) option"
  assumes "stable R P" "P w" "\<And>a. stable R (Q a)"
    and "\<And>i w a w'. P w \<Longrightarrow> J i \<Longrightarrow> f i w = Some (a, w') \<Longrightarrow> G w w' \<and> Q a w'"
    and "\<And>w. P w \<Longrightarrow> (\<And>i. J i \<Longrightarrow> f i w = None) \<Longrightarrow> B w"
  shows "ok J R G B Q (await f) w"
  unfolding await_def
proof (rule ok_Act)
  fix w' i and p :: "('i, 'w, 'a) prog" and w''
  assume r: "R\<^sup>*\<^sup>* w w'" and i: "J i" and "map_option (map_prod Ret id) (f i w') = Some (p, w'')"
  then obtain a where f: "f i w' = Some (a, w'')" and p: "p = Ret a" by auto
  have "P w'" using stable_rtranclp [OF assms(1) r assms(2)] .
  with assms(4) [OF _ i f] have "G w' w''" "Q a w''" by auto
  then show "G w' w''" "ok J R G B Q p w''" using assms(3) p by (auto intro: ok_RetI)
next
  fix w'
  assume "R\<^sup>*\<^sup>* w w'" and "\<And>i. J i \<Longrightarrow> map_option (map_prod (Ret :: 'a \<Rightarrow> ('i, 'w, 'a) prog) id) (f i w') = None"
  then show "B w'" using assms(5) stable_rtranclp [OF assms(1) _ assms(2)] by simp
qed

section \<open>Interleaving\<close>

text \<open>
  A system is the shared state and its goroutines by number. \<open>tid\<close> reads the number of
  the goroutine an input is for, \<open>drain\<close> removes from the state the goroutines an action
  has started with \<open>go\<close>, \<open>env\<close> is what happens outside, \<open>calls\<close> are the operations that
  other components may call at any time, each in a goroutine of its own.
\<close>

inductive sys_step ::
  "('i \<Rightarrow> nat) \<Rightarrow> ('w \<Rightarrow> 'w \<times> ('i, 'w, unit) prog list) \<Rightarrow> ('w \<Rightarrow> 'w \<Rightarrow> bool) \<Rightarrow>
   ('i, 'w, unit) prog set \<Rightarrow> 'w \<times> ('i, 'w, unit) prog list \<Rightarrow> 'w \<times> ('i, 'w, unit) prog list \<Rightarrow> bool"
  for tid drain env calls where
  run: "k < length ts \<Longrightarrow> ts ! k = Act f \<Longrightarrow> tid i = k \<Longrightarrow> f i w = Some (p, w') \<Longrightarrow>
    drain w' = (w'', new) \<Longrightarrow> sys_step tid drain env calls (w, ts) (w'', ts[k := p] @ new)"
| outside: "env w w' \<Longrightarrow> sys_step tid drain env calls (w, ts) (w', ts)"
| call: "p \<in> calls \<Longrightarrow> sys_step tid drain env calls (w, ts) (w, ts @ [p])"

definition can_move :: "('i \<Rightarrow> nat) \<Rightarrow> 'w \<times> ('i, 'w, unit) prog list \<Rightarrow> nat \<Rightarrow> bool" where
  "can_move tid = (\<lambda>(w, ts) k. k < length ts \<and>
     (\<exists>f i p w'. ts ! k = Act f \<and> tid i = k \<and> f i w = Some (p, w')))"

inductive_cases sys_stepE: "sys_step tid drain env calls s s'"

text \<open>A schedule is the list of inputs it gives; an input whose goroutine cannot move is lost.\<close>

definition sys_run ::
  "('i \<Rightarrow> nat) \<Rightarrow> ('w \<Rightarrow> 'w \<times> ('i, 'w, unit) prog list) \<Rightarrow> 'i \<Rightarrow>
   'w \<times> ('i, 'w, unit) prog list \<Rightarrow> 'w \<times> ('i, 'w, unit) prog list" where
  "sys_run tid drain i = (\<lambda>(w, ts).
     if tid i < length ts then
       (case ts ! tid i of Ret _ \<Rightarrow> (w, ts)
        | Act f \<Rightarrow> (case f i w of None \<Rightarrow> (w, ts)
            | Some (p, w') \<Rightarrow> (case drain w' of (w'', new) \<Rightarrow> (w'', ts[tid i := p] @ new))))
     else (w, ts))"

lemma sys_run_steps: "(sys_step tid drain env calls)\<^sup>*\<^sup>* s (sys_run tid drain i s)"
proof -
  obtain w ts where s: "s = (w, ts)" by (cases s)
  show ?thesis
  proof (cases "tid i < length ts \<and> (\<exists>f p w'. ts ! tid i = Act f \<and> f i w = Some (p, w'))")
    case True
    then obtain f p w' where f: "tid i < length ts" "ts ! tid i = Act f" "f i w = Some (p, w')" by blast
    obtain w'' new where d: "drain w' = (w'', new)" by (cases "drain w'")
    have "sys_step tid drain env calls (w, ts) (w'', ts[tid i := p] @ new)"
      using run [where k = "tid i" and f = f and i = i and w = w and p = p, OF f(1,2)] f(3) d by simp
    then show ?thesis using f d by (simp add: sys_run_def s r_into_rtranclp)
  next
    case False
    then have "sys_run tid drain i s = s"
      by (auto simp: sys_run_def s split: prog.splits option.splits)
    then show ?thesis by simp
  qed
qed

lemma sys_runs_steps: "(sys_step tid drain env calls)\<^sup>*\<^sup>* s (fold (sys_run tid drain) is s)"
proof (induction "is" arbitrary: s)
  case (Cons i "is")
  then show ?case using rtranclp_trans [OF sys_run_steps Cons.IH] by simp
qed simp

locale rely_guarantee =
  fixes tid :: "'i \<Rightarrow> nat"
    and drain :: "'w \<Rightarrow> 'w \<times> ('i, 'w, unit) prog list"
    and env :: "'w \<Rightarrow> 'w \<Rightarrow> bool"
    and calls :: "('i, 'w, unit) prog set"
    and guar :: "nat \<Rightarrow> 'w \<Rightarrow> 'w \<Rightarrow> bool"
    and blocked :: "nat \<Rightarrow> 'w \<Rightarrow> bool"
    and idle :: "nat \<Rightarrow> 'w \<Rightarrow> bool"
  assumes idle_stable: "idle t w \<Longrightarrow> s \<noteq> t \<Longrightarrow> guar s w w' \<Longrightarrow> idle t w'"
    and env_guar: "env w w' \<Longrightarrow> guar s w w'"
    and drain_guar: "drain w = (w', new) \<Longrightarrow> guar s w w'"
    and drain_ok: "drain w = (w', new) \<Longrightarrow> p \<in> set new \<Longrightarrow> idle t v \<Longrightarrow>
      ok (\<lambda>i. tid i = t) (\<lambda>a b. \<exists>s. s \<noteq> t \<and> guar s a b) (guar t) (blocked t) (\<lambda>_. idle t) p v"
    and calls_ok: "p \<in> calls \<Longrightarrow> idle t v \<Longrightarrow>
      ok (\<lambda>i. tid i = t) (\<lambda>a b. \<exists>s. s \<noteq> t \<and> guar s a b) (guar t) (blocked t) (\<lambda>_. idle t) p v"
begin

abbreviation rely :: "nat \<Rightarrow> 'w \<Rightarrow> 'w \<Rightarrow> bool" where
  "rely t a b \<equiv> \<exists>s. s \<noteq> t \<and> guar s a b"

abbreviation thread_ok :: "nat \<Rightarrow> ('i, 'w, unit) prog \<Rightarrow> 'w \<Rightarrow> bool" where
  "thread_ok t \<equiv> ok (\<lambda>i. tid i = t) (rely t) (guar t) (blocked t) (\<lambda>_. idle t)"

definition sound :: "'w \<times> ('i, 'w, unit) prog list \<Rightarrow> bool" where
  "sound = (\<lambda>(w, ts). (\<forall>k < length ts. thread_ok k (ts ! k) w) \<and> (\<forall>k \<ge> length ts. idle k w))"

lemma thread_ok_rely: "thread_ok t p w \<Longrightarrow> s \<noteq> t \<Longrightarrow> guar s w w' \<Longrightarrow> thread_ok t p w'"
  by (rule ok_rely) auto

lemma thread_ok_neutral:
  assumes "thread_ok t p w" "\<And>s. guar s w w'"
  shows "thread_ok t p w'"
  using thread_ok_rely [OF assms(1) _ assms(2) [of "Suc t"]] by simp

lemma idle_neutral:
  assumes "idle t w" "\<And>s. guar s w w'"
  shows "idle t w'"
  using idle_stable [OF assms(1) _ assms(2) [of "Suc t"]] by simp

lemma sound_run:
  assumes s: "sound (w, ts)" and k: "k < length ts" "ts ! k = Act f" "tid i = k"
    and f: "f i w = Some (p, w')" and d: "drain w' = (w'', new)"
  shows "guar k w w'" and "sound (w'', ts[k := p] @ new)"
proof -
  have a: "thread_ok k (Act f) w" using s k by (auto simp: sound_def)
  show g: "guar k w w'" using ok_Act_step [OF a _ f] k(3) by simp
  have p: "thread_ok k p w'" using ok_Act_step [OF a _ f] k(3) by simp
  have dg: "guar u w' w''" for u by (rule drain_guar [OF d])
  have old: "thread_ok j (ts[k := p] ! j) w''" if "j < length ts" for j
  proof (cases "j = k")
    case True
    with k p have "thread_ok j (ts[k := p] ! j) w'" by simp
    then show ?thesis by (rule thread_ok_neutral) (rule dg)
  next
    case False
    with s that have "thread_ok j (ts[k := p] ! j) w" by (simp add: sound_def)
    then have "thread_ok j (ts[k := p] ! j) w'"
      using False g by (intro thread_ok_rely [where s = k and w = w and w' = w']) auto
    then show ?thesis by (rule thread_ok_neutral) (rule dg)
  qed
  have id: "idle j w''" if "j \<ge> length ts" for j
  proof -
    from that s have "idle j w" by (simp add: sound_def)
    moreover from that k have "k \<noteq> j" by simp
    ultimately have "idle j w'" using g by (rule idle_stable)
    then show ?thesis by (rule idle_neutral) (rule dg)
  qed
  show "sound (w'', ts[k := p] @ new)"
    unfolding sound_def
  proof (clarsimp, intro conjI allI impI)
    fix j
    assume "j < length ts + length new"
    then show "thread_ok j ((ts[k := p] @ new) ! j) w''"
      using old [of j] drain_ok [OF d _ id, of "new ! (j - length ts)" j]
      by (cases "j < length ts") (simp_all add: nth_append)
  next
    fix j
    assume "length ts + length new \<le> j"
    then show "idle j w''" using id by simp
  qed
qed

lemma sound_step:
  assumes "sys_step tid drain env calls s s'" and "sound s"
  shows "sound s'"
  using assms(1)
proof (cases rule: sys_step.cases)
  case (run k ts f i w p w' w'' new)
  then show ?thesis using sound_run(2) assms(2) by blast
next
  case (outside w w' ts)
  have "thread_ok k p w'" if "thread_ok k p w" for k p
    by (rule thread_ok_neutral [OF that env_guar [OF outside(3)]])
  moreover have "idle k w'" if "idle k w" for k
    by (rule idle_neutral [OF that env_guar [OF outside(3)]])
  ultimately show ?thesis using outside assms(2) by (simp add: sound_def)
next
  case (call p w ts)
  then show ?thesis using assms(2) calls_ok
    by (auto simp: sound_def nth_append less_Suc_eq)
qed

lemma sound_reachable: "(sys_step tid drain env calls)\<^sup>*\<^sup>* s s' \<Longrightarrow> sound s \<Longrightarrow> sound s'"
  by (induction rule: rtranclp_induct) (auto intro: sound_step)

text \<open>What every guarantee keeps holds in every reachable state.\<close>

lemma invariant:
  assumes I: "\<And>t w w'. guar t w w' \<Longrightarrow> I w \<Longrightarrow> I w'"
    and "(sys_step tid drain env calls)\<^sup>*\<^sup>* (w, ts) (w', ts')" "sound (w, ts)" "I w"
  shows "I w'"
proof -
  have "sound s \<and> I (fst s)" if "(sys_step tid drain env calls)\<^sup>*\<^sup>* (w, ts) s" for s
    using that
  proof (induction rule: rtranclp_induct)
    case base
    then show ?case using assms by simp
  next
    case (step s s')
    then have "sound s'" using sound_step by blast
    moreover have "I (fst s')" using step.hyps(2)
    proof (cases rule: sys_step.cases)
      case (run k ts f i w p w' w'' new)
      then have "guar k w w'" "guar k w' w''"
        using sound_run(1) [of w ts k f i p w'] drain_guar step.IH by blast+
      then show ?thesis using run step.IH I by auto
    next
      case (outside w w' ts)
      then show ?thesis using step.IH I [OF env_guar [of w w' 0]] by simp
    next
      case (call p w ts)
      then show ?thesis using step.IH by auto
    qed
    ultimately show ?case by simp
  qed
  from this [OF assms(2)] show ?thesis by simp
qed

text \<open>A goroutine that has returned is idle.\<close>

lemma finished_idle: "sound (w, ts) \<Longrightarrow> k < length ts \<Longrightarrow> ts ! k = Ret a \<Longrightarrow> idle k w"
proof -
  assume s: "sound (w, ts)" and k: "k < length ts" and r: "ts ! k = Ret a"
  from s k have "thread_ok k (ts ! k) w" by (simp add: sound_def)
  then show "idle k w" unfolding r by (rule ok_Ret_post)
qed

text \<open>A goroutine that has not returned can move, or waits for what \<open>blocked\<close> says.\<close>

lemma moves_or_blocked:
  assumes "sound (w, ts)" "k < length ts" "ts ! k = Act f"
  shows "can_move tid (w, ts) k \<or> blocked k w"
proof (cases "can_move tid (w, ts) k")
  case False
  have "thread_ok k (Act f) w" using assms by (auto simp: sound_def)
  then have "blocked k w"
  proof (rule ok_Act_blocked)
    fix i
    assume "tid i = k"
    with False assms show "f i w = None" by (cases "f i w") (auto simp: can_move_def)
  qed
  then show ?thesis ..
qed simp

end

end
