(* ===== verification/Config.thy ===== *)
theory Config
  imports NodeModel
begin

text \<open>
  The configuration, \<open>src/internal/config/config.go\<close>: its records.
\<close>

section \<open>Records\<close>

record socks5_config =
  s_listen_address :: string
  s_username :: string
  s_password :: string
  s_idle_timeout :: string
  s_half_close_timeout :: string

record monitor_config =
  mon_url :: string
  mon_interval :: string
  mon_timeout :: string

record web_config =
  web_listen_address :: string
  web_username :: string
  web_password_hash :: string
  web_session_secret :: string

record config =
  source_url :: string
  refresh_interval :: string
  filter_expression :: string
  selection_mode :: string
  follow_ranking_on_refresh :: bool
  fallback_to_direct :: bool
  socks5 :: socks5_config
  monitor :: monitor_config
  web :: web_config
  database_path :: string
  dns_servers :: "string list"
  speed_test_url :: string
  speed_test_timeout :: string
  protocol_priority :: "string list"
  connect_timeout :: string
  vpn_gate_username :: string
  vpn_gate_password :: string
  vpn_gate_pre_shared_key :: string

section \<open>Defaults\<close>

definition default_source_url :: string where
  "default_source_url = ''http://www.vpngate.net/api/iphone/''"

definition default_speed_test_url :: string where
  "default_speed_test_url = ''http://storage.googleapis.com/gcp-public-data-landsat/LC08/01/001/002/LC08_L1GT_001002_20160817_20170322_01_T2/LC08_L1GT_001002_20160817_20170322_01_T2_B1.TIF''"

definition default_dns_servers :: "string list" where
  "default_dns_servers = [''1.1.1.1:53'', ''8.8.8.8:53'']"

text \<open>\<open>defaultConfig\<close>, with the bcrypt hash and the random secret it generates.\<close>

definition default_config :: "string \<Rightarrow> string \<Rightarrow> config" where
  "default_config password_hash session_secret =
     \<lparr>source_url = default_source_url, refresh_interval = ''30m'', filter_expression = ''true'',
      selection_mode = ''speed'', follow_ranking_on_refresh = True, fallback_to_direct = False,
      socks5 = \<lparr>s_listen_address = ''127.0.0.1:1080'', s_username = [], s_password = [],
        s_idle_timeout = ''5m'', s_half_close_timeout = ''1m''\<rparr>,
      monitor = \<lparr>mon_url = ''https://www.google.com/generate_204'', mon_interval = ''30s'',
        mon_timeout = ''10s''\<rparr>,
      web = \<lparr>web_listen_address = ''127.0.0.1:8080'', web_username = ''admin'',
        web_password_hash = password_hash, web_session_secret = session_secret\<rparr>,
      database_path = ''data/proxygate.db'',
      dns_servers = default_dns_servers,
      speed_test_url = default_speed_test_url, speed_test_timeout = ''45s'',
      protocol_priority = [protocol_openvpn_udp, protocol_openvpn_tcp, protocol_softether_tls,
        protocol_sstp, protocol_l2tp],
      connect_timeout = ''15s'',
      vpn_gate_username = ''vpn'', vpn_gate_password = ''vpn'', vpn_gate_pre_shared_key = ''vpn''\<rparr>"

end
