(* ===== verification/VpnState.thy ===== *)
theory VpnState
  imports NodeStore Prog Config GoNet
begin

text \<open>
  The shared state of the VPN manager, \<open>src/internal/vpn/manager.go\<close>: the fields of
  \<open>Manager\<close>, what surrounds it (database, configuration, contexts, open sessions), and
  its critical sections, each one a function that runs while \<open>m.mu\<close> is held. Sessions
  are numbered as drivers open them; \<open>ended_sessions\<close> are those that ended by themselves. Some components
  of \<open>world\<close> record what the program holds in local variables or has done: \<open>owner\<close> is the goroutine
  that has a session in hand and must install or close it, \<open>opened\<close> the node and protocol a session
  was opened for, \<open>probed\<close> the sessions whose health check succeeded, \<open>was_installed\<close> the sessions that
  were ever installed, with whether the manager was closing then, and \<open>swept\<close> whether a \<open>Close\<close>
  has taken the installed session.
\<close>

section \<open>Contexts\<close>

text \<open>
  A context is the list of its own number and its ancestors'; it has ended when one of
  them has, with that one's error. The manager's own context \<open>m.ctx\<close> is \<open>root_ctx\<close>.
\<close>

type_synonym ctx = "nat list"

definition root_ctx :: ctx where
  "root_ctx = [0]"

definition err_canceled :: string where
  "err_canceled = ''context canceled''"

fun ctx_error :: "(nat \<Rightarrow> string option) \<Rightarrow> ctx \<Rightarrow> string option" where
  "ctx_error errs [] = None"
| "ctx_error errs (i # c) = (case errs i of Some e \<Rightarrow> Some e | None \<Rightarrow> ctx_error errs c)"

section \<open>The manager\<close>

record manager =
  m_drivers :: "string list"
  m_closing :: bool
  m_session :: "nat option"
  m_node :: node
  m_protocol :: string
  m_selection :: string
  m_manual_ip :: string
  m_manual_protocol :: string
  m_state :: string
  m_last_err :: "string option"
  m_direct_mode :: bool
  m_connection_paused :: bool
  m_connecting_ip :: string
  m_cancel_connect :: "ctx option"
  m_cancel_automatic :: "ctx option"
  m_connect_attempt :: u64
  m_generation :: u64
  m_last_health :: time

text \<open>The goroutines \<open>runAsync\<close> starts, by what they run.\<close>

datatype task =
    SwitchTask ctx
  | CandidateTask ctx node string string u64
  | WaitTask nat u64
  | FailoverTask ctx string

datatype lock_id = FailoverMu | AutoMu | SwitchMu

record world =
  mgr :: manager
  wdb :: db
  conf :: config
  ctx_errs :: "nat \<Rightarrow> string option"
  next_ctx :: nat
  locks :: "lock_id \<Rightarrow> nat option"
  async :: nat
  spawned :: "task list"
  next_session :: nat
  open_sessions :: "nat set"
  owner :: "nat \<Rightarrow> nat option"
  opened :: "nat \<Rightarrow> (node \<times> string) option"
  probed :: "nat set"
  ended_sessions :: "nat set"
  was_installed :: "nat \<Rightarrow> bool option"
  swept :: bool

text \<open>
  What an action learns from outside: the goroutine it runs in, the clock, whether the
  database fails, how a driver, a health probe, a session's end and its closing answer.
\<close>

text \<open>An HTTP exchange: whether its error is \<open>context.Canceled\<close> is part of the answer.\<close>

datatype http_outcome = RequestError string | ExchangeError string bool | Response int string

record download =
  d_http :: http_outcome
  d_bytes :: int
  d_copy_err :: "string option"
  d_deadline :: bool
  d_elapsed :: int

record inp =
  in_tid :: nat
  in_now :: time
  in_io :: "string option"
  in_start :: "node \<Rightarrow> string \<Rightarrow> string option"
  in_probe :: "nat \<Rightarrow> http_outcome"
  in_wait :: "string option"
  in_close :: "string option"
  in_download :: download

type_synonym 'a act = "(inp, world, 'a) prog"

definition ctx_err :: "world \<Rightarrow> ctx \<Rightarrow> string option" where
  "ctx_err w c = ctx_error (ctx_errs w) c"

definition cancel_ctx :: "ctx \<Rightarrow> world \<Rightarrow> world" where
  "cancel_ctx c w =
     (case c of [] \<Rightarrow> w
      | i # _ \<Rightarrow> if ctx_err w c = None then w\<lparr>ctx_errs := (ctx_errs w)(i := Some err_canceled)\<rparr> else w)"

definition cancel_opt :: "ctx option \<Rightarrow> world \<Rightarrow> world" where
  "cancel_opt c w = (case c of None \<Rightarrow> w | Some c \<Rightarrow> cancel_ctx c w)"

definition with_cancel :: "ctx \<Rightarrow> world \<Rightarrow> ctx \<times> world" where
  "with_cancel parent w = (next_ctx w # parent, w\<lparr>next_ctx := Suc (next_ctx w)\<rparr>)"

text \<open>\<open>NewManager\<close>; the three queries may each fail.\<close>

definition new_manager ::
  "string list \<Rightarrow> string option \<Rightarrow> string option \<Rightarrow> string option \<Rightarrow> db \<Rightarrow> manager" where
  "new_manager drivers io1 io2 io3 d =
     (let fresh = \<lparr>m_drivers = drivers, m_closing = False, m_session = None, m_node = zero_node,
            m_protocol = [], m_selection = ''auto'', m_manual_ip = [], m_manual_protocol = [],
            m_state = ''idle'', m_last_err = None, m_direct_mode = False, m_connection_paused = False,
            m_connecting_ip = [], m_cancel_connect = None, m_cancel_automatic = None,
            m_connect_attempt = 0, m_generation = 0, m_last_health = zero_time\<rparr>
      in case get_metadata io1 ''selection'' d of Inl _ \<Rightarrow> fresh
         | Inr mode \<Rightarrow>
             if mode \<noteq> ''manual'' then fresh
             else (case get_metadata io2 ''manual_ip'' d of Inl _ \<Rightarrow> fresh
               | Inr ip \<Rightarrow> (case get_metadata io3 ''manual_protocol'' d of Inl _ \<Rightarrow> fresh
                   | Inr protocol \<Rightarrow> fresh\<lparr>m_selection := ''manual'', m_manual_ip := ip,
                       m_manual_protocol := protocol\<rparr>)))"

section \<open>Reading the manager\<close>

definition active_ip :: "manager \<Rightarrow> string" where
  "active_ip m = (if m_session m = None then [] else n_ip (m_node m))"

definition preserved_ip :: "manager \<Rightarrow> string" where
  "preserved_ip m =
     (if m_session m \<noteq> None then n_ip (m_node m)
      else if m_connection_paused m \<and> m_selection m = ''manual'' then m_manual_ip m else [])"

definition status :: "bool \<Rightarrow> time \<Rightarrow> string option \<Rightarrow> manager \<Rightarrow> runtime_status" where
  "status refreshing refreshed refresh_err m =
     \<lparr>rs_state = m_state m, rs_connecting_ip = m_connecting_ip m, rs_selection = m_selection m,
      rs_active_ip = active_ip m,
      rs_active_host_name = (if m_session m = None then [] else n_host_name (m_node m)),
      rs_active_protocol = (if m_session m = None then [] else m_protocol m),
      rs_last_refresh = refreshed, rs_last_health_check = m_last_health m,
      rs_last_error = (case m_last_err m of Some e \<Rightarrow> e
        | None \<Rightarrow> (case refresh_err of Some e \<Rightarrow> e | None \<Rightarrow> [])),
      rs_refresh_running = refreshing, rs_direct_mode = m_direct_mode m,
      rs_connection_paused = m_connection_paused m\<rparr>"

text \<open>\<open>isConnectAttempt\<close>, \<open>isGeneration\<close> and \<open>Session\<close>.\<close>

abbreviation is_connect_attempt :: "u64 \<Rightarrow> world \<Rightarrow> bool" where
  "is_connect_attempt attempt w \<equiv> m_connect_attempt (mgr w) = attempt"

abbreviation is_generation :: "u64 \<Rightarrow> world \<Rightarrow> bool" where
  "is_generation generation w \<equiv> m_generation (mgr w) = generation"

abbreviation current_session :: "world \<Rightarrow> nat option" where
  "current_session w \<equiv> m_session (mgr w)"

section \<open>Critical sections\<close>

definition on_mgr :: "(manager \<Rightarrow> manager) \<Rightarrow> world \<Rightarrow> world" where
  "on_mgr f w = w\<lparr>mgr := f (mgr w)\<rparr>"

definition set_state :: "string \<Rightarrow> string option \<Rightarrow> world \<Rightarrow> world" where
  "set_state s e = on_mgr (\<lambda>m. m\<lparr>m_state := s, m_last_err := e\<rparr>)"

definition set_last_health :: "time \<Rightarrow> world \<Rightarrow> world" where
  "set_last_health t = on_mgr (\<lambda>m. m\<lparr>m_last_health := t\<rparr>)"

text \<open>The local variable \<open>old := m.session; m.session = nil\<close> takes the session in hand.\<close>

definition take_session :: "nat \<Rightarrow> world \<Rightarrow> nat option \<times> world" where
  "take_session t w =
     (case m_session (mgr w) of None \<Rightarrow> (None, w)
      | Some s \<Rightarrow> (Some s, (on_mgr (\<lambda>m. m\<lparr>m_session := None\<rparr>) w)\<lparr>owner := (owner w)(s \<mapsto> t)\<rparr>))"

text \<open>\<open>SetDirectMode(true)\<close>: \<open>None\<close> when already paused, else the session to close.\<close>

definition pause_section :: "nat \<Rightarrow> world \<Rightarrow> nat option option \<times> world" where
  "pause_section t w =
     (if m_connection_paused (mgr w) then (None, w)
      else let (old, w1) = take_session t w;
               w2 = on_mgr (\<lambda>m. m\<lparr>m_direct_mode := True, m_connection_paused := True,
                      m_state := ''direct'', m_last_err := None, m_generation := m_generation m + 1\<rparr>) w1;
               w3 = cancel_opt (m_cancel_connect (mgr w2)) w2;
               w4 = cancel_opt (m_cancel_automatic (mgr w3)) w3
           in (Some old, on_mgr (\<lambda>m. m\<lparr>m_cancel_connect := None, m_cancel_automatic := None,
                 m_connect_attempt := m_connect_attempt m + 1, m_connecting_ip := []\<rparr>) w4))"

text \<open>\<open>SetDirectMode(false)\<close>: \<open>None\<close> when not paused, else the remembered selection.\<close>

definition resume_section :: "world \<Rightarrow> (string \<times> string \<times> string) option \<times> world" where
  "resume_section w =
     (if \<not> m_connection_paused (mgr w) then (None, w)
      else (Some (m_selection (mgr w), m_manual_ip (mgr w), m_manual_protocol (mgr w)),
            on_mgr (\<lambda>m. m\<lparr>m_connection_paused := False, m_state := ''connecting'',
              m_last_err := None\<rparr>) w))"

definition validate_forced :: "string list \<Rightarrow> node \<Rightarrow> string \<Rightarrow> string option" where
  "validate_forced drivers n protocol =
     (if protocol = [] then None
      else if protocol \<notin> set (n_protocols n)
      then Some (''node '' @ n_ip n @ '' does not support protocol '' @ protocol)
      else if protocol \<notin> set drivers then Some (''protocol '' @ protocol @ '' driver is unavailable'')
      else None)"

text \<open>The locked part of \<open>startCandidate\<close>: the connect context and the attempt's number.\<close>

definition begin_candidate :: "string \<Rightarrow> world \<Rightarrow> (ctx \<times> u64) \<times> world" where
  "begin_candidate ip w =
     (let w1 = cancel_opt (m_cancel_automatic (mgr w)) (on_mgr (\<lambda>m. m\<lparr>m_connection_paused := False\<rparr>) w);
          w2 = cancel_opt (m_cancel_connect (mgr w1)) (on_mgr (\<lambda>m. m\<lparr>m_cancel_automatic := None\<rparr>) w1);
          (c, w3) = with_cancel root_ctx w2;
          attempt = m_connect_attempt (mgr w3) + 1
      in ((c, attempt),
          on_mgr (\<lambda>m. m\<lparr>m_cancel_connect := Some c, m_connect_attempt := attempt,
            m_connecting_ip := ip, m_state := ''connecting'', m_last_err := None\<rparr>) w3))"

text \<open>The locked part of \<open>switchAutomatic\<close>: whether it may go on.\<close>

definition begin_automatic :: "ctx \<Rightarrow> world \<Rightarrow> bool \<times> world" where
  "begin_automatic c w =
     (if m_connection_paused (mgr w) then (False, w)
      else (True, on_mgr (\<lambda>m. m\<lparr>m_cancel_automatic := Some c\<rparr>) w))"

definition set_automatic :: "world \<Rightarrow> world" where
  "set_automatic =
     on_mgr (\<lambda>m. m\<lparr>m_selection := ''auto'', m_manual_ip := [], m_manual_protocol := []\<rparr>)"

definition finish_connect_attempt :: "u64 \<Rightarrow> string option \<Rightarrow> world \<Rightarrow> bool \<times> world" where
  "finish_connect_attempt attempt e w =
     (if m_connect_attempt (mgr w) \<noteq> attempt then (False, w)
      else (True, on_mgr (\<lambda>m.
        let m1 = m\<lparr>m_connecting_ip := [], m_cancel_connect := None\<rparr>
        in if e = None then m1
           else m1\<lparr>m_state := (if m_session m \<noteq> None then ''connected'' else ''error''),
                   m_last_err := e\<rparr>) w))"

definition db_io :: "ctx \<Rightarrow> inp \<Rightarrow> world \<Rightarrow> string option" where
  "db_io c i w = (case ctx_err w c of Some e \<Rightarrow> Some e | None \<Rightarrow> in_io i)"

text \<open>
  The locked part of \<open>install\<close>: \<open>None\<close> when refused, else the session it replaces, the
  new generation, and the manual selection to save.
\<close>

definition install_section ::
  "nat \<Rightarrow> node \<Rightarrow> string \<Rightarrow> string \<Rightarrow> u64 \<Rightarrow> string \<Rightarrow> inp \<Rightarrow> world \<Rightarrow>
   (nat option \<times> u64 \<times> string \<times> string) option \<times> world" where
  "install_section s n protocol selection expected forced i w =
     (if m_connection_paused (mgr w) \<or> expected \<noteq> 0 \<and> m_connect_attempt (mgr w) \<noteq> expected
      then (None, w)
      else
        let old_ip = n_ip (m_node (mgr w));
            (old, w1) = take_session (in_tid i) w;
            manual = (selection = ''manual'');
            w2 = (on_mgr (\<lambda>m. m\<lparr>m_session := Some s, m_node := n, m_protocol := protocol,
                   m_selection := selection, m_direct_mode := False,
                   m_manual_ip := (if manual then n_ip n else []),
                   m_manual_protocol := (if manual then forced else []),
                   m_state := ''connected'', m_last_err := None\<rparr>) w1)
                 \<lparr>owner := (owner w1)(s := None), was_installed := (was_installed w1)(s \<mapsto> m_closing (mgr w1))\<rparr>;
            w3 = (if old_ip \<noteq> [] \<and> old_ip \<noteq> n_ip n
                  then w2\<lparr>wdb := snd (delete_node_if_stale (db_io root_ctx i w2) old_ip (wdb w2))\<rparr>
                  else w2);
            w4 = on_mgr (\<lambda>m. m\<lparr>m_generation := m_generation m + 1\<rparr>) w3
        in (Some (old, m_generation (mgr w4), m_manual_ip (mgr w4), m_manual_protocol (mgr w4)), w4))"

text \<open>The locked part of \<open>failover\<close>: \<open>None\<close> when it does nothing, else the failed node's
  address and the session given up for direct routing.\<close>

definition failover_section ::
  "bool \<Rightarrow> nat option \<Rightarrow> string \<Rightarrow> nat \<Rightarrow> world \<Rightarrow> (string \<times> nat option) option \<times> world" where
  "failover_section fallback expected cause t w =
     (if expected \<noteq> None \<and> m_session (mgr w) \<noteq> expected then (None, w)
      else if m_connection_paused (mgr w) then (None, w)
      else let failed_ip = n_ip (m_node (mgr w));
               (failed, w1) = (if fallback then
                   (case take_session t w of (old, w1) \<Rightarrow>
                     (old, on_mgr (\<lambda>m. m\<lparr>m_direct_mode := True, m_state := ''connecting'',
                             m_generation := m_generation m + 1\<rparr>) w1))
                 else (None, w))
           in (Some (failed_ip, failed),
               on_mgr (\<lambda>m. m\<lparr>m_selection := ''auto'', m_manual_ip := [], m_manual_protocol := [],
                 m_last_err := Some cause\<rparr>) w1))"

text \<open>The two locked parts of \<open>Close\<close>.\<close>

definition close_section :: "nat \<Rightarrow> world \<Rightarrow> nat option \<times> world" where
  "close_section t w =
     (let (old, w1) = take_session t w;
          w2 = (on_mgr (\<lambda>m. m\<lparr>m_generation := m_generation m + 1\<rparr>) w1)\<lparr>swept := True\<rparr>;
          w3 = cancel_opt (m_cancel_connect (mgr w2)) w2;
          w4 = cancel_opt (m_cancel_automatic (mgr w3)) w3
      in (old, on_mgr (\<lambda>m. m\<lparr>m_cancel_connect := None, m_cancel_automatic := None,
            m_connect_attempt := m_connect_attempt m + 1, m_connecting_ip := []\<rparr>) w4))"

definition late_section :: "nat \<Rightarrow> world \<Rightarrow> nat option \<times> world" where
  "late_section t w =
     (let (old, w1) = take_session t w
      in (old, on_mgr (\<lambda>m. m\<lparr>m_generation := m_generation m + 1\<rparr>) w1))"

text \<open>\<open>runAsync\<close>: refused once \<open>Close\<close> has begun.\<close>

definition run_async :: "task \<Rightarrow> world \<Rightarrow> bool \<times> world" where
  "run_async t w =
     (if m_closing (mgr w) then (False, w)
      else (True, w\<lparr>async := async w + 1, spawned := spawned w @ [t]\<rparr>))"

section \<open>Sessions\<close>

text \<open>\<open>driver.Start\<close>: the outcome is the driver's, a success is a new open session.\<close>

definition driver_start :: "node \<Rightarrow> string \<Rightarrow> inp \<Rightarrow> world \<Rightarrow> nat result \<times> world" where
  "driver_start n protocol i w =
     (case in_start i n protocol of Some e \<Rightarrow> (Inl e, w)
      | None \<Rightarrow> let s = next_session w in
          (Inr s, w\<lparr>next_session := Suc s, open_sessions := insert s (open_sessions w),
                    owner := (owner w)(s \<mapsto> in_tid i), opened := (opened w)(s \<mapsto> (n, protocol))\<rparr>))"

definition close_session_section :: "nat \<Rightarrow> inp \<Rightarrow> world \<Rightarrow> string option \<times> world" where
  "close_session_section s i w =
     (in_close i, w\<lparr>open_sessions := open_sessions w - {s}, owner := (owner w)(s := None)\<rparr>)"

text \<open>\<open>probeSessionHealth\<close> (health.go): the HTTP exchange is the environment's, its
  outcome is judged here. An error comes with \<open>errors.Is(err, context.Canceled)\<close>.\<close>

definition probe_verdict :: "http_outcome \<Rightarrow> (string \<times> bool) option" where
  "probe_verdict r =
     (case r of RequestError e \<Rightarrow> Some (e, False)
      | ExchangeError e canceled \<Rightarrow> Some (''health check request: '' @ e, canceled)
      | Response code text \<Rightarrow>
          if code \<noteq> 204 then Some (''health check expected HTTP 204, got '' @ text, False) else None)"

definition probe_session :: "nat option \<Rightarrow> inp \<Rightarrow> world \<Rightarrow> (string \<times> bool) option \<times> world" where
  "probe_session session i w =
     (case session of None \<Rightarrow> (Some (''health check: no active VPN session'', False), w)
      | Some s \<Rightarrow> (case probe_verdict (in_probe i s) of
            Some e \<Rightarrow> (Some e, w)
          | None \<Rightarrow> (None, w\<lparr>probed := insert s (probed w)\<rparr>)))"

end
