(* ===== verification/VpnManager.thy ===== *)
theory VpnManager
  imports VpnState
begin

text \<open>
  The operations of the VPN manager as goroutine programs, \<open>src/internal/vpn/manager.go\<close>:
  between two actions any other goroutine may run. \<open>task_prog\<close> says what each goroutine
  started by \<open>runAsync\<close> runs, \<open>call_prog\<close> what other components call, and \<open>vpn_step\<close>
  interleaves them all.
\<close>

section \<open>Actions\<close>

definition lock :: "lock_id \<Rightarrow> unit act" where
  "lock l = await (\<lambda>i w. if locks w l = None
     then Some ((), w\<lparr>locks := (locks w)(l \<mapsto> in_tid i)\<rparr>) else None)"

definition unlock :: "lock_id \<Rightarrow> unit act" where
  "unlock l = modify (\<lambda>w. w\<lparr>locks := (locks w)(l := None)\<rparr>)"

definition locked :: "lock_id \<Rightarrow> 'a act \<Rightarrow> 'a act" where
  "locked l p = bind_prog (lock l) (\<lambda>_. bind_prog p (\<lambda>r. bind_prog (unlock l) (\<lambda>_. Ret r)))"

definition ctx_check :: "ctx \<Rightarrow> string option act" where
  "ctx_check c = ask (\<lambda>w. ctx_err w c)"

definition new_ctx :: "ctx \<Rightarrow> ctx act" where
  "new_ctx parent = atomic (\<lambda>_. with_cancel parent)"

definition cancel_act :: "ctx \<Rightarrow> unit act" where
  "cancel_act c = modify (cancel_ctx c)"

definition db_read :: "ctx \<Rightarrow> (string option \<Rightarrow> db \<Rightarrow> 'a) \<Rightarrow> 'a act" where
  "db_read c f = atomic (\<lambda>i w. (f (db_io c i w) (wdb w), w))"

definition db_write :: "ctx \<Rightarrow> (string option \<Rightarrow> time \<Rightarrow> db \<Rightarrow> unit result \<times> db) \<Rightarrow> unit result act" where
  "db_write c f = atomic (\<lambda>i w. case f (db_io c i w) (in_now i) (wdb w) of (r, d) \<Rightarrow> (r, w\<lparr>wdb := d\<rparr>))"

definition close_session :: "nat \<Rightarrow> string option act" where
  "close_session s = atomic (close_session_section s)"

definition close_opt :: "nat option \<Rightarrow> string option act" where
  "close_opt s = (case s of None \<Rightarrow> Ret None | Some s \<Rightarrow> close_session s)"

definition start_async :: "task \<Rightarrow> bool act" where
  "start_async t = atomic (\<lambda>_. run_async t)"

text \<open>The three \<open>SetMetadata\<close> calls that save the selection.\<close>

definition save_selection :: "ctx \<Rightarrow> string \<Rightarrow> string \<Rightarrow> string \<Rightarrow> unit act" where
  "save_selection c selection ip protocol =
     bind_prog (db_write c (\<lambda>io _. set_metadata io ''selection'' selection)) (\<lambda>_.
     bind_prog (db_write c (\<lambda>io _. set_metadata io ''manual_ip'' ip)) (\<lambda>_.
     bind_prog (db_write c (\<lambda>io _. set_metadata io ''manual_protocol'' protocol)) (\<lambda>_.
     Ret ())))"

section \<open>Connecting\<close>

fun try_protocols ::
  "ctx \<Rightarrow> node \<Rightarrow> bool \<Rightarrow> string list \<Rightarrow> string list \<Rightarrow> string list \<Rightarrow> (nat \<times> string) result act" where
  "try_protocols c n require_health drivers [] failures =
     Ret (Inl (if failures = [] then ''node has no enabled protocol with an available driver''
               else join ''; '' failures))"
| "try_protocols c n require_health drivers (p # ps) failures =
     bind_prog (ctx_check c) (\<lambda>ended. case ended of Some e \<Rightarrow> Ret (Inl e) | None \<Rightarrow>
       if p \<notin> set (n_protocols n) then try_protocols c n require_health drivers ps failures
       else if p \<notin> set drivers
       then try_protocols c n require_health drivers ps (failures @ [p @ '' driver is unavailable''])
       else bind_prog (atomic (driver_start n p)) (\<lambda>r. case r of
          Inl e \<Rightarrow> try_protocols c n require_health drivers ps (failures @ [p @ '': '' @ e])
        | Inr s \<Rightarrow>
            if \<not> require_health then Ret (Inr (s, p))
            else bind_prog (atomic (probe_session (Some s))) (\<lambda>verdict. case verdict of
                None \<Rightarrow> Ret (Inr (s, p))
              | Some (e, _) \<Rightarrow> bind_prog (close_session s) (\<lambda>_.
                  try_protocols c n require_health drivers ps
                    (failures @ [p @ '' candidate health check: '' @ e])))))"

definition connect_node :: "ctx \<Rightarrow> node \<Rightarrow> bool \<Rightarrow> string \<Rightarrow> (nat \<times> string) result act" where
  "connect_node c n require_health forced =
     (if (case parse_ip (n_ip n) of None \<Rightarrow> True | Some a \<Rightarrow> to4 a = None)
      then Ret (Inl (''node endpoint '' @ go_quote (n_ip n) @ '' is not IPv4''))
      else bind_prog (ask (\<lambda>w. (protocol_priority (conf w), m_drivers (mgr w)))) (\<lambda>(priority, drivers).
        case (if forced = [] then None else validate_forced drivers n forced) of
          Some e \<Rightarrow> Ret (Inl e)
        | None \<Rightarrow> try_protocols c n require_health drivers
            (if forced = [] then priority else [forced]) []))"

definition install :: "nat \<Rightarrow> node \<Rightarrow> string \<Rightarrow> string \<Rightarrow> u64 \<Rightarrow> string \<Rightarrow> bool act" where
  "install s n protocol selection expected forced =
     bind_prog (atomic (install_section s n protocol selection expected forced)) (\<lambda>r. case r of
       None \<Rightarrow> Ret False
     | Some (old, generation, manual_ip, manual_protocol) \<Rightarrow>
         bind_prog (close_opt old) (\<lambda>_.
         bind_prog (save_selection root_ctx selection manual_ip manual_protocol) (\<lambda>_.
         bind_prog (start_async (WaitTask s generation)) (\<lambda>_.
         Ret True))))"

text \<open>The two ends of \<open>activate\<close>: no connection, or a session to install or close.\<close>

definition connect_failed :: "ctx \<Rightarrow> bool \<Rightarrow> string \<Rightarrow> string option act" where
  "connect_failed c require_health e =
     bind_prog (if require_health then Ret False
                else bind_prog (ctx_check c) (\<lambda>ended. Ret (ended = None))) (\<lambda>report.
     if report then bind_prog (modify (set_state ''error'' (Some e))) (\<lambda>_. Ret (Some e))
     else Ret (Some e))"

definition install_connected ::
  "ctx \<Rightarrow> nat \<Rightarrow> node \<Rightarrow> string \<Rightarrow> string \<Rightarrow> bool \<Rightarrow> u64 \<Rightarrow> string \<Rightarrow> string option act" where
  "install_connected c s n protocol selection require_health expected forced =
     bind_prog (ctx_check c) (\<lambda>ended. case ended of
       Some e \<Rightarrow> bind_prog (close_session s) (\<lambda>_. Ret (Some e))
     | None \<Rightarrow> bind_prog (install s n protocol selection expected forced) (\<lambda>installed.
         if \<not> installed then bind_prog (close_session s) (\<lambda>_. Ret (Some err_canceled))
         else bind_prog (if require_health then atomic (\<lambda>i w. ((), set_last_health (in_now i) w))
                         else Ret ()) (\<lambda>_. Ret None)))"

definition activate :: "ctx \<Rightarrow> node \<Rightarrow> string \<Rightarrow> bool \<Rightarrow> u64 \<Rightarrow> string \<Rightarrow> string option act" where
  "activate c n selection require_health expected forced =
     locked SwitchMu (
       bind_prog (if require_health then Ret () else modify (set_state ''connecting'' None)) (\<lambda>_.
       bind_prog (connect_node c n require_health forced) (\<lambda>r. case r of
         Inl e \<Rightarrow> connect_failed c require_health e
       | Inr (s, protocol) \<Rightarrow>
           install_connected c s n protocol selection require_health expected forced)))"

section \<open>Automatic selection\<close>

fun try_nodes :: "ctx \<Rightarrow> node list \<Rightarrow> string list \<Rightarrow> string option act" where
  "try_nodes c [] failures =
     (let e = join ''; '' failures
      in bind_prog (modify (set_state ''error'' (Some e))) (\<lambda>_.
         Ret (Some (''connect to ranked VPN nodes: '' @ e))))"
| "try_nodes c (n # ns) failures =
     bind_prog (ctx_check c) (\<lambda>ended. case ended of Some e \<Rightarrow> Ret (Some e) | None \<Rightarrow>
     bind_prog (activate c n ''auto'' False 0 []) (\<lambda>r. case r of None \<Rightarrow> Ret None
     | Some failure \<Rightarrow>
         bind_prog (ctx_check c) (\<lambda>ended. case ended of Some e \<Rightarrow> Ret (Some e) | None \<Rightarrow>
         bind_prog (db_write c (\<lambda>io now. mark_failure io now (n_ip n) failure)) (\<lambda>_.
         try_nodes c ns (failures @ [n_ip n @ '': '' @ failure])))))"

text \<open>The attempts of \<open>switchAutomatic\<close>, in its own context.\<close>

definition switch_ranked :: "ctx \<Rightarrow> string option act" where
  "switch_ranked c =
     bind_prog (ask conf) (\<lambda>settings.
     bind_prog (db_read c (\<lambda>io. store_nodes io (selection_mode settings) 10 0)) (\<lambda>r. case r of
       Inl e \<Rightarrow> Ret (Some e)
     | Inr nodes \<Rightarrow>
         if nodes = [] then Ret (Some ''no filtered VPN nodes are available'')
         else try_nodes c nodes []))"

definition switch_automatic :: "ctx \<Rightarrow> string option act" where
  "switch_automatic parent =
     bind_prog (new_ctx parent) (\<lambda>c.
     bind_prog (atomic (\<lambda>_. begin_automatic c)) (\<lambda>go.
     if \<not> go then bind_prog (cancel_act c) (\<lambda>_. Ret None)
     else
       bind_prog (switch_ranked c) (\<lambda>result.
       bind_prog (cancel_act c) (\<lambda>_.
       bind_prog (modify (on_mgr (\<lambda>m. m\<lparr>m_cancel_automatic := None\<rparr>))) (\<lambda>_.
       Ret result)))))"

definition switch_automatic_locked :: "ctx \<Rightarrow> string option act" where
  "switch_automatic_locked c = locked AutoMu (switch_automatic c)"

section \<open>Failover\<close>

text \<open>What follows the locked part: the failed session is closed, its node marked, the
  automatic selection saved and a switch made.\<close>

definition failover_continue :: "ctx \<Rightarrow> string \<Rightarrow> string \<Rightarrow> nat option \<Rightarrow> unit act" where
  "failover_continue c cause failed_ip failed =
     bind_prog (close_opt failed) (\<lambda>_.
     bind_prog (if failed_ip = [] then Ret (Inr ())
                else db_write c (\<lambda>io now. mark_failure io now failed_ip cause)) (\<lambda>_.
     bind_prog (save_selection c ''auto'' [] []) (\<lambda>_.
     bind_prog (switch_automatic c) (\<lambda>_. Ret ()))))"

definition failover :: "ctx \<Rightarrow> nat option \<Rightarrow> string \<Rightarrow> unit act" where
  "failover c expected cause =
     locked FailoverMu (locked AutoMu (
       bind_prog (ask (\<lambda>w. fallback_to_direct (conf w))) (\<lambda>fallback.
       bind_prog (atomic (\<lambda>i. failover_section fallback expected cause (in_tid i))) (\<lambda>r. case r of
         None \<Rightarrow> Ret ()
       | Some (failed_ip, failed) \<Rightarrow> failover_continue c cause failed_ip failed))))"

text \<open>\<open>Failover\<close> and \<open>FailoverSession\<close>.\<close>

abbreviation failover_any :: "ctx \<Rightarrow> string \<Rightarrow> unit act" where
  "failover_any c cause \<equiv> failover c None cause"

abbreviation failover_session :: "ctx \<Rightarrow> nat \<Rightarrow> string \<Rightarrow> unit act" where
  "failover_session c expected cause \<equiv> failover c (Some expected) cause"

section \<open>Manual selection and direct mode\<close>

definition err_shutting_down :: string where
  "err_shutting_down = ''VPN manager is shutting down''"

definition start_candidate :: "node \<Rightarrow> string \<Rightarrow> string \<Rightarrow> string option act" where
  "start_candidate n selection forced =
     bind_prog (ask (\<lambda>w. validate_forced (m_drivers (mgr w)) n forced)) (\<lambda>invalid. case invalid of
       Some e \<Rightarrow> Ret (Some e)
     | None \<Rightarrow>
         bind_prog (atomic (\<lambda>_. begin_candidate (n_ip n))) (\<lambda>(c, attempt).
         bind_prog (start_async (CandidateTask c n selection forced attempt)) (\<lambda>started.
         if started then Ret None
         else bind_prog (cancel_act c) (\<lambda>_.
              bind_prog (atomic (\<lambda>_. finish_connect_attempt attempt (Some err_shutting_down))) (\<lambda>_.
              Ret (Some err_shutting_down))))))"

definition candidate_body :: "ctx \<Rightarrow> node \<Rightarrow> string \<Rightarrow> string \<Rightarrow> u64 \<Rightarrow> unit act" where
  "candidate_body c n selection forced attempt =
     bind_prog (locked AutoMu (
       bind_prog (ask (is_connect_attempt attempt)) (\<lambda>current.
       if \<not> current then Ret ()
       else bind_prog (activate c n selection True attempt forced) (\<lambda>e.
            bind_prog (atomic (\<lambda>_. finish_connect_attempt attempt e)) (\<lambda>_. Ret ()))))) (\<lambda>_.
     cancel_act c)"

definition select_manual :: "ctx \<Rightarrow> string \<Rightarrow> string \<Rightarrow> string option act" where
  "select_manual c ip protocol =
     bind_prog (db_read c (\<lambda>io. store_node io ip)) (\<lambda>r. case r of
       Inl e \<Rightarrow> Ret (Some e)
     | Inr n \<Rightarrow> start_candidate n ''manual'' (trim_space protocol))"

definition start_automatic :: "string option act" where
  "start_automatic =
     bind_prog (start_async (SwitchTask root_ctx)) (\<lambda>started.
     Ret (if started then None else Some err_shutting_down))"

definition go_automatic :: "ctx \<Rightarrow> unit act" where
  "go_automatic c = bind_prog (modify set_automatic) (\<lambda>_. save_selection c ''auto'' [] [])"

definition set_direct_mode :: "ctx \<Rightarrow> bool \<Rightarrow> string option act" where
  "set_direct_mode c enabled =
     (if enabled then
        bind_prog (atomic (\<lambda>i. pause_section (in_tid i))) (\<lambda>r. case r of
          None \<Rightarrow> Ret None
        | Some old \<Rightarrow> bind_prog (close_opt old) (\<lambda>_. Ret None))
      else
        bind_prog (atomic (\<lambda>_. resume_section)) (\<lambda>r. case r of
          None \<Rightarrow> Ret None
        | Some (selection, manual_ip, manual_protocol) \<Rightarrow>
            if selection = ''manual'' \<and> manual_ip \<noteq> [] then
              bind_prog (db_read c (\<lambda>io. store_node io manual_ip)) (\<lambda>r. case r of
                Inr n \<Rightarrow> start_candidate n ''manual'' manual_protocol
              | Inl _ \<Rightarrow> bind_prog (go_automatic c) (\<lambda>_. start_automatic))
            else start_automatic))"

definition reconnect_current :: "ctx \<Rightarrow> string option act" where
  "reconnect_current c =
     bind_prog (ask mgr) (\<lambda>m.
     if m_session m = None \<or> n_ip (m_node m) = [] \<or> m_protocol m = []
     then Ret (Some ''no active VPN node to reconnect'')
     else bind_prog (db_read c (\<lambda>io. store_node io (n_ip (m_node m)))) (\<lambda>r. case r of
         Inl e \<Rightarrow> Ret (Some e)
       | Inr n \<Rightarrow> start_candidate n (m_selection m) (m_protocol m)))"

section \<open>Start, refresh and shutdown\<close>

definition manager_start :: "ctx \<Rightarrow> string option act" where
  "manager_start c =
     bind_prog (ask mgr) (\<lambda>m.
     if m_selection m = ''manual'' \<and> m_manual_ip m \<noteq> [] then
       bind_prog (db_read c (\<lambda>io. store_node io (m_manual_ip m))) (\<lambda>r.
       bind_prog (case r of Inl e \<Rightarrow> Ret (Some e)
                  | Inr n \<Rightarrow> bind_prog (modify (set_state ''connecting'' None)) (\<lambda>_.
                      activate c n ''manual'' True 0 (m_manual_protocol m))) (\<lambda>e.
       if e = None then Ret None
       else bind_prog (go_automatic c) (\<lambda>_. switch_automatic_locked c)))
     else switch_automatic_locked c)"

definition after_refresh :: "ctx \<Rightarrow> unit act" where
  "after_refresh c =
     bind_prog (ask mgr) (\<lambda>m.
     if m_connection_paused m then Ret ()
     else if m_session m = None
     then bind_prog (start_async (SwitchTask root_ctx)) (\<lambda>_. Ret ())
     else bind_prog (ask conf) (\<lambda>settings.
       if \<not> follow_ranking_on_refresh settings then Ret ()
       else if m_selection m = ''auto'' then bind_prog (start_async (SwitchTask c)) (\<lambda>_. Ret ())
       else if n_ip (m_node m) = [] then Ret ()
       else bind_prog (db_read c (\<lambda>io. store_node io (n_ip (m_node m)))) (\<lambda>r. case r of
           Inr _ \<Rightarrow> Ret ()
         | Inl e \<Rightarrow> if is_not_found e
             then bind_prog (start_async (FailoverTask root_ctx ''active node disappeared after refresh'')) (\<lambda>_. Ret ())
             else Ret ())))"

definition manager_close :: "string list act" where
  "manager_close =
     bind_prog (modify (on_mgr (\<lambda>m. m\<lparr>m_closing := True\<rparr>))) (\<lambda>_.
     bind_prog (atomic (\<lambda>i. close_section (in_tid i))) (\<lambda>session.
     bind_prog (close_opt session) (\<lambda>e1.
     bind_prog (await (\<lambda>_ w. if async w = 0 then Some ((), w) else None)) (\<lambda>_.
     bind_prog (atomic (\<lambda>i. late_section (in_tid i))) (\<lambda>late.
     bind_prog (close_opt (if late = session then None else late)) (\<lambda>e2.
     Ret (List.map_filter id [e1, e2])))))))"

section \<open>Speed tests\<close>

text \<open>
  How \<open>TestNode\<close> judges a download: the speed and whether the time limit cut it short.
  Go divides in \<open>float64\<close>; the model divides exactly.
\<close>

definition download_speed :: "download \<Rightarrow> (int \<times> bool) result" where
  "download_speed d =
     (case d_http d of
        RequestError e \<Rightarrow> Inl e
      | ExchangeError e _ \<Rightarrow> Inl (''speed test download: '' @ e)
      | Response code text \<Rightarrow>
          if code \<noteq> 200 then Inl (''speed test download returned '' @ text)
          else let timed_out = d_copy_err d \<noteq> None \<and> d_deadline d
          in case (if timed_out then None else d_copy_err d) of
              Some e \<Rightarrow> Inl e
            | None \<Rightarrow>
                if d_elapsed d \<le> 0 \<or> d_bytes d = 0
                then Inl (if timed_out then ''speed test timed out before receiving data''
                          else ''speed test returned no data'')
                else Inr (d_bytes d * 8 * 1000000000 div d_elapsed d, timed_out))"

definition measure_session :: "ctx \<Rightarrow> string \<Rightarrow> nat \<Rightarrow> int result act" where
  "measure_session c ip s =
     bind_prog (atomic (\<lambda>i w. (download_speed (in_download i), w))) (\<lambda>outcome.
     bind_prog (case outcome of Inl e \<Rightarrow> Ret (Inl e)
       | Inr (bps, _) \<Rightarrow> bind_prog (db_write c (\<lambda>io now. save_measurement io now ip bps)) (\<lambda>saved.
           Ret (case saved of Inl e \<Rightarrow> Inl e | Inr _ \<Rightarrow> Inr bps))) (\<lambda>result.
     bind_prog (close_session s) (\<lambda>_. Ret result)))"

definition measure_node :: "ctx \<Rightarrow> string \<Rightarrow> int result act" where
  "measure_node c ip =
     bind_prog (db_read c (\<lambda>io. store_node io ip)) (\<lambda>r. case r of
       Inl e \<Rightarrow> Ret (Inl e)
     | Inr n \<Rightarrow> bind_prog (connect_node c n False []) (\<lambda>r. case r of
         Inl e \<Rightarrow> Ret (Inl e)
       | Inr (s, _) \<Rightarrow> measure_session c ip s))"

definition test_node :: "ctx \<Rightarrow> string \<Rightarrow> int result act" where
  "test_node c ip =
     bind_prog (measure_node c ip) (\<lambda>result. case result of Inr _ \<Rightarrow> Ret result
     | Inl e \<Rightarrow> bind_prog (ctx_check c) (\<lambda>ended.
         if ended \<noteq> None then Ret result
         else bind_prog (db_write c (\<lambda>io now. save_measurement_failure io now ip)) (\<lambda>saved.
           Ret (case saved of Inr _ \<Rightarrow> Inl e
             | Inl e2 \<Rightarrow> Inl (e @ [CHR 0x0A] @ ''save speed test failure: '' @ e2)))))"

section \<open>Health checks\<close>

text \<open>\<open>HealthChecker.check\<close> (health.go) and one round of the monitor's loop
  (\<open>service/healthcheck/start.go\<close>).\<close>

definition check_session :: "nat option \<Rightarrow> (string \<times> bool) option act" where
  "check_session session =
     bind_prog (atomic (probe_session session)) (\<lambda>e.
     bind_prog (atomic (\<lambda>i w. ((), set_last_health (in_now i) w))) (\<lambda>_. Ret e))"

definition health_round :: "ctx \<Rightarrow> unit act" where
  "health_round c =
     bind_prog (ask current_session) (\<lambda>session. case session of None \<Rightarrow> Ret ()
     | Some s \<Rightarrow> bind_prog (check_session (Some s)) (\<lambda>e. case e of
           Some (cause, False) \<Rightarrow> failover_session c s cause
         | _ \<Rightarrow> Ret ()))"

section \<open>Goroutines\<close>

text \<open>
  The goroutine \<open>install\<close> starts. \<open>Session.Wait\<close> returns when the session is closed or has ended
  by itself, or when its context has.
\<close>

definition wait_body :: "nat \<Rightarrow> u64 \<Rightarrow> unit act" where
  "wait_body s generation =
     bind_prog (await (\<lambda>i w. if s \<in> open_sessions w - ended_sessions w \<and> ctx_err w root_ctx = None then None
       else Some (in_wait i, w))) (\<lambda>e.
     bind_prog (ctx_check root_ctx) (\<lambda>ended. if ended \<noteq> None then Ret () else
     bind_prog (ask (is_generation generation)) (\<lambda>current. if \<not> current then Ret () else
     failover_session root_ctx s (case e of None \<Rightarrow> ''VPN session ended''
       | Some e \<Rightarrow> ''VPN session ended: '' @ e))))"

definition task_body :: "task \<Rightarrow> unit act" where
  "task_body t =
     (case t of
        SwitchTask c \<Rightarrow> bind_prog (switch_automatic_locked c) (\<lambda>_. Ret ())
      | CandidateTask c n selection forced attempt \<Rightarrow> candidate_body c n selection forced attempt
      | WaitTask s generation \<Rightarrow> wait_body s generation
      | FailoverTask c cause \<Rightarrow> failover_any c cause)"

definition task_prog :: "task \<Rightarrow> unit act" where
  "task_prog t = bind_prog (task_body t) (\<lambda>_. modify (\<lambda>w. w\<lparr>async := async w - 1\<rparr>))"

datatype call =
    Start ctx
  | SwitchAutomatic ctx
  | SelectManual ctx string string
  | SetDirectMode ctx bool
  | ReconnectCurrent ctx
  | AfterRefresh ctx
  | Failover ctx string
  | FailoverSession ctx nat string
  | HealthRound ctx
  | TestNode ctx string
  | Close

definition call_prog :: "call \<Rightarrow> unit act" where
  "call_prog k =
     (case k of
        Start c \<Rightarrow> bind_prog (manager_start c) (\<lambda>_. Ret ())
      | SwitchAutomatic c \<Rightarrow> bind_prog (switch_automatic_locked c) (\<lambda>_. Ret ())
      | SelectManual c ip protocol \<Rightarrow> bind_prog (select_manual c ip protocol) (\<lambda>_. Ret ())
      | SetDirectMode c enabled \<Rightarrow> bind_prog (set_direct_mode c enabled) (\<lambda>_. Ret ())
      | ReconnectCurrent c \<Rightarrow> bind_prog (reconnect_current c) (\<lambda>_. Ret ())
      | AfterRefresh c \<Rightarrow> after_refresh c
      | Failover c cause \<Rightarrow> failover_any c cause
      | FailoverSession c s cause \<Rightarrow> failover_session c s cause
      | HealthRound c \<Rightarrow> health_round c
      | TestNode c ip \<Rightarrow> bind_prog (test_node c ip) (\<lambda>_. Ret ())
      | Close \<Rightarrow> bind_prog manager_close (\<lambda>_. Ret ()))"

definition vpn_drain :: "world \<Rightarrow> world \<times> unit act list" where
  "vpn_drain w = (w\<lparr>spawned := []\<rparr>, map task_prog (spawned w))"

text \<open>Outside the manager: contexts and sessions end, the configuration and the database change.\<close>

definition vpn_env :: "world \<Rightarrow> world \<Rightarrow> bool" where
  "vpn_env w w' \<longleftrightarrow> (\<exists>errs cf d ss. w' = w\<lparr>ctx_errs := errs, conf := cf, wdb := d, ended_sessions := ss\<rparr>)"

definition vpn_step :: "world \<times> unit act list \<Rightarrow> world \<times> unit act list \<Rightarrow> bool" where
  "vpn_step = sys_step in_tid vpn_drain vpn_env (range call_prog)"

definition initial_world :: "manager \<Rightarrow> db \<Rightarrow> config \<Rightarrow> world" where
  "initial_world m d cf =
     \<lparr>mgr = m, wdb = d, conf = cf, ctx_errs = (\<lambda>_. None), next_ctx = 1, locks = (\<lambda>_. None),
      async = 0, spawned = [], next_session = 0, open_sessions = {}, owner = (\<lambda>_. None),
      opened = (\<lambda>_. None), probed = {}, ended_sessions = {}, was_installed = (\<lambda>_. None), swept = False\<rparr>"

end
