(* ===== verification/VpnGuarantee.thy ===== *)
theory VpnGuarantee
  imports VpnManager
begin

text \<open>
  What every goroutine of the VPN manager guarantees to the others, and the proof that
  each operation keeps it under any interleaving. \<open>world_inv\<close> is the invariant of the
  shared state, \<open>guar t\<close> what goroutine \<open>t\<close> may do to it, \<open>holds t L S\<close> says that \<open>t\<close>
  has the locks \<open>L\<close> and the sessions \<open>S\<close> in hand. The interpretation of
  \<open>rely_guarantee\<close> at the end gives the theorems about all reachable states.
\<close>

section \<open>Invariant and guarantee\<close>

definition is_ipv4 :: "string \<Rightarrow> bool" where
  "is_ipv4 s = (case parse_ip s of None \<Rightarrow> False | Some a \<Rightarrow> to4 a \<noteq> None)"

definition session_inv :: "world \<Rightarrow> bool" where
  "session_inv w \<longleftrightarrow> (\<forall>s. m_session (mgr w) = Some s \<longrightarrow>
     s \<in> open_sessions w \<and> owner w s = None \<and>
     opened w s = Some (m_node (mgr w), m_protocol (mgr w)) \<and>
     (m_selection (mgr w) = ''manual'' \<longrightarrow> s \<in> probed w))"

definition mode_inv :: "world \<Rightarrow> bool" where
  "mode_inv w \<longleftrightarrow> (m_connection_paused (mgr w) \<longrightarrow> m_direct_mode (mgr w)) \<and>
     (m_direct_mode (mgr w) \<longrightarrow> m_session (mgr w) = None)"

definition handle_inv :: "world \<Rightarrow> bool" where
  "handle_inv w \<longleftrightarrow>
     (\<forall>s. s \<in> open_sessions w \<longleftrightarrow> m_session (mgr w) = Some s \<or> owner w s \<noteq> None) \<and>
     (\<forall>s \<in> open_sessions w. s < next_session w) \<and>
     (\<forall>s n p. opened w s = Some (n, p) \<longrightarrow> s < next_session w \<and>
        is_ipv4 (n_ip n) \<and> p \<in> set (n_protocols n) \<and> p \<in> set (m_drivers (mgr w)))"

text \<open>
  A goroutine is only started to wait for a session that was installed before \<open>Close\<close> began,
  and after a \<open>Close\<close> has taken the installed session no such session is installed.
\<close>

definition history_inv :: "world \<Rightarrow> bool" where
  "history_inv w \<longleftrightarrow>
     (\<forall>s. m_session (mgr w) = Some s \<longrightarrow> was_installed w s \<noteq> None \<and> (swept w \<longrightarrow> was_installed w s \<noteq> Some False)) \<and>
     (\<forall>s. was_installed w s \<noteq> None \<longrightarrow> s < next_session w) \<and>
     (swept w \<longrightarrow> m_closing (mgr w)) \<and>
     (\<forall>s g. WaitTask s g \<in> set (spawned w) \<longrightarrow> was_installed w s = Some False)"

definition world_inv :: "world \<Rightarrow> bool" where
  "world_inv w \<longleftrightarrow> session_inv w \<and> mode_inv w \<and> handle_inv w \<and> history_inv w"

lemmas world_inv_defs = world_inv_def session_inv_def mode_inv_def handle_inv_def history_inv_def

definition only_own :: "nat \<Rightarrow> ('k \<Rightarrow> nat option) \<Rightarrow> ('k \<Rightarrow> nat option) \<Rightarrow> bool" where
  "only_own t f f' \<longleftrightarrow> (\<forall>k. f' k \<noteq> f k \<longrightarrow> f k \<in> {None, Some t} \<and> f' k \<in> {None, Some t})"

definition grows :: "world \<Rightarrow> world \<Rightarrow> bool" where
  "grows w w' \<longleftrightarrow> opened w \<subseteq>\<^sub>m opened w' \<and> probed w \<subseteq> probed w' \<and> next_session w \<le> next_session w' \<and>
     m_drivers (mgr w') = m_drivers (mgr w) \<and>
     (\<forall>s \<in> open_sessions w'. s \<in> open_sessions w \<or> next_session w \<le> s) \<and>
     (m_closing (mgr w) \<longrightarrow> m_closing (mgr w')) \<and> (swept w \<longrightarrow> swept w') \<and> was_installed w \<subseteq>\<^sub>m was_installed w'"

definition guar :: "nat \<Rightarrow> world \<Rightarrow> world \<Rightarrow> bool" where
  "guar t w w' \<longleftrightarrow> (world_inv w \<longrightarrow> world_inv w' \<and> grows w w') \<and>
     only_own t (locks w) (locks w') \<and> only_own t (owner w) (owner w') \<and>
     (\<forall>s. was_installed w s = None \<and> was_installed w' s \<noteq> None \<longrightarrow> owner w s = Some t)"

definition holds :: "nat \<Rightarrow> lock_id set \<Rightarrow> nat set \<Rightarrow> world \<Rightarrow> bool" where
  "holds t L S w \<longleftrightarrow> world_inv w \<and> (\<forall>l. locks w l = Some t \<longleftrightarrow> l \<in> L) \<and>
     (\<forall>s. owner w s = Some t \<longleftrightarrow> s \<in> S)"

definition idle :: "nat \<Rightarrow> world \<Rightarrow> bool" where
  "idle t = holds t {} {}"

fun rank :: "lock_id \<Rightarrow> nat" where
  "rank FailoverMu = 0"
| "rank AutoMu = 1"
| "rank SwitchMu = 2"

text \<open>A goroutine waits for a lock above all it has, or with no lock and no session in hand.\<close>

definition blocked :: "nat \<Rightarrow> world \<Rightarrow> bool" where
  "blocked t w \<longleftrightarrow>
     (\<exists>l u. locks w l = Some u \<and> u \<noteq> t \<and> (\<forall>l'. locks w l' = Some t \<longrightarrow> rank l' < rank l)) \<or>
     ((\<forall>l. locks w l \<noteq> Some t) \<and> (\<forall>s. owner w s \<noteq> Some t))"

abbreviation rely :: "nat \<Rightarrow> world \<Rightarrow> world \<Rightarrow> bool" where
  "rely t a b \<equiv> \<exists>s. s \<noteq> t \<and> guar s a b"

lemma only_own_refl [simp]: "only_own t f f"
  by (simp add: only_own_def)

lemma only_own_upd: "f k \<in> {None, Some t} \<Longrightarrow> v \<in> {None, Some t} \<Longrightarrow> only_own t f (f(k := v))"
  by (simp add: only_own_def)

lemma grows_refl [simp]: "grows w w"
  by (simp add: grows_def)

lemma grows_trans: "grows a b \<Longrightarrow> grows b c \<Longrightarrow> grows a c"
  by (auto simp: grows_def intro: map_le_trans)

text \<open>What goroutine \<open>t\<close> keeps of the state when it does not take up sessions itself.\<close>

definition inherits :: "nat \<Rightarrow> world \<Rightarrow> world \<Rightarrow> bool" where
  "inherits t w w' \<longleftrightarrow> grows w w' \<and>
     (\<forall>s. owner w' s = Some t \<longrightarrow> owner w s = Some t \<and> (was_installed w s = None \<longrightarrow> was_installed w' s = None))"

lemma grows_installed: "grows w w' \<Longrightarrow> was_installed w s = Some b \<Longrightarrow> was_installed w' s = Some b"
  unfolding grows_def map_le_def by (metis domI)

section \<open>Stable assertions\<close>

lemma only_own_other:
  "only_own s f f' \<Longrightarrow> s \<noteq> t \<Longrightarrow> f' k = Some t \<longleftrightarrow> f k = Some t"
  by (cases "f' k = f k") (auto simp: only_own_def)

lemma holds_stable: "holds t L S w \<Longrightarrow> s \<noteq> t \<Longrightarrow> guar s w w' \<Longrightarrow> holds t L S w' \<and> inherits t w w'"
proof -
  assume h: "holds t L S w" and ne: "s \<noteq> t" and g: "guar s w w'"
  have own: "owner w' k = Some t \<longleftrightarrow> owner w k = Some t" for k
    using g ne only_own_other [of s "owner w" "owner w'"] by (simp add: guar_def)
  have "was_installed w' k = None" if "owner w k = Some t" "was_installed w k = None" for k
    using g ne that unfolding guar_def by (metis option.inject)
  then show "holds t L S w' \<and> inherits t w w'"
    using h g ne own only_own_other [of s "locks w" "locks w'"] unfolding holds_def inherits_def guar_def by simp
qed

text \<open>An assertion of goroutine \<open>t\<close> that only grows once established.\<close>

definition lasting :: "nat \<Rightarrow> (world \<Rightarrow> bool) \<Rightarrow> bool" where
  "lasting t F \<longleftrightarrow> (\<forall>w w'. F w \<longrightarrow> inherits t w w' \<longrightarrow> F w')"

lemma stable_holds: "lasting t F \<Longrightarrow> stable (rely t) (\<lambda>w. holds t L S w \<and> F w)"
  unfolding stable_def using holds_stable by (metis lasting_def)

lemma lasting_True [simp]: "lasting t (\<lambda>_. True)" "lasting t (\<lambda>_. b)"
  by (simp_all add: lasting_def)

lemma lasting_conj: "lasting t F \<Longrightarrow> lasting t G \<Longrightarrow> lasting t (\<lambda>w. F w \<and> G w)"
  unfolding lasting_def by metis

lemma lasting_imp: "lasting t F \<Longrightarrow> lasting t (\<lambda>w. b \<longrightarrow> F w)"
  unfolding lasting_def by metis

lemma lasting_opened [simp]: "lasting t (\<lambda>w. opened w s = Some x)"
  by (auto simp: lasting_def inherits_def grows_def map_le_def dom_def)

lemma lasting_probed [simp]: "lasting t (\<lambda>w. s \<in> probed w)"
  by (auto simp: lasting_def inherits_def grows_def)

lemma lasting_drivers [simp]: "lasting t (\<lambda>w. m_drivers (mgr w) = ds)"
  by (auto simp: lasting_def inherits_def grows_def)

lemma lasting_grows: "(\<And>w w'. F w \<Longrightarrow> grows w w' \<Longrightarrow> F w') \<Longrightarrow> lasting t F"
  by (auto simp: lasting_def inherits_def)

text \<open>A session in hand that was never installed.\<close>

definition fresh :: "nat \<Rightarrow> nat \<Rightarrow> world \<Rightarrow> bool" where
  "fresh t s w \<longleftrightarrow> (owner w s = Some t \<longrightarrow> was_installed w s = None)"

lemma lasting_fresh [simp]: "lasting t (fresh t s)"
  by (auto simp: lasting_def inherits_def fresh_def)

lemma lasting_closed [simp]: "lasting t (\<lambda>w. s \<notin> open_sessions w \<and> s < next_session w)"
  by (auto simp: lasting_def inherits_def grows_def)

section \<open>Specifications of programs\<close>

text \<open>
  \<open>spec t L S F p Q\<close>: started with the locks \<open>L\<close> and the sessions \<open>S\<close> in hand where
  \<open>F\<close> holds, \<open>p\<close> keeps the guarantee, and where it returns \<open>Q\<close> holds.
\<close>

definition spec ::
  "nat \<Rightarrow> lock_id set \<Rightarrow> nat set \<Rightarrow> (world \<Rightarrow> bool) \<Rightarrow> 'a act \<Rightarrow> ('a \<Rightarrow> world \<Rightarrow> bool) \<Rightarrow> bool" where
  "spec t L S F p Q \<longleftrightarrow> (\<forall>w. holds t L S w \<and> F w \<longrightarrow>
     ok (\<lambda>i. in_tid i = t) (rely t) (guar t) (blocked t) Q p w)"

abbreviation keeps :: "nat \<Rightarrow> lock_id set \<Rightarrow> nat set \<Rightarrow> 'a act \<Rightarrow> bool" where
  "keeps t L S p \<equiv> spec t L S (\<lambda>_. True) p (\<lambda>_. holds t L S)"

lemma spec_Ret:
  "lasting t (G a) \<Longrightarrow> (\<And>w. holds t L S w \<Longrightarrow> F w \<Longrightarrow> G a w) \<Longrightarrow> S' a = S \<Longrightarrow>
   spec t L S F (Ret a) (\<lambda>a w. holds t L (S' a) w \<and> G a w)"
  unfolding spec_def by (intro allI impI ok_RetI stable_holds) auto

lemma spec_bind:
  assumes "spec t L S F p (\<lambda>a w. holds t (L' a) (S' a) w \<and> F' a w)"
    and "\<And>a. spec t (L' a) (S' a) (F' a) (k a) Q"
  shows "spec t L S F (bind_prog p k) Q"
  unfolding spec_def
proof (intro allI impI)
  fix w
  assume "holds t L S w \<and> F w"
  with assms(1) have "ok (\<lambda>i. in_tid i = t) (rely t) (guar t) (blocked t)
      (\<lambda>a w. holds t (L' a) (S' a) w \<and> F' a w) p w" by (simp add: spec_def)
  then have "ok (\<lambda>i. in_tid i = t) (rely t) (guar t) (blocked t)
      (\<lambda>a. ok (\<lambda>i. in_tid i = t) (rely t) (guar t) (blocked t) Q (k a)) p w"
    by (rule ok_weaken) (use assms(2) in \<open>simp add: spec_def\<close>)
  then show "ok (\<lambda>i. in_tid i = t) (rely t) (guar t) (blocked t) Q (bind_prog p k) w"
    by (rule ok_bind)
qed

lemma spec_seq:
  assumes "spec t L S F p (\<lambda>_. holds t L' S')" "\<And>a. spec t L' S' (\<lambda>_. True) (k a) Q"
  shows "spec t L S F (bind_prog p k) Q"
  by (rule spec_bind [where L' = "\<lambda>_. L'" and S' = "\<lambda>_. S'" and F' = "\<lambda>_ _. True"])
    (simp_all add: assms)

lemma spec_if: "(b \<Longrightarrow> spec t L S F p Q) \<Longrightarrow> (\<not> b \<Longrightarrow> spec t L S F q Q) \<Longrightarrow> spec t L S F (if b then p else q) Q"
  by simp

lemma spec_option:
  "spec t L S F p Q \<Longrightarrow> (\<And>a. spec t L S F (q a) Q) \<Longrightarrow> spec t L S F (case x of None \<Rightarrow> p | Some a \<Rightarrow> q a) Q"
  by (cases x) simp_all

lemma spec_post:
  assumes "spec t L S F p Q" "\<And>a w. Q a w \<Longrightarrow> Q' a w"
  shows "spec t L S F p Q'"
  unfolding spec_def
proof (intro allI impI)
  fix w
  assume "holds t L S w \<and> F w"
  with assms(1) have "ok (\<lambda>i. in_tid i = t) (rely t) (guar t) (blocked t) Q p w" by (simp add: spec_def)
  then show "ok (\<lambda>i. in_tid i = t) (rely t) (guar t) (blocked t) Q' p w"
    using assms(2) by (rule ok_weaken)
qed

lemma spec_pre:
  assumes "spec t L S F p Q" "\<And>w. holds t L S w \<Longrightarrow> F' w \<Longrightarrow> F w"
  shows "spec t L S F' p Q"
  using assms by (auto simp: spec_def)

lemma spec_frame:
  assumes p: "spec t L S (\<lambda>_. True) p Q" and F: "\<And>w w'. F w \<Longrightarrow> grows w w' \<Longrightarrow> F w'"
  shows "spec t L S F p (\<lambda>a w. Q a w \<and> F w)"
  unfolding spec_def
proof (intro allI impI)
  fix w
  assume w: "holds t L S w \<and> F w"
  have step: "world_inv b \<and> F b" if "guar s a b" "world_inv a \<and> F a" for s a b
    using that F by (auto simp: guar_def)
  have "ok (\<lambda>i. in_tid i = t) (rely t) (guar t) (blocked t) Q p w" using p w by (simp add: spec_def)
  then have "ok (\<lambda>i. in_tid i = t) (rely t) (guar t) (blocked t) (\<lambda>a w. Q a w \<and> (world_inv w \<and> F w)) p w"
    by (rule ok_frame) (use w step in \<open>auto simp: holds_def\<close>)
  then show "ok (\<lambda>i. in_tid i = t) (rely t) (guar t) (blocked t) (\<lambda>a w. Q a w \<and> F w) p w"
    by (rule ok_weaken) simp
qed

lemma some_input: "\<exists>i :: inp. in_tid i = t"
  by (rule exI [of _ "\<lparr>in_tid = t, in_now = 0, in_io = None, in_start = undefined, in_probe = undefined,
    in_wait = None, in_close = None, in_download = undefined\<rparr>"]) simp

lemma spec_atomic:
  assumes "lasting t F" "\<And>a. lasting t (F' a)"
    and step: "\<And>i w a w'. in_tid i = t \<Longrightarrow> holds t L S w \<Longrightarrow> F w \<Longrightarrow> f i w = (a, w') \<Longrightarrow>
      guar t w w' \<and> holds t (L' a) (S' a) w' \<and> F' a w'"
  shows "spec t L S F (atomic f) (\<lambda>a w. holds t (L' a) (S' a) w \<and> F' a w)"
  unfolding spec_def
proof (intro allI impI)
  fix w
  assume "holds t L S w \<and> F w"
  then show "ok (\<lambda>i. in_tid i = t) (rely t) (guar t) (blocked t)
      (\<lambda>a w. holds t (L' a) (S' a) w \<and> F' a w) (atomic f) w"
    by (intro ok_atomic [where P = "\<lambda>w. holds t L S w \<and> F w"] stable_holds assms some_input)
      (use step in auto)
qed

section \<open>Actions that leave sessions and locks alone\<close>

text \<open>A tame change leaves the handles alone and does not pause, install or take away.\<close>

definition tame :: "world \<Rightarrow> world \<Rightarrow> bool" where
  "tame w w' \<longleftrightarrow> locks w' = locks w \<and> owner w' = owner w \<and> open_sessions w' = open_sessions w \<and>
     opened w' = opened w \<and> probed w \<subseteq> probed w' \<and> next_session w' = next_session w \<and>
     m_session (mgr w') = m_session (mgr w) \<and> m_node (mgr w') = m_node (mgr w) \<and>
     m_protocol (mgr w') = m_protocol (mgr w) \<and> m_drivers (mgr w') = m_drivers (mgr w) \<and>
     m_direct_mode (mgr w') = m_direct_mode (mgr w) \<and>
     (m_connection_paused (mgr w') \<longrightarrow> m_connection_paused (mgr w)) \<and>
     (m_selection (mgr w') = ''manual'' \<longrightarrow> m_selection (mgr w) = ''manual'') \<and>
     (m_closing (mgr w) \<longrightarrow> m_closing (mgr w')) \<and> swept w' = swept w \<and> was_installed w' = was_installed w \<and>
     (\<forall>s g. WaitTask s g \<in> set (spawned w') \<longrightarrow> WaitTask s g \<in> set (spawned w))"

lemma tame_refl [simp]: "tame w w"
  by (simp add: tame_def)

lemma tame_trans: "tame a b \<Longrightarrow> tame b c \<Longrightarrow> tame a c"
  by (auto simp: tame_def)

lemma tame_parts:
  "tame w w' \<Longrightarrow> session_inv w \<Longrightarrow> session_inv w'" "tame w w' \<Longrightarrow> mode_inv w \<Longrightarrow> mode_inv w'"
  "tame w w' \<Longrightarrow> handle_inv w \<Longrightarrow> handle_inv w'"
  by (auto simp: tame_def session_inv_def)[1] (auto simp: tame_def mode_inv_def handle_inv_def)

lemma tame_history: "tame w w' \<Longrightarrow> history_inv w \<Longrightarrow> history_inv w'"
proof -
  assume u: "tame w w'" and h: "history_inv w"
  have e: "m_session (mgr w') = m_session (mgr w)" "next_session w' = next_session w" "swept w' = swept w"
    "was_installed w' = was_installed w" and c: "m_closing (mgr w) \<Longrightarrow> m_closing (mgr w')"
    and sp: "\<And>s g. WaitTask s g \<in> set (spawned w') \<Longrightarrow> WaitTask s g \<in> set (spawned w)"
    using u by (simp_all add: tame_def)
  show "history_inv w'" using h sp c unfolding history_inv_def e by blast
qed

lemma tame_inv: "tame w w' \<Longrightarrow> world_inv w \<Longrightarrow> world_inv w'"
  using tame_parts tame_history unfolding world_inv_def by blast

lemma tame_grows: "tame w w' \<Longrightarrow> grows w w'"
  by (auto simp: tame_def grows_def)

lemma tame_inherits: "tame w w' \<Longrightarrow> inherits t w w'"
  using tame_grows by (auto simp: inherits_def tame_def)

lemma tame_guar: "tame w w' \<Longrightarrow> guar t w w'"
  using tame_inv tame_grows by (auto simp: guar_def tame_def)

lemma guar_tame:
  assumes g: "guar t w v" and u: "tame v w'"
  shows "guar t w w'"
  unfolding guar_def
proof (intro conjI impI)
  assume "world_inv w"
  then have v: "world_inv v" "grows w v" using g by (simp_all add: guar_def)
  show "world_inv w'" by (rule tame_inv [OF u v(1)])
  show "grows w w'" by (rule grows_trans [OF v(2) tame_grows [OF u]])
qed (use g u in \<open>auto simp: guar_def tame_def\<close>)

lemma tame_holds: "tame w w' \<Longrightarrow> holds t L S w \<Longrightarrow> holds t L S w'"
  using tame_inv by (auto simp: holds_def tame_def)

lemma spec_tame:
  assumes "lasting t F" "\<And>i w. tame w (snd (f i w))"
  shows "spec t L S F (atomic f) (\<lambda>_ w. holds t L S w \<and> F w)"
proof (rule spec_atomic [where L' = "\<lambda>_. L" and S' = "\<lambda>_. S" and F' = "\<lambda>_. F", OF assms(1,1)])
  fix i w a w'
  assume "holds t L S w" "F w" "f i w = (a, w')"
  moreover from this(3) assms(2) [of w i] have "tame w w'" by simp
  ultimately show "guar t w w' \<and> holds t L S w' \<and> F w'"
    using tame_guar tame_holds tame_inherits assms(1) unfolding lasting_def by blast
qed

lemma cancel_opt_simps [simp]:
  "mgr (cancel_opt c w) = mgr w" "wdb (cancel_opt c w) = wdb w" "conf (cancel_opt c w) = conf w"
  "next_ctx (cancel_opt c w) = next_ctx w" "locks (cancel_opt c w) = locks w"
  "async (cancel_opt c w) = async w" "spawned (cancel_opt c w) = spawned w"
  "next_session (cancel_opt c w) = next_session w" "open_sessions (cancel_opt c w) = open_sessions w"
  "owner (cancel_opt c w) = owner w" "opened (cancel_opt c w) = opened w"
  "probed (cancel_opt c w) = probed w" "ended_sessions (cancel_opt c w) = ended_sessions w"
  "was_installed (cancel_opt c w) = was_installed w" "swept (cancel_opt c w) = swept w"
  by (simp_all add: cancel_opt_def cancel_ctx_def split: option.splits list.splits)

lemma on_mgr_simps [simp]:
  "mgr (on_mgr f w) = f (mgr w)" "wdb (on_mgr f w) = wdb w" "conf (on_mgr f w) = conf w"
  "ctx_errs (on_mgr f w) = ctx_errs w"
  "next_ctx (on_mgr f w) = next_ctx w" "locks (on_mgr f w) = locks w"
  "async (on_mgr f w) = async w" "spawned (on_mgr f w) = spawned w"
  "next_session (on_mgr f w) = next_session w" "open_sessions (on_mgr f w) = open_sessions w"
  "owner (on_mgr f w) = owner w" "opened (on_mgr f w) = opened w" "probed (on_mgr f w) = probed w"
  "ended_sessions (on_mgr f w) = ended_sessions w" "was_installed (on_mgr f w) = was_installed w" "swept (on_mgr f w) = swept w"
  by (simp_all add: on_mgr_def)

lemma tame_cancel: "tame w (cancel_ctx c w)"
  by (simp add: tame_def cancel_ctx_def split: list.splits)

lemma tame_with_cancel: "tame w (snd (with_cancel c w))"
  by (simp add: tame_def with_cancel_def)

lemma tame_set_state: "tame w (set_state s e w)"
  by (simp add: tame_def set_state_def)

lemma tame_set_last_health: "tame w (set_last_health t w)"
  by (simp add: tame_def set_last_health_def)

lemma tame_begin_candidate: "tame w (snd (begin_candidate ip w))"
  by (simp add: tame_def begin_candidate_def with_cancel_def Let_def)

lemma tame_begin_automatic: "tame w (snd (begin_automatic c w))"
  by (simp add: tame_def begin_automatic_def)

lemma tame_resume: "tame w (snd (resume_section w))"
  by (simp add: tame_def resume_section_def)

lemma tame_set_automatic: "tame w (set_automatic w)"
  by (simp add: tame_def set_automatic_def)

lemma tame_finish: "tame w (snd (finish_connect_attempt a e w))"
  by (simp add: tame_def finish_connect_attempt_def Let_def)

lemma tame_run_async: "(\<And>s g. k \<noteq> WaitTask s g) \<Longrightarrow> tame w (snd (run_async k w))"
  by (auto simp: tame_def run_async_def)

lemma tame_probe: "tame w (snd (probe_session s i w))"
  by (auto simp: tame_def probe_session_def split: option.splits)

lemma tame_db: "tame w (w\<lparr>wdb := d\<rparr>)"
  by (simp add: tame_def)

lemmas tame_actions =
  tame_cancel tame_with_cancel tame_set_state tame_set_last_health tame_begin_candidate
  tame_begin_automatic tame_resume tame_set_automatic tame_finish tame_run_async tame_probe tame_db

section \<open>Rules for programs that end with what they began with\<close>

lemma keeps_Ret: "keeps t L S (Ret a)"
  using spec_Ret [where G = "\<lambda>_ _. True" and S' = "\<lambda>_. S" and F = "\<lambda>_. True" and t = t and L = L and S = S and a = a]
  by simp

lemma keeps_bind:
  assumes "keeps t L S p" "\<And>a. keeps t L S (k a)"
  shows "keeps t L S (bind_prog p k)"
  using assms by (rule spec_seq)

lemma keeps_atomic: "(\<And>i w. tame w (snd (f i w))) \<Longrightarrow> keeps t L S (atomic f)"
proof -
  assume "\<And>i w. tame w (snd (f i w))"
  then show ?thesis using spec_tame [where F = "\<lambda>_. True" and t = t and f = f and L = L and S = S] by simp
qed

lemma keeps_modify: "(\<And>w. tame w (f w)) \<Longrightarrow> keeps t L S (modify f)"
  unfolding modify_def by (rule keeps_atomic) simp

lemma keeps_ask: "keeps t L S (ask f)"
  unfolding ask_def by (rule keeps_atomic) simp

lemma keeps_db_read: "keeps t L S (db_read c f)"
  unfolding db_read_def by (rule keeps_atomic) simp

lemma keeps_db_write: "keeps t L S (db_write c f)"
  unfolding db_write_def by (rule keeps_atomic) (simp add: tame_db split: prod.splits)

lemma keeps_start_async:
  "keeps t L S (start_async (SwitchTask c))" "keeps t L S (start_async (CandidateTask c n sel p a))"
  "keeps t L S (start_async (FailoverTask c x))"
  unfolding start_async_def by (rule keeps_atomic, simp add: tame_run_async)+

lemma start_wait_spec:
  "spec t L S (\<lambda>w. m_closing (mgr w) \<or> was_installed w s = Some False) (start_async (WaitTask s g))
    (\<lambda>_. holds t L S)"
proof -
  let ?F = "\<lambda>w. m_closing (mgr w) \<or> was_installed w s = Some False"
  have "spec t L S ?F (atomic (\<lambda>_. run_async (WaitTask s g))) (\<lambda>_ w. holds t L S w \<and> True)"
  proof (rule spec_atomic [where L' = "\<lambda>_. L" and S' = "\<lambda>_. S" and F' = "\<lambda>_ _. True"])
    show "lasting t ?F" by (rule lasting_grows) (auto simp: grows_def map_le_def dom_def)
    fix i :: inp and w a w'
    assume h: "holds t L S w" "?F w" and e: "run_async (WaitTask s g) w = (a, w')"
    show "guar t w w' \<and> holds t L S w' \<and> True"
    proof (cases "m_closing (mgr w)")
      case True
      then show ?thesis using e h(1) tame_guar [OF tame_refl] by (simp add: run_async_def)
    next
      case False
      then have w': "w' = w\<lparr>async := async w + 1, spawned := spawned w @ [WaitTask s g]\<rparr>"
        using e by (simp add: run_async_def)
      have "world_inv w'" using h False by (auto simp: w' holds_def world_inv_defs)
      then show ?thesis using h(1) by (auto simp: w' guar_def grows_def holds_def)
    qed
  qed simp_all
  then show ?thesis by (simp add: start_async_def)
qed

lemma keeps_if: "keeps t L S p \<Longrightarrow> keeps t L S q \<Longrightarrow> keeps t L S (if b then p else q)"
  by simp

lemma keeps_option: "keeps t L S p \<Longrightarrow> (\<And>a. keeps t L S (q a)) \<Longrightarrow> keeps t L S (case x of None \<Rightarrow> p | Some a \<Rightarrow> q a)"
  by (cases x) simp_all

lemma keeps_sum: "(\<And>a. keeps t L S (p a)) \<Longrightarrow> (\<And>a. keeps t L S (q a)) \<Longrightarrow> keeps t L S (case x of Inl a \<Rightarrow> p a | Inr a \<Rightarrow> q a)"
  by (cases x) simp_all

lemma keeps_prod: "(\<And>a b. keeps t L S (p a b)) \<Longrightarrow> keeps t L S (case x of (a, b) \<Rightarrow> p a b)"
  by (cases x) simp

lemma keeps_ctx_check: "keeps t L S (ctx_check c)"
  unfolding ctx_check_def by (rule keeps_ask)

lemma keeps_new_ctx: "keeps t L S (new_ctx c)"
  unfolding new_ctx_def by (rule keeps_atomic) (simp add: tame_with_cancel)

lemma keeps_cancel_act: "keeps t L S (cancel_act c)"
  unfolding cancel_act_def by (rule keeps_modify) (simp add: tame_cancel)

lemmas keeps_rules = keeps_Ret keeps_bind keeps_if keeps_option keeps_sum keeps_prod keeps_ask
  keeps_db_read keeps_db_write keeps_start_async keeps_ctx_check keeps_new_ctx keeps_cancel_act

lemma keeps_save_selection: "keeps t L S (save_selection c a b d)"
  unfolding save_selection_def by (intro keeps_rules)

lemma keeps_check_session: "keeps t L S (check_session s)"
  unfolding check_session_def
  by (intro keeps_rules keeps_atomic) (simp_all add: tame_actions)

section \<open>Locks\<close>

lemma lock_spec:
  assumes "\<And>l'. l' \<in> L \<Longrightarrow> rank l' < rank l"
  shows "spec t L S (\<lambda>_. True) (lock l) (\<lambda>_. holds t (insert l L) S)"
  unfolding spec_def lock_def
proof (intro allI impI, rule ok_await [where P = "holds t L S"])
  show "stable (rely t) (holds t L S)" for L
    using stable_holds [where F = "\<lambda>_. True"] by simp
  show "stable (rely t) (holds t (insert l L) S)" 
    using stable_holds [where F = "\<lambda>_. True"] by simp
  fix i w a w'
  assume h: "holds t L S w" and "in_tid i = t"
    and "(if locks w l = None then Some ((), w\<lparr>locks := (locks w)(l \<mapsto> in_tid i)\<rparr>) else None) = Some (a, w')"
  then have w': "w' = w\<lparr>locks := (locks w)(l \<mapsto> t)\<rparr>" and n: "locks w l = None" by (auto split: if_splits)
  have "world_inv w' = world_inv w" by (simp add: w' world_inv_defs)
  then show "guar t w w' \<and> holds t (insert l L) S w'"
    using h n by (auto simp: guar_def holds_def w' only_own_def grows_def)
next
  fix w
  assume h: "holds t L S w"
    and b: "\<And>i :: inp. in_tid i = t \<Longrightarrow>
      (if locks w l = None then Some ((), w\<lparr>locks := (locks w)(l \<mapsto> in_tid i)\<rparr>) else None) = None"
  obtain i :: inp where "in_tid i = t" using some_input by blast
  with b [of i] have "locks w l \<noteq> None" by (simp split: if_splits)
  moreover have "locks w l \<noteq> Some t" using h assms by (auto simp: holds_def)
  ultimately obtain u where "locks w l = Some u" "u \<noteq> t" by auto
  moreover have "\<forall>l'. locks w l' = Some t \<longrightarrow> rank l' < rank l" using h assms by (simp add: holds_def)
  ultimately show "blocked t w" unfolding blocked_def by blast
qed simp

lemma unlock_spec:
  assumes "l \<in> L" "lasting t F"
  shows "spec t L S F (unlock l) (\<lambda>_ w. holds t (L - {l}) S w \<and> F w)"
  unfolding unlock_def modify_def
proof (rule spec_atomic [where L' = "\<lambda>_. L - {l}" and S' = "\<lambda>_. S" and F' = "\<lambda>_. F", OF assms(2,2)])
  fix i w a w'
  assume h: "holds t L S w" "F w" and e: "((), w\<lparr>locks := (locks w)(l := None)\<rparr>) = (a, w')"
  have w': "w' = w\<lparr>locks := (locks w)(l := None)\<rparr>" using e by simp
  have g: "grows w w'" by (simp add: w' grows_def)
  have "inherits t w w'" using g by (simp add: w' inherits_def)
  then have F: "F w'" using h(2) assms(2) unfolding lasting_def by blast
  have inv: "world_inv w' = world_inv w" by (simp add: w' world_inv_defs)
  have "only_own t (locks w) (locks w')" using h(1) assms(1) by (simp add: w' holds_def only_own_upd)
  then have "guar t w w'" using g inv by (simp add: guar_def) (auto simp: w')
  moreover have "holds t (L - {l}) S w'" using h(1) inv by (auto simp: holds_def w')
  ultimately show "guar t w w' \<and> holds t (L - {l}) S w' \<and> F w'" using F by blast
qed

lemma keeps_locked:
  assumes p: "keeps t (insert l L) S p" and r: "\<And>l'. l' \<in> L \<Longrightarrow> rank l' < rank l"
  shows "keeps t L S (locked l p)"
  unfolding locked_def
proof (rule spec_seq [OF lock_spec [OF r]], assumption, rule spec_seq [OF p], rule spec_seq)
  have "l \<notin> L" using r by auto
  then show "spec t (insert l L) S (\<lambda>_. True) (unlock l) (\<lambda>_. holds t L S)"
    using unlock_spec [where F = "\<lambda>_. True" and L = "insert l L" and l = l and t = t and S = S] by simp
qed (rule keeps_Ret)

section \<open>Sessions in hand\<close>

definition started_for :: "nat \<Rightarrow> node \<Rightarrow> bool \<Rightarrow> nat \<times> string \<Rightarrow> world \<Rightarrow> bool" where
  "started_for t n health = (\<lambda>(s, p) w. (opened w s = Some (n, p) \<and> fresh t s w) \<and> (health \<longrightarrow> s \<in> probed w))"

lemma lasting_started [simp]: "lasting t (started_for t n health x)"
  by (cases x) (auto simp: started_for_def intro!: lasting_conj lasting_imp)

lemma driver_start_spec:
  assumes "is_ipv4 (n_ip n)" "p \<in> set (n_protocols n)" "p \<in> set ds"
  shows "spec t L {} (\<lambda>w. m_drivers (mgr w) = ds) (atomic (driver_start n p))
    (\<lambda>r w. holds t L (case r of Inl _ \<Rightarrow> {} | Inr s \<Rightarrow> {s}) w \<and>
       (m_drivers (mgr w) = ds \<and> (case r of Inl _ \<Rightarrow> True | Inr s \<Rightarrow> opened w s = Some (n, p) \<and> fresh t s w)))"
proof (rule spec_atomic)
  show "lasting t (\<lambda>w. m_drivers (mgr w) = ds \<and> (case r of Inl _ \<Rightarrow> True | Inr s \<Rightarrow> opened w s = Some (n, p) \<and> fresh t s w))" for r
    by (cases r) (simp_all add: lasting_conj)
next
  fix i w r w'
  assume i: "in_tid i = t" and h: "holds t L {} w" and d: "m_drivers (mgr w) = ds"
    and e: "driver_start n p i w = (r, w')"
  show "guar t w w' \<and> holds t L (case r of Inl _ \<Rightarrow> {} | Inr s \<Rightarrow> {s}) w' \<and>
      (m_drivers (mgr w') = ds \<and> (case r of Inl _ \<Rightarrow> True | Inr s \<Rightarrow> opened w' s = Some (n, p) \<and> fresh t s w'))"
  proof (cases "in_start i n p")
    case (Some x)
    then have "r = Inl x" "w' = w" using e by (simp_all add: driver_start_def)
    then show ?thesis using h d tame_guar [OF tame_refl] by simp
  next
    case None
    let ?s = "next_session w"
    have r: "r = Inr ?s" and w': "w' = w\<lparr>next_session := Suc ?s, open_sessions := insert ?s (open_sessions w),
        owner := (owner w)(?s \<mapsto> t), opened := (opened w)(?s \<mapsto> (n, p))\<rparr>"
      using e None i by (auto simp: driver_start_def Let_def)
    have inv: "world_inv w" using h by (simp add: holds_def)
    then have hi: "handle_inv w" by (simp add: world_inv_def)
    then have no: "?s \<notin> open_sessions w" by (auto simp: handle_inv_def)
    have o: "opened w ?s = None"
    proof (rule ccontr)
      assume "opened w ?s \<noteq> None"
      then obtain n' p' where "opened w ?s = Some (n', p')" by auto
      with hi have "?s < ?s" unfolding handle_inv_def by blast
      then show False by simp
    qed
    have own: "owner w ?s = None" "m_session (mgr w) \<noteq> Some ?s"
      using hi no unfolding handle_inv_def by blast+
    have "was_installed w ?s = None"
      using inv unfolding world_inv_def history_inv_def by (metis less_irrefl)
    note fresh = no own(1) o own(2) this
    have "session_inv w'" using inv fresh by (auto simp: w' world_inv_def session_inv_def)
    moreover have "mode_inv w'" using inv by (simp add: w' world_inv_def mode_inv_def)
    moreover have "handle_inv w'"
      using inv assms d fresh by (auto simp: w' world_inv_def handle_inv_def less_Suc_eq)
    moreover have "history_inv w'" using inv by (auto simp: w' world_inv_def history_inv_def less_Suc_eq)
    ultimately have "world_inv w'" by (simp add: world_inv_def)
    moreover have "grows w w'" using fresh by (auto simp: w' grows_def map_le_def)
    ultimately show ?thesis using h d fresh r
      by (auto simp: guar_def holds_def only_own_def w' fresh_def)
  qed
qed simp

lemma close_session_spec:
  assumes "s \<in> S" "lasting t F"
  shows "spec t L S F (close_session s) (\<lambda>_ w. holds t L (S - {s}) w \<and> F w)"
  unfolding close_session_def
proof (rule spec_atomic [where L' = "\<lambda>_. L" and S' = "\<lambda>_. S - {s}" and F' = "\<lambda>_. F", OF assms(2,2)])
  fix i w a w'
  assume h: "holds t L S w" "F w" and e: "close_session_section s i w = (a, w')"
  have w': "w' = w\<lparr>open_sessions := open_sessions w - {s}, owner := (owner w)(s := None)\<rparr>"
    using e by (simp add: close_session_section_def)
  have own: "owner w s = Some t" and inv: "world_inv w" using h assms by (auto simp: holds_def)
  then have ns: "m_session (mgr w) \<noteq> Some s" by (auto simp: world_inv_defs)
  have "session_inv w'" using inv ns by (auto simp: w' world_inv_def session_inv_def)
  moreover have "mode_inv w'" using inv by (simp add: w' world_inv_def mode_inv_def)
  moreover have "handle_inv w'" using inv ns by (auto simp: w' world_inv_def handle_inv_def)
  moreover have "history_inv w'" using inv by (simp add: w' world_inv_def history_inv_def)
  ultimately have v: "world_inv w'" by (simp add: world_inv_def)
  have g: "grows w w'" by (auto simp: w' grows_def)
  then have "inherits t w w'" by (auto simp: inherits_def w')
  then have "F w'" using h(2) assms(2) unfolding lasting_def by blast
  then show "guar t w w' \<and> holds t L (S - {s}) w' \<and> F w'"
    using v g h own by (auto simp: guar_def holds_def only_own_def w')
qed

lemma close_opt_spec:
  assumes "lasting t F"
  shows "spec t L (set_option s) F (close_opt s) (\<lambda>_ w. holds t L {} w \<and> F w)"
proof (cases s)
  case None
  then show ?thesis using spec_Ret [where G = "\<lambda>_. F" and F = F and S = "{}" and S' = "\<lambda>_. {}"] assms
    by (simp add: close_opt_def)
next
  case (Some a)
  then show ?thesis using close_session_spec [where s = a and S = "{a}" and F = F] assms by (simp add: close_opt_def)
qed

lemma close_opt_keeps: "spec t L (set_option s) (\<lambda>_. True) (close_opt s) (\<lambda>_. holds t L {})"
  using close_opt_spec [where F = "\<lambda>_. True"] by simp

text \<open>Taking the installed session in hand, with a further change of the flags.\<close>

lemma take_session_eq:
  "take_session t w = (m_session (mgr w),
     w\<lparr>mgr := (mgr w)\<lparr>m_session := None\<rparr>,
       owner := (case m_session (mgr w) of None \<Rightarrow> owner w | Some s \<Rightarrow> (owner w)(s \<mapsto> t))\<rparr>)"
  by (cases "m_session (mgr w)") (simp_all add: take_session_def on_mgr_def)

lemma take_guar:
  assumes h: "holds t L {} w" and s: "m_session (mgr w) = old"
    and w': "tame (w\<lparr>mgr := (mgr w)\<lparr>m_session := None, m_direct_mode := d, m_connection_paused := p\<rparr>,
       owner := (case old of None \<Rightarrow> owner w | Some s \<Rightarrow> (owner w)(s \<mapsto> t))\<rparr>) w'"
    and p: "p \<longrightarrow> d"
  shows "guar t w w' \<and> holds t L (set_option old) w'"
proof -
  let ?v = "w\<lparr>mgr := (mgr w)\<lparr>m_session := None, m_direct_mode := d, m_connection_paused := p\<rparr>,
       owner := (case old of None \<Rightarrow> owner w | Some s \<Rightarrow> (owner w)(s \<mapsto> t))\<rparr>"
  have inv: "world_inv w" using h by (simp add: holds_def)
  have own: "owner w a = None" if "old = Some a" for a
    using inv s that by (auto simp: world_inv_defs)
  have "session_inv ?v" by (simp add: session_inv_def)
  moreover have "mode_inv ?v" using p by (simp add: mode_inv_def)
  moreover have "handle_inv ?v"
    using inv s by (auto simp: world_inv_def handle_inv_def split: option.splits)
  moreover have "history_inv ?v" using inv by (simp add: world_inv_def history_inv_def)
  ultimately have v: "world_inv ?v" by (simp add: world_inv_def)
  have gv: "grows w ?v" by (simp add: grows_def)
  have "guar t w ?v" using v gv own
    by (auto simp: guar_def only_own_def split: option.splits)
  moreover have hv: "holds t L (set_option old) ?v"
    using v h by (auto simp: holds_def split: option.splits)
  ultimately show ?thesis using guar_tame [OF _ w'] tame_holds [OF w'] by blast
qed

lemma pause_spec:
  "spec t L {} (\<lambda>_. True) (atomic (\<lambda>i. pause_section (in_tid i)))
    (\<lambda>r. holds t L (case r of None \<Rightarrow> {} | Some old \<Rightarrow> set_option old))"
proof -
  have "spec t L {} (\<lambda>_. True) (atomic (\<lambda>i. pause_section (in_tid i)))
    (\<lambda>r w. holds t L (case r of None \<Rightarrow> {} | Some old \<Rightarrow> set_option old) w \<and> True)"
  proof (rule spec_atomic)
    fix i w r w'
    assume i: "in_tid i = t" and h: "holds t L {} w" and e: "pause_section (in_tid i) w = (r, w')"
    show "guar t w w' \<and> holds t L (case r of None \<Rightarrow> {} | Some old \<Rightarrow> set_option old) w' \<and> True"
    proof (cases "m_connection_paused (mgr w)")
      case True
      then show ?thesis using e h tame_guar [OF tame_refl] by (simp add: pause_section_def)
    next
      case False
      then have r: "r = Some (m_session (mgr w))" and
        "tame (w\<lparr>mgr := (mgr w)\<lparr>m_session := None, m_direct_mode := True, m_connection_paused := True\<rparr>,
          owner := (case m_session (mgr w) of None \<Rightarrow> owner w | Some s \<Rightarrow> (owner w)(s \<mapsto> t))\<rparr>) w'"
        using e i by (auto simp: pause_section_def take_session_eq Let_def tame_def split: option.splits)
      from take_guar [OF h refl this(2)] show ?thesis by (simp add: r)
    qed
  qed simp_all
  then show ?thesis by simp
qed

lemma failover_section_cases:
  fixes w :: world and t :: nat and cause :: string and expected :: "nat option" and fb :: bool
  defines "r \<equiv> fst (failover_section fb expected cause t w)"
    and "w' \<equiv> snd (failover_section fb expected cause t w)"
    and "v \<equiv> w\<lparr>mgr := (mgr w)\<lparr>m_session := None, m_direct_mode := True, m_connection_paused := False\<rparr>,
          owner := (case m_session (mgr w) of None \<Rightarrow> owner w | Some s \<Rightarrow> (owner w)(s \<mapsto> t))\<rparr>"
  obtains (no) "r = None" "w' = w"
  | (stay) a where "r = Some (a, None)" "tame w w'"
  | (direct) a where "r = Some (a, m_session (mgr w))" "tame v w'"
proof -
  let ?g = "expected \<noteq> None \<and> m_session (mgr w) \<noteq> expected \<or> m_connection_paused (mgr w)"
  show thesis
  proof (cases ?g)
    case True
    then show thesis by (intro no) (auto simp: r_def w'_def failover_section_def)
  next
    case g: False
    show thesis
    proof (cases fb)
      case False
      then show thesis using g
        by (intro stay [of "n_ip (m_node (mgr w))"]) (simp_all add: r_def w'_def failover_section_def tame_def)
    next
      case True
      then show thesis using g
        by (intro direct [of "n_ip (m_node (mgr w))"])
          (auto simp: r_def w'_def v_def failover_section_def take_session_eq tame_def)
    qed
  qed
qed

lemma failover_section_spec:
  "spec t L {} (\<lambda>_. True) (atomic (\<lambda>i. failover_section fb expected cause (in_tid i)))
    (\<lambda>r. holds t L (case r of None \<Rightarrow> {} | Some (_, failed) \<Rightarrow> set_option failed))"
proof -
  have "spec t L {} (\<lambda>_. True) (atomic (\<lambda>i. failover_section fb expected cause (in_tid i)))
    (\<lambda>r w. holds t L (case r of None \<Rightarrow> {} | Some (_, failed) \<Rightarrow> set_option failed) w \<and> True)"
  proof (rule spec_atomic)
    fix i w r w'
    assume i: "in_tid i = t" and h: "holds t L {} w"
      and "failover_section fb expected cause (in_tid i) w = (r, w')"
    then have e: "r = fst (failover_section fb expected cause t w)" "w' = snd (failover_section fb expected cause t w)"
      by simp_all
    show "guar t w w' \<and> holds t L (case r of None \<Rightarrow> {} | Some (_, failed) \<Rightarrow> set_option failed) w' \<and> True"
    proof (cases rule: failover_section_cases [where fb = fb and expected = expected and cause = cause and t = t and w = w])
      case no
      then show ?thesis using h tame_guar [OF tame_refl] by (simp add: e)
    next
      case (stay a)
      then show ?thesis using h tame_guar tame_holds by (simp add: e)
    next
      case (direct a)
      from take_guar [OF h refl direct(2)] show ?thesis by (simp add: e direct(1))
    qed
  qed simp_all
  then show ?thesis by simp
qed

lemma take_keeping_modes:
  assumes h: "holds t L {} w"
    and u: "tame (w\<lparr>mgr := (mgr w)\<lparr>m_session := None\<rparr>,
       owner := (case m_session (mgr w) of None \<Rightarrow> owner w | Some s \<Rightarrow> (owner w)(s \<mapsto> t))\<rparr>) w'"
  shows "guar t w w' \<and> holds t L (set_option (m_session (mgr w))) w'"
proof -
  have "m_connection_paused (mgr w) \<longrightarrow> m_direct_mode (mgr w)"
    using h by (simp add: holds_def world_inv_def mode_inv_def)
  from take_guar [OF h refl _ this, of w'] u show ?thesis by simp
qed

lemma sweep_guar:
  assumes "guar t w v" "holds t L S v" "m_session (mgr v) = None" "m_closing (mgr v)"
  shows "guar t w (v\<lparr>swept := True\<rparr>) \<and> holds t L S (v\<lparr>swept := True\<rparr>)"
proof -
  have "world_inv (v\<lparr>swept := True\<rparr>)"
    using assms by (simp add: holds_def world_inv_defs)
  then show ?thesis using assms by (auto simp: guar_def grows_def holds_def)
qed

lemma close_section_spec:
  "spec t L {} (\<lambda>w. m_closing (mgr w)) (atomic (\<lambda>i. close_section (in_tid i)))
    (\<lambda>r w. holds t L (set_option r) w \<and> (\<forall>s. r = Some s \<longrightarrow> s < next_session w))"
proof (rule spec_atomic)
  show "lasting t (\<lambda>w. m_closing (mgr w))" by (rule lasting_grows) (simp add: grows_def)
  show "lasting t (\<lambda>w. \<forall>s. r = Some s \<longrightarrow> s < next_session w)" for r :: "nat option"
    by (auto simp: lasting_def inherits_def grows_def)
  fix i w r w'
  assume i: "in_tid i = t" and h: "holds t L {} w" and c: "m_closing (mgr w)"
    and e: "close_section (in_tid i) w = (r, w')"
  define v where "v = w\<lparr>mgr := (mgr w)\<lparr>m_session := None\<rparr>,
      owner := (case m_session (mgr w) of None \<Rightarrow> owner w | Some s \<Rightarrow> (owner w)(s \<mapsto> t))\<rparr>"
  have "guar t w v \<and> holds t L (set_option (m_session (mgr w))) v"
    by (rule take_keeping_modes [OF h]) (simp add: v_def)
  moreover have "m_session (mgr v) = None" "m_closing (mgr v)" using c by (simp_all add: v_def)
  ultimately have g: "guar t w (v\<lparr>swept := True\<rparr>)"
    "holds t L (set_option (m_session (mgr w))) (v\<lparr>swept := True\<rparr>)"
    using sweep_guar by blast+
  have r: "r = m_session (mgr w)" and n: "next_session w' = next_session w" and u: "tame (v\<lparr>swept := True\<rparr>) w'"
    unfolding v_def using e i by (auto simp: close_section_def take_session_eq Let_def tame_def split: option.splits)
  have "s < next_session w" if "m_session (mgr w) = Some s" for s
    using h that by (auto simp: holds_def world_inv_defs)
  with guar_tame [OF g(1) u] tame_holds [OF u g(2)] n
  show "guar t w w' \<and> holds t L (set_option r) w' \<and> (\<forall>s. r = Some s \<longrightarrow> s < next_session w')"
    by (simp add: r)
qed

lemma late_section_spec:
  assumes "lasting t F" and nF: "\<And>w s. F w \<Longrightarrow> world_inv w \<Longrightarrow> m_session (mgr w) = Some s \<Longrightarrow> Some s \<noteq> first"
  shows "spec t L {} F (atomic (\<lambda>i. late_section (in_tid i)))
    (\<lambda>r w. holds t L (set_option (if r = first then None else r)) w \<and> True)"
proof (rule spec_atomic)
  fix i w r w'
  assume i: "in_tid i = t" and h: "holds t L {} w" and f: "F w"
    and e: "late_section (in_tid i) w = (r, w')"
  have r: "r = m_session (mgr w)" and
    u: "tame (w\<lparr>mgr := (mgr w)\<lparr>m_session := None\<rparr>,
      owner := (case m_session (mgr w) of None \<Rightarrow> owner w | Some s \<Rightarrow> (owner w)(s \<mapsto> t))\<rparr>) w'"
    using e i by (auto simp: late_section_def take_session_eq Let_def tame_def split: option.splits)
  have "r \<noteq> None \<Longrightarrow> r \<noteq> first" using nF [OF f] h by (auto simp: r holds_def)
  then show "guar t w w' \<and> holds t L (set_option (if r = first then None else r)) w' \<and> True"
    using take_keeping_modes [OF h u] by (cases "m_session (mgr w)") (simp_all add: r)
qed (simp_all add: assms)

lemma install_section_eq:
  assumes "\<not> (m_connection_paused (mgr w) \<or> expected \<noteq> 0 \<and> m_connect_attempt (mgr w) \<noteq> expected)"
  shows "\<exists>x. fst (install_section s n protocol selection expected forced i w) = Some (m_session (mgr w), x)"
    and "tame (w\<lparr>mgr := (mgr w)\<lparr>m_session := Some s, m_node := n, m_protocol := protocol,
          m_selection := selection, m_direct_mode := False, m_connection_paused := False\<rparr>,
        owner := (case m_session (mgr w) of None \<Rightarrow> owner w | Some a \<Rightarrow> (owner w)(a \<mapsto> in_tid i))(s := None),
        was_installed := (was_installed w)(s \<mapsto> m_closing (mgr w))\<rparr>)
      (snd (install_section s n protocol selection expected forced i w))"
  unfolding install_section_def if_not_P [OF assms] take_session_eq Let_def split_beta fst_conv snd_conv tame_def
  using assms by simp_all

lemma install_section_spec:
  "spec t L {s} (started_for t n (selection = ''manual'') (s, protocol))
     (atomic (install_section s n protocol selection expected forced))
     (\<lambda>r w. holds t L (case r of None \<Rightarrow> {s} | Some (old, _) \<Rightarrow> set_option old) w \<and>
       (r \<noteq> None \<longrightarrow> m_closing (mgr w) \<or> was_installed w s = Some False))"
proof -
  have "spec t L {s} (started_for t n (selection = ''manual'') (s, protocol))
     (atomic (install_section s n protocol selection expected forced))
     (\<lambda>r w. holds t L (case r of None \<Rightarrow> {s} | Some (old, _) \<Rightarrow> set_option old) w \<and>
       (r \<noteq> None \<longrightarrow> m_closing (mgr w) \<or> was_installed w s = Some False))"
  proof (rule spec_atomic)
    show "lasting t (\<lambda>w. r \<noteq> None \<longrightarrow> m_closing (mgr w) \<or> was_installed w s = Some False)"
      for r :: "(nat option \<times> u64 \<times> string \<times> string) option"
      by (intro lasting_imp lasting_grows) (auto simp: grows_def map_le_def dom_def)
    fix i w r w'
    assume i: "in_tid i = t" and h: "holds t L {s} w"
      and st: "started_for t n (selection = ''manual'') (s, protocol) w"
      and e: "install_section s n protocol selection expected forced i w = (r, w')"
    show "guar t w w' \<and> holds t L (case r of None \<Rightarrow> {s} | Some (old, _) \<Rightarrow> set_option old) w' \<and>
        (r \<noteq> None \<longrightarrow> m_closing (mgr w') \<or> was_installed w' s = Some False)"
    proof (cases "m_connection_paused (mgr w) \<or> expected \<noteq> 0 \<and> m_connect_attempt (mgr w) \<noteq> expected")
      case True
      then show ?thesis using e h tame_guar [OF tame_refl] by (simp add: install_section_def)
    next
      case False
      define old where "old = m_session (mgr w)"
      define v where "v = w\<lparr>mgr := (mgr w)\<lparr>m_session := Some s, m_node := n, m_protocol := protocol,
          m_selection := selection, m_direct_mode := False, m_connection_paused := False\<rparr>,
        owner := (case old of None \<Rightarrow> owner w | Some a \<Rightarrow> (owner w)(a \<mapsto> t))(s := None),
        was_installed := (was_installed w)(s \<mapsto> m_closing (mgr w))\<rparr>"
      have r: "\<exists>x. r = Some (old, x)" and u: "tame v w'"
        using install_section_eq [OF False, where s = s and n = n and protocol = protocol and
            selection = selection and forced = forced and i = i, unfolded i] e
        by (simp_all add: v_def old_def)
      have inv: "world_inv w" and own: "owner w s = Some t" using h by (auto simp: holds_def)
      have ns: "old \<noteq> Some s" and oa: "\<And>a. old = Some a \<Longrightarrow> owner w a = None"
        using inv own by (auto simp: world_inv_defs old_def)
      have hi: "handle_inv w" using inv by (simp add: world_inv_def)
      then have op: "s \<in> open_sessions w" using own unfolding handle_inv_def by blast
      have nw: "was_installed w s = None" using st own by (simp add: started_for_def fresh_def)
      have "session_inv v" using st op by (simp add: session_inv_def v_def started_for_def)
      moreover have "mode_inv v" by (simp add: mode_inv_def v_def)
      moreover have "handle_inv v"
        using hi ns op unfolding handle_inv_def old_def
        by (auto simp: v_def old_def split: option.splits)
      moreover have "history_inv v"
        using inv nw op by (auto simp: v_def world_inv_def history_inv_def handle_inv_def)
      ultimately have v: "world_inv v" by (simp add: world_inv_def)
      have gv: "grows w v" using nw by (auto simp: grows_def v_def map_le_def)
      have "only_own t (owner w) (owner v)"
        using own oa by (auto simp: only_own_def v_def split: option.splits if_splits)
      then have "guar t w v" using v gv own by (simp add: guar_def) (auto simp: v_def)
      moreover have hv: "holds t L (set_option old) v"
        using v h ns by (auto simp: holds_def v_def split: option.splits if_splits)
      ultimately have "guar t w w'" "holds t L (set_option old) w'"
        using guar_tame [OF _ u] tame_holds [OF u] by blast+
      moreover have "m_closing (mgr w') \<or> was_installed w' s = Some False"
        using u by (auto simp: tame_def v_def)
      ultimately show ?thesis using r by auto
    qed
  qed simp
  then show ?thesis .
qed

section \<open>Every program\<close>

lemma ipv4_guard:
  "(case parse_ip a of None \<Rightarrow> True | Some b \<Rightarrow> to4 b = None) \<longleftrightarrow> \<not> is_ipv4 a"
  by (simp add: is_ipv4_def split: option.splits)

definition connected_with :: "nat \<Rightarrow> node \<Rightarrow> bool \<Rightarrow> (nat \<times> string) result \<Rightarrow> world \<Rightarrow> bool" where
  "connected_with t n health r = (case r of Inl _ \<Rightarrow> (\<lambda>_. True) | Inr x \<Rightarrow> started_for t n health x)"

definition in_hand :: "(nat \<times> string) result \<Rightarrow> nat set" where
  "in_hand r = (case r of Inl _ \<Rightarrow> {} | Inr (s, _) \<Rightarrow> {s})"

lemma lasting_connected [simp]: "lasting t (connected_with t n health r)"
  by (cases r) (simp_all add: connected_with_def)

lemma probe_spec:
  assumes "lasting t F"
  shows "spec t L {s} F (atomic (probe_session (Some s)))
    (\<lambda>v w. holds t L {s} w \<and> (F w \<and> (v = None \<longrightarrow> s \<in> probed w)))"
proof (rule spec_atomic [where L' = "\<lambda>_. L" and S' = "\<lambda>_. {s}"])
  fix i w v w'
  assume h: "holds t L {s} w" "F w" and e: "probe_session (Some s) i w = (v, w')"
  have u: "tame w w'" using tame_probe [of w "Some s" i] e by simp
  have "v = None \<longrightarrow> s \<in> probed w'"
    using e by (auto simp: probe_session_def split: option.splits)
  then show "guar t w w' \<and> holds t L {s} w' \<and> (F w' \<and> (v = None \<longrightarrow> s \<in> probed w'))"
    using tame_guar [OF u] tame_holds [OF u h(1)] tame_inherits [OF u] h(2) assms by (auto simp: lasting_def)
qed (simp_all add: assms lasting_conj lasting_imp)

lemma try_protocols_spec:
  assumes "is_ipv4 (n_ip n)"
  shows "spec t L {} (\<lambda>w. m_drivers (mgr w) = ds) (try_protocols c n health ds ps failures)
    (\<lambda>r w. holds t L (in_hand r) w \<and> connected_with t n health r w)"
proof (induction ps arbitrary: failures)
  case Nil
  show ?case unfolding try_protocols.simps
    by (rule spec_Ret) (simp_all add: in_hand_def connected_with_def)
next
  case (Cons p ps)
  have chk: "spec t L {} (\<lambda>w. m_drivers (mgr w) = ds) (ctx_check c)
      (\<lambda>_ w. holds t L {} w \<and> m_drivers (mgr w) = ds)"
    unfolding ctx_check_def ask_def by (rule spec_tame) simp_all
  have closing: "spec t L {s} (\<lambda>w. m_drivers (mgr w) = ds \<and> (opened w s = Some (n, p) \<and> fresh t s w))
      (bind_prog (close_session s) (\<lambda>_. try_protocols c n health ds ps fs))
      (\<lambda>r w. holds t L (in_hand r) w \<and> connected_with t n health r w)" for s fs
  proof (rule spec_bind [where L' = "\<lambda>_. L" and S' = "\<lambda>_. {}" and F' = "\<lambda>_ w. m_drivers (mgr w) = ds"])
    have "spec t L {s} (\<lambda>w. m_drivers (mgr w) = ds) (close_session s)
        (\<lambda>_ w. holds t L ({s} - {s}) w \<and> m_drivers (mgr w) = ds)"
      by (rule close_session_spec) simp_all
    then show "spec t L {s} (\<lambda>w. m_drivers (mgr w) = ds \<and> (opened w s = Some (n, p) \<and> fresh t s w)) (close_session s)
        (\<lambda>_ w. holds t L {} w \<and> m_drivers (mgr w) = ds)"
      by (simp, elim spec_pre) simp
  qed (rule Cons.IH)
  have health: "spec t L {s} (\<lambda>w. m_drivers (mgr w) = ds \<and> (opened w s = Some (n, p) \<and> fresh t s w))
      (if \<not> health then Ret (Inr (s, p))
       else bind_prog (atomic (probe_session (Some s))) (\<lambda>verdict. case verdict of
                None \<Rightarrow> Ret (Inr (s, p))
              | Some (e, _) \<Rightarrow> bind_prog (close_session s) (\<lambda>_.
                  try_protocols c n health ds ps (failures @ [p @ '' candidate health check: '' @ e]))))
      (\<lambda>r w. holds t L (in_hand r) w \<and> connected_with t n health r w)" for s
  proof (cases health)
    case False
    then show ?thesis
      by (simp, intro spec_Ret) (simp_all add: in_hand_def connected_with_def started_for_def lasting_conj)
  next
    case True
    have verdict: "spec t L {s} (\<lambda>w. (m_drivers (mgr w) = ds \<and> (opened w s = Some (n, p) \<and> fresh t s w)) \<and> (v = None \<longrightarrow> s \<in> probed w))
      (case v of None \<Rightarrow> Ret (Inr (s, p))
              | Some (e, _) \<Rightarrow> bind_prog (close_session s) (\<lambda>_.
                  try_protocols c n health ds ps (failures @ [p @ '' candidate health check: '' @ e])))
      (\<lambda>r w. holds t L (in_hand r) w \<and> connected_with t n health r w)" for v :: "(string \<times> bool) option"
    proof (cases v)
      case None
      then show ?thesis
        by (simp, intro spec_Ret)
          (simp_all add: in_hand_def connected_with_def started_for_def lasting_conj lasting_imp)
    next
      case (Some x)
      then show ?thesis by (cases x) (simp add: closing)
    qed
    have "\<not> \<not> health" using True by simp
    then show ?thesis
      by (simp only: if_False, intro spec_bind [OF probe_spec [OF lasting_conj]])
        (rule lasting_drivers lasting_conj lasting_opened lasting_fresh verdict)+
  qed
  have start: "spec t L {} (\<lambda>w. m_drivers (mgr w) = ds)
      (bind_prog (atomic (driver_start n p)) (\<lambda>r. case r of
          Inl e \<Rightarrow> try_protocols c n health ds ps (failures @ [p @ '': '' @ e])
        | Inr s \<Rightarrow>
            if \<not> health then Ret (Inr (s, p))
            else bind_prog (atomic (probe_session (Some s))) (\<lambda>verdict. case verdict of
                None \<Rightarrow> Ret (Inr (s, p))
              | Some (e, _) \<Rightarrow> bind_prog (close_session s) (\<lambda>_.
                  try_protocols c n health ds ps
                    (failures @ [p @ '' candidate health check: '' @ e])))))
      (\<lambda>r w. holds t L (in_hand r) w \<and> connected_with t n health r w)"
    if "p \<in> set (n_protocols n)" "p \<in> set ds"
    by (rule spec_bind [OF driver_start_spec [OF assms that]])
      (auto simp: Cons.IH health split: sum.splits)
  show ?case unfolding try_protocols.simps
  proof (rule spec_bind [OF chk], intro spec_option spec_if Cons.IH)
    show "spec t L {} (\<lambda>w. m_drivers (mgr w) = ds) (Ret (Inl e))
        (\<lambda>r w. holds t L (in_hand r) w \<and> connected_with t n health r w)" for e
      by (rule spec_Ret) (simp_all add: in_hand_def connected_with_def)
  qed (rule start, simp_all only: not_not)
qed

lemma connect_node_spec:
  "spec t L {} (\<lambda>_. True) (connect_node c n health forced)
    (\<lambda>r w. holds t L (in_hand r) w \<and> connected_with t n health r w)"
proof -
  have err: "spec t L {} F (Ret (Inl e)) (\<lambda>r w. holds t L (in_hand r) w \<and> connected_with t n health r w)" for e F
    by (rule spec_Ret) (simp_all add: in_hand_def connected_with_def)
  have read: "spec t L {} (\<lambda>_. True) (ask (\<lambda>w. (protocol_priority (conf w), m_drivers (mgr w))))
      (\<lambda>a w. holds t L {} w \<and> m_drivers (mgr w) = snd a)"
    unfolding ask_def by (rule spec_atomic) (auto simp: tame_guar)
  show ?thesis
    unfolding connect_node_def ipv4_guard
  proof (intro spec_if err)
    assume "\<not> \<not> is_ipv4 (n_ip n)"
    then have ip: "is_ipv4 (n_ip n)" by simp
    show "spec t L {} (\<lambda>_. True) (bind_prog (ask (\<lambda>w. (protocol_priority (conf w), m_drivers (mgr w))))
        (\<lambda>(priority, drivers). case (if forced = [] then None else validate_forced drivers n forced) of
          Some e \<Rightarrow> Ret (Inl e)
        | None \<Rightarrow> try_protocols c n health drivers (if forced = [] then priority else [forced]) []))
        (\<lambda>r w. holds t L (in_hand r) w \<and> connected_with t n health r w)"
      by (rule spec_bind [OF read])
        (auto simp: split_beta intro!: spec_option err try_protocols_spec [OF ip])
  qed
qed

lemma install_spec:
  "spec t L {s} (started_for t n (selection = ''manual'') (s, protocol))
     (install s n protocol selection expected forced)
     (\<lambda>done. holds t L (if done then {} else {s}))"
  unfolding install_def
proof (rule spec_bind [OF install_section_spec])
  let ?F = "\<lambda>w. m_closing (mgr w) \<or> was_installed w s = Some False"
  have grow: "?F w \<Longrightarrow> grows w w' \<Longrightarrow> ?F w'" for w w' by (auto simp: grows_def map_le_def dom_def)
  fix r :: "(nat option \<times> u64 \<times> string \<times> string) option"
  have no: "spec t L {s} (\<lambda>_. True) (Ret False) (\<lambda>done. holds t L (if done then {} else {s}))"
    using spec_Ret [where S' = "\<lambda>done. if done then {} else {s}" and G = "\<lambda>_ _. True" and a = False] by simp
  have yes: "spec t L {} (\<lambda>_. True) (Ret True) (\<lambda>done. holds t L (if done then {} else {s}))"
    using spec_Ret [where S' = "\<lambda>done. if done then {} else {s}" and G = "\<lambda>_ _. True" and a = True] by simp
  show "spec t L (case r of None \<Rightarrow> {s} | Some (old, _) \<Rightarrow> set_option old) (\<lambda>w. r \<noteq> None \<longrightarrow> ?F w)
      (case r of None \<Rightarrow> Ret False
       | Some (old, generation, manual_ip, manual_protocol) \<Rightarrow>
         bind_prog (close_opt old) (\<lambda>_.
         bind_prog (save_selection root_ctx selection manual_ip manual_protocol) (\<lambda>_.
         bind_prog (start_async (WaitTask s generation)) (\<lambda>_. Ret True))))
      (\<lambda>done. holds t L (if done then {} else {s}))"
  proof (cases r)
    case None
    then show ?thesis using no by simp
  next
    case (Some x)
    obtain old g mi mp where x: "x = (old, g, mi, mp)" by (cases x)
    have c: "spec t L (set_option old) ?F (close_opt old) (\<lambda>_ w. holds t L {} w \<and> ?F w)"
      by (rule close_opt_spec [OF lasting_grows]) (rule grow)
    have d: "spec t L {} ?F (save_selection root_ctx selection mi mp) (\<lambda>_ w. holds t L {} w \<and> ?F w)"
      by (rule spec_frame [OF keeps_save_selection]) (rule grow)
    have "spec t L (set_option old) ?F (bind_prog (close_opt old) (\<lambda>_.
         bind_prog (save_selection root_ctx selection mi mp) (\<lambda>_.
         bind_prog (start_async (WaitTask s g)) (\<lambda>_. Ret True)))) (\<lambda>done. holds t L (if done then {} else {s}))"
      by (rule spec_bind [OF c], rule spec_bind [OF d], rule spec_seq [OF start_wait_spec yes])
    then show ?thesis unfolding Some x by simp
  qed
qed

lemma connect_failed_keeps: "keeps t L S (connect_failed c health e)"
  unfolding connect_failed_def by (intro keeps_rules keeps_modify) (simp add: tame_actions)

lemma close_one:
  assumes "lasting t F"
  shows "spec t L {s} F (close_session s) (\<lambda>_. holds t L {})"
  using close_session_spec [where s = s and S = "{s}" and L = L, OF _ assms] by (simp, elim spec_post) simp

lemma install_connected_spec:
  assumes "selection = ''manual'' \<longrightarrow> health"
  shows "spec t L {s} (started_for t n health (s, protocol))
    (install_connected c s n protocol selection health expected forced) (\<lambda>_. holds t L {})"
  unfolding install_connected_def
proof (rule spec_bind [where L' = "\<lambda>_. L" and S' = "\<lambda>_. {s}" and F' = "\<lambda>_. started_for t n health (s, protocol)"])
  let ?F = "started_for t n health (s, protocol)"
  show "spec t L {s} ?F (ctx_check c) (\<lambda>_ w. holds t L {s} w \<and> ?F w)"
    unfolding ctx_check_def ask_def by (rule spec_tame) simp_all
  have pre: "?F w \<Longrightarrow> started_for t n (selection = ''manual'') (s, protocol) w" for w
    using assms(1) by (auto simp: started_for_def)
  have inst: "spec t L {s} ?F (install s n protocol selection expected forced)
      (\<lambda>a w. holds t L (if a then {} else {s}) w \<and> True)"
    using spec_pre [OF install_spec pre] by simp
  have fin: "spec t L (if a then {} else {s}) (\<lambda>_. True)
     (if \<not> a then bind_prog (close_session s) (\<lambda>_. Ret (Some err_canceled))
      else bind_prog (if health then atomic (\<lambda>i w. ((), set_last_health (in_now i) w)) else Ret ())
             (\<lambda>_. Ret None)) (\<lambda>_. holds t L {})" for a
  proof (cases a)
    case True
    then show ?thesis
      by (simp only: if_True if_False not_True_eq_False, intro keeps_rules keeps_atomic)
        (simp add: tame_actions)
  next
    case False
    then show ?thesis by (simp, intro spec_seq [OF close_one keeps_Ret]) simp
  qed
  show "spec t L {s} ?F (case ended of
       Some e \<Rightarrow> bind_prog (close_session s) (\<lambda>_. Ret (Some e))
     | None \<Rightarrow> bind_prog (install s n protocol selection expected forced) (\<lambda>installed.
         if \<not> installed then bind_prog (close_session s) (\<lambda>_. Ret (Some err_canceled))
         else bind_prog (if health then atomic (\<lambda>i w. ((), set_last_health (in_now i) w))
                         else Ret ()) (\<lambda>_. Ret None))) (\<lambda>_. holds t L {})" for ended
    by (intro spec_option spec_bind [OF inst] fin spec_seq [OF close_one keeps_Ret]) simp
qed

lemma activate_keeps:
  assumes "selection = ''manual'' \<longrightarrow> health" "\<And>l. l \<in> L \<Longrightarrow> rank l < 2"
  shows "keeps t L {} (activate c n selection health expected forced)"
  unfolding activate_def
proof (rule keeps_locked, rule keeps_bind)
  let ?L = "insert SwitchMu L"
  show "keeps t ?L {} (if health then Ret () else modify (set_state ''connecting'' None))"
    by (intro keeps_rules keeps_modify) (simp add: tame_actions)
  have "spec t ?L (in_hand r) (connected_with t n health r)
      (case r of Inl e \<Rightarrow> connect_failed c health e
       | Inr (s, protocol) \<Rightarrow> install_connected c s n protocol selection health expected forced)
      (\<lambda>_. holds t ?L {})" for r
  proof (cases r)
    case (Inl e)
    show ?thesis unfolding Inl in_hand_def connected_with_def sum.case by (rule connect_failed_keeps)
  next
    case (Inr x)
    obtain s protocol where x: "x = (s, protocol)" by (cases x)
    show ?thesis unfolding Inr x in_hand_def connected_with_def sum.case prod.case
      by (rule install_connected_spec [OF assms(1)])
  qed
  then show "keeps t ?L {} (bind_prog (connect_node c n health forced) (\<lambda>r. case r of
         Inl e \<Rightarrow> connect_failed c health e
       | Inr (s, protocol) \<Rightarrow> install_connected c s n protocol selection health expected forced))"
    by (rule spec_bind [OF connect_node_spec])
qed (use assms(2) in auto)

lemma try_nodes_keeps:
  assumes "\<And>l. l \<in> L \<Longrightarrow> rank l < 2"
  shows "keeps t L {} (try_nodes c ns failures)"
proof (induction ns arbitrary: failures)
  case Nil
  show ?case unfolding try_nodes.simps Let_def
    by (intro keeps_rules keeps_modify) (simp add: tame_actions)
next
  case (Cons n ns)
  show ?case unfolding try_nodes.simps
    by (intro keeps_rules Cons.IH activate_keeps) (simp_all add: assms)
qed

lemma switch_automatic_keeps:
  assumes "\<And>l. l \<in> L \<Longrightarrow> rank l < 2"
  shows "keeps t L {} (switch_automatic c)"
  unfolding switch_automatic_def switch_ranked_def
  by (intro keeps_rules keeps_atomic keeps_modify try_nodes_keeps)
    (simp_all add: tame_actions assms, simp add: tame_def)

lemma switch_automatic_locked_keeps: "keeps t {} {} (switch_automatic_locked c)"
  unfolding switch_automatic_locked_def
  by (intro keeps_locked switch_automatic_keeps) auto

lemma failover_continue_spec:
  assumes "\<And>l. l \<in> L \<Longrightarrow> rank l < 2"
  shows "spec t L (set_option failed) (\<lambda>_. True) (failover_continue c cause ip failed) (\<lambda>_. holds t L {})"
  unfolding failover_continue_def
  by (rule spec_seq [OF close_opt_keeps], intro keeps_rules keeps_save_selection switch_automatic_keeps)
    (rule assms)

lemma failover_keeps: "keeps t {} {} (failover c expected cause)"
  unfolding failover_def
proof (rule keeps_locked, rule keeps_locked, rule keeps_bind [OF keeps_ask], rule spec_bind)
  let ?L = "{AutoMu, FailoverMu}"
  show "spec t ?L {} (\<lambda>_. True) (atomic (\<lambda>i. failover_section fb expected cause (in_tid i)))
      (\<lambda>r w. holds t ?L (case r of None \<Rightarrow> {} | Some (_, failed) \<Rightarrow> set_option failed) w \<and> True)" for fb
    using failover_section_spec by simp
  show "spec t ?L (case r of None \<Rightarrow> {} | Some (_, failed) \<Rightarrow> set_option failed) (\<lambda>_. True)
      (case r of None \<Rightarrow> Ret () | Some (ip, failed) \<Rightarrow> failover_continue c cause ip failed)
      (\<lambda>_. holds t ?L {})" for r
    by (cases r) (auto simp: keeps_Ret intro!: failover_continue_spec)
qed auto

lemma start_candidate_keeps: "keeps t L S (start_candidate n selection forced)"
  unfolding start_candidate_def
  by (intro keeps_rules keeps_atomic) (simp_all add: tame_actions)

lemma candidate_body_keeps: "keeps t {} {} (candidate_body c n selection forced attempt)"
  unfolding candidate_body_def
  by (intro keeps_rules keeps_locked keeps_atomic activate_keeps) (simp_all add: tame_actions)

lemma select_manual_keeps: "keeps t L S (select_manual c ip protocol)"
  unfolding select_manual_def by (intro keeps_rules start_candidate_keeps)

lemma start_automatic_keeps: "keeps t L S start_automatic"
  unfolding start_automatic_def by (intro keeps_rules)

lemma go_automatic_keeps: "keeps t L S (go_automatic c)"
  unfolding go_automatic_def by (intro keeps_rules keeps_modify keeps_save_selection) (simp add: tame_actions)

lemma set_direct_mode_keeps: "keeps t L {} (set_direct_mode c enabled)"
  unfolding set_direct_mode_def
proof (rule keeps_if)
  have "spec t L (case r of None \<Rightarrow> {} | Some old \<Rightarrow> set_option old) (\<lambda>_. True)
      (case r of None \<Rightarrow> Ret None | Some old \<Rightarrow> bind_prog (close_opt old) (\<lambda>_. Ret None))
      (\<lambda>_. holds t L {})" for r :: "nat option option"
    by (cases r) (auto intro: keeps_Ret spec_seq [OF close_opt_keeps])
  moreover have "spec t L {} (\<lambda>_. True) (atomic (\<lambda>i. pause_section (in_tid i)))
      (\<lambda>r w. holds t L (case r of None \<Rightarrow> {} | Some old \<Rightarrow> set_option old) w \<and> True)"
    using pause_spec by simp
  ultimately show "keeps t L {} (bind_prog (atomic (\<lambda>i. pause_section (in_tid i))) (\<lambda>r. case r of
          None \<Rightarrow> Ret None | Some old \<Rightarrow> bind_prog (close_opt old) (\<lambda>_. Ret None)))"
    by (rule spec_bind [rotated])
qed (intro keeps_rules keeps_atomic start_candidate_keeps go_automatic_keeps start_automatic_keeps,
    simp add: tame_actions)

lemma reconnect_current_keeps: "keeps t L S (reconnect_current c)"
  unfolding reconnect_current_def by (intro keeps_rules start_candidate_keeps)

lemma manager_start_keeps: "keeps t {} {} (manager_start c)"
  unfolding manager_start_def
  by (intro keeps_rules keeps_modify activate_keeps go_automatic_keeps switch_automatic_locked_keeps)
    (simp_all add: tame_actions)

lemma after_refresh_keeps: "keeps t L S (after_refresh c)"
  unfolding after_refresh_def by (intro keeps_rules)

lemma health_round_keeps: "keeps t {} {} (health_round c)"
proof -
  have v: "keeps t {} {} (case e of Some (cause, False) \<Rightarrow> failover c (Some s) cause | _ \<Rightarrow> Ret ())"
    for e :: "(string \<times> bool) option" and s
    by (auto simp: keeps_Ret failover_keeps split: option.split prod.split bool.split)
  show ?thesis unfolding health_round_def
    by (rule keeps_bind [OF keeps_ask], rule keeps_option [OF keeps_Ret])
      (rule keeps_bind [OF keeps_check_session v])
qed

lemma measure_session_spec:
  assumes "lasting t F"
  shows "spec t L {s} F (measure_session c ip s) (\<lambda>_. holds t L {})"
proof -
  have "keeps t L {s} (atomic (\<lambda>i w. (download_speed (in_download i), w)))"
    by (rule keeps_atomic) simp
  then have d: "spec t L {s} F (atomic (\<lambda>i w. (download_speed (in_download i), w))) (\<lambda>_. holds t L {s})"
    by (rule spec_pre) simp
  have k: "keeps t L {s} (case outcome of Inl e \<Rightarrow> Ret (Inl e)
       | Inr (bps, _) \<Rightarrow> bind_prog (db_write c (\<lambda>io now. save_measurement io now ip bps)) (\<lambda>saved.
           Ret (case saved of Inl e \<Rightarrow> Inl e | Inr _ \<Rightarrow> Inr bps)))" for outcome :: "string + int \<times> bool"
    by (intro keeps_rules)
  show ?thesis unfolding measure_session_def
    by (rule spec_seq [OF d], rule spec_seq [OF k], rule spec_seq [OF close_one keeps_Ret]) simp
qed

lemma measure_node_keeps: "keeps t L {} (measure_node c ip)"
  unfolding measure_node_def
proof (rule keeps_bind [OF keeps_db_read], rule keeps_sum [OF keeps_Ret], rule spec_bind [OF connect_node_spec])
  fix n and r :: "(nat \<times> string) result"
  show "spec t L (in_hand r) (connected_with t n False r)
      (case r of Inl e \<Rightarrow> Ret (Inl e) | Inr (s, x) \<Rightarrow> measure_session c ip s) (\<lambda>_. holds t L {})"
    unfolding in_hand_def connected_with_def
    by (cases r) (auto simp: split_beta intro!: keeps_Ret measure_session_spec)
qed

lemma test_node_keeps: "keeps t L {} (test_node c ip)"
  unfolding test_node_def by (intro keeps_rules measure_node_keeps)

lemma wait_async_spec:
  assumes "lasting t F"
  shows "spec t {} {} F (await (\<lambda>_ w. if async w = 0 then Some ((), w) else None))
    (\<lambda>_ w. holds t {} {} w \<and> F w)"
  unfolding spec_def
proof (intro allI impI, rule ok_await [where P = "\<lambda>w. holds t {} {} w \<and> F w"])
  fix w
  assume h: "holds t {} {} w \<and> F w"
    and b: "\<And>i :: inp. in_tid i = t \<Longrightarrow> (if async w = 0 then Some ((), w) else None) = None"
  obtain i :: inp where "in_tid i = t" using some_input by blast
  with b [of i] have "async w \<noteq> 0" by (simp split: if_splits)
  then show "blocked t w" using h by (simp add: blocked_def holds_def)
qed (use assms stable_holds in \<open>auto simp: tame_guar split: if_splits\<close>)

lemma manager_close_keeps: "keeps t {} {} manager_close"
  unfolding manager_close_def
proof (rule spec_bind)
  show "spec t {} {} (\<lambda>_. True) (modify (on_mgr (\<lambda>m. m\<lparr>m_closing := True\<rparr>)))
      (\<lambda>_ w. holds t {} {} w \<and> m_closing (mgr w))"
    unfolding modify_def
  proof (rule spec_atomic)
    show "lasting t (\<lambda>w. m_closing (mgr w))" by (rule lasting_grows) (simp add: grows_def)
    fix i :: inp and w :: world and a w'
    assume h: "holds t {} {} w" and e: "((), on_mgr (\<lambda>m. m\<lparr>m_closing := True\<rparr>) w) = (a, w')"
    have "tame w w'" using e by (auto simp: tame_def)
    then show "guar t w w' \<and> holds t {} {} w' \<and> m_closing (mgr w')"
      using h e tame_guar tame_holds by auto
  qed simp
next
  let ?F = "\<lambda>session w. \<forall>s. session = Some s \<longrightarrow> s \<notin> open_sessions w \<and> s < next_session w"
  have last: "lasting t (?F session)" for session :: "nat option"
    by (auto simp: lasting_def inherits_def grows_def)
  have closed: "spec t {} (set_option session) (\<lambda>w. \<forall>s. session = Some s \<longrightarrow> s < next_session w)
      (close_opt session) (\<lambda>_ w. holds t {} {} w \<and> ?F session w)" for session
  proof (cases session)
    case None
    then show ?thesis using keeps_Ret [of t "{}" "{}" None] by (simp add: close_opt_def)
  next
    case (Some a)
    have "spec t {} {a} (\<lambda>w. a < next_session w) (close_session a)
        (\<lambda>_ w. holds t {} {} w \<and> (a \<notin> open_sessions w \<and> a < next_session w))"
      unfolding close_session_def
    proof (rule spec_atomic [where L' = "\<lambda>_. {}" and S' = "\<lambda>_. {}"])
      fix i w e w'
      assume h: "in_tid i = t" "holds t {} {a} w" "a < next_session w"
        and e: "close_session_section a i w = (e, w')"
      have "spec t {} {a} (\<lambda>_. True) (close_session a) (\<lambda>_. holds t {} {})"
        by (rule close_one) simp
      then have "ok (\<lambda>i. in_tid i = t) (rely t) (guar t) (blocked t) (\<lambda>_. holds t {} {}) (close_session a) w"
        using h by (simp add: spec_def)
      then have "guar t w w' \<and> holds t {} {} w'"
        unfolding close_session_def atomic_def using ok_Act_step [of _ _ _ _ _ _ w i] h(1) e ok_Ret_post
        by fastforce
      then show "guar t w w' \<and> holds t {} {} w' \<and> (a \<notin> open_sessions w' \<and> a < next_session w')"
        using h e by (auto simp: close_session_section_def)
    qed (simp_all add: lasting_def inherits_def grows_def)
    then show ?thesis using Some by (simp add: close_opt_def)
  qed
  have late: "spec t {} {} (?F session) (atomic (\<lambda>i. late_section (in_tid i)))
      (\<lambda>r w. holds t {} (set_option (if r = session then None else r)) w \<and> True)" for session
    by (rule late_section_spec [OF last]) (auto simp: world_inv_defs)
  have fin: "spec t {} (set_option (if r = session then None else r)) (\<lambda>_. True)
      (bind_prog (close_opt (if r = session then None else r)) (\<lambda>e2. Ret (List.map_filter id [e1, e2])))
      (\<lambda>_. holds t {} {})" for r session e1
    by (rule spec_seq [OF close_opt_keeps keeps_Ret])
  show "spec t {} {} (\<lambda>w. m_closing (mgr w)) (bind_prog (atomic (\<lambda>i. close_section (in_tid i))) (\<lambda>session.
     bind_prog (close_opt session) (\<lambda>e1.
     bind_prog (await (\<lambda>_ w. if async w = 0 then Some ((), w) else None)) (\<lambda>_.
     bind_prog (atomic (\<lambda>i. late_section (in_tid i))) (\<lambda>late.
     bind_prog (close_opt (if late = session then None else late)) (\<lambda>e2.
     Ret (List.map_filter id [e1, e2]))))))) (\<lambda>_. holds t {} {})"
    by (rule spec_bind [OF close_section_spec], rule spec_bind [OF closed],
        rule spec_bind [OF wait_async_spec [OF last]], rule spec_bind [OF late fin])
qed

lemma wait_session_keeps:
  "keeps t {} {} (await (\<lambda>i w. if s \<in> open_sessions w - ended_sessions w \<and> ctx_err w root_ctx = None then None
     else Some (in_wait i, w)))"
  unfolding spec_def
proof (intro allI impI, rule ok_await [where P = "holds t {} {}"])
  show "stable (rely t) (holds t {} {})" "stable (rely t) (holds t {} {})"
    using stable_holds [where F = "\<lambda>_. True"] by simp_all
  show "blocked t w" if "holds t {} {} w" for w
    using that by (simp add: blocked_def holds_def)
qed (auto simp: tame_guar split: if_splits)

lemma task_prog_keeps: "keeps t {} {} (task_prog k)"
proof -
  have "keeps t {} {} (wait_body s g)" for s g
    unfolding wait_body_def by (intro keeps_rules wait_session_keeps failover_keeps)
  then have "keeps t {} {} (task_body k)"
    unfolding task_body_def
    by (cases k) (auto intro!: keeps_bind keeps_Ret switch_automatic_locked_keeps candidate_body_keeps failover_keeps)
  moreover have "tame w (w\<lparr>async := async w - 1\<rparr>)" for w by (simp add: tame_def)
  ultimately show ?thesis unfolding task_prog_def by (intro keeps_bind keeps_modify)
qed

lemma call_prog_keeps: "keeps t {} {} (call_prog k)"
  unfolding call_prog_def
  by (cases k) (auto intro!: keeps_bind keeps_Ret manager_start_keeps switch_automatic_locked_keeps
      select_manual_keeps set_direct_mode_keeps reconnect_current_keeps after_refresh_keeps
      failover_keeps health_round_keeps test_node_keeps manager_close_keeps)

section \<open>All interleavings\<close>

interpretation vpn: rely_guarantee in_tid vpn_drain vpn_env "range call_prog" guar blocked idle
proof unfold_locales
  show "idle t w'" if "idle t w" "s \<noteq> t" "guar s w w'" for t s w w'
    using holds_stable [of t "{}" "{}"] that by (simp add: idle_def)
  have "tame w w'" if "vpn_env w w'" for w w'
    using that by (auto simp: vpn_env_def tame_def)
  then show "guar s w w'" if "vpn_env w w'" for s w w' using that tame_guar by blast
  have "tame w w'" if "vpn_drain w = (w', new)" for w w' new
    using that by (auto simp: vpn_drain_def tame_def)
  then show "guar s w w'" if "vpn_drain w = (w', new)" for s w w' new using that tame_guar by blast
  show "ok (\<lambda>i. in_tid i = t) (rely t) (guar t) (blocked t) (\<lambda>_. idle t) p v"
    if "vpn_drain w = (w', new)" "p \<in> set new" "idle t v" for t v w w' new p
    using that task_prog_keeps [of t] by (auto simp: vpn_drain_def spec_def idle_def)
  show "ok (\<lambda>i. in_tid i = t) (rely t) (guar t) (blocked t) (\<lambda>_. idle t) p v"
    if "p \<in> range call_prog" "idle t v" for t v p
    using that call_prog_keeps [of t] by (auto simp: spec_def idle_def)
qed

definition vpn_reachable :: "string list \<Rightarrow> db \<Rightarrow> config \<Rightarrow> world \<times> unit act list \<Rightarrow> bool" where
  "vpn_reachable drivers d cf s \<longleftrightarrow> (\<exists>io1 io2 io3.
     vpn_step\<^sup>*\<^sup>* (initial_world (new_manager drivers io1 io2 io3 d) d cf, []) s)"

lemma initial_inv:
  "world_inv (initial_world (new_manager drivers io1 io2 io3 d) d cf)"
  by (auto simp: world_inv_defs initial_world_def new_manager_def Let_def split: sum.splits)

lemma initial_sound: "vpn.sound (initial_world (new_manager drivers io1 io2 io3 d) d cf, [])"
  using initial_inv by (simp add: vpn.sound_def idle_def holds_def) (simp add: initial_world_def)

lemma vpn_reachable_sound: "vpn_reachable drivers d cf s \<Longrightarrow> vpn.sound s"
  unfolding vpn_reachable_def vpn_step_def using vpn.sound_reachable initial_sound by blast

lemma guar_inv: "guar t w w' \<Longrightarrow> world_inv w \<Longrightarrow> world_inv w'"
  by (simp add: guar_def)

lemma vpn_reachable_inv:
  assumes "vpn_reachable drivers d cf (w, ts)"
  shows "world_inv w"
  using assms unfolding vpn_reachable_def vpn_step_def
  by (elim exE) (rule vpn.invariant [where I = world_inv, OF guar_inv _ initial_sound initial_inv])

definition finished :: "unit act \<Rightarrow> bool" where
  "finished p = (case p of Ret _ \<Rightarrow> True | Act _ \<Rightarrow> False)"

lemma busy_is_running:
  assumes "vpn_reachable drivers d cf (w, ts)" and "\<not> idle t w"
  shows "t < length ts \<and> \<not> finished (ts ! t)"
proof -
  have s: "vpn.sound (w, ts)" by (rule vpn_reachable_sound [OF assms(1)])
  then have t: "t < length ts" using assms(2) unfolding vpn.sound_def by (auto simp flip: not_le)
  have "\<not> finished (ts ! t)"
  proof
    assume "finished (ts ! t)"
    then have "ts ! t = Ret ()" by (simp add: finished_def split: prog.splits)
    from vpn.finished_idle [OF s t this] assms(2) show False by simp
  qed
  with t show ?thesis by simp
qed

lemma owner_busy: "owner w s = Some t \<Longrightarrow> \<not> idle t w"
  by (auto simp: idle_def holds_def)

lemma lock_holder_busy: "locks w l = Some t \<Longrightarrow> \<not> idle t w"
  by (auto simp: idle_def holds_def)

lemma sessions_in_hand:
  assumes "vpn_reachable drivers d cf (w, ts)"
  shows "(\<forall>s \<in> open_sessions w. m_session (mgr w) = Some s \<or>
      (\<exists>t < length ts. owner w s = Some t \<and> \<not> finished (ts ! t))) \<and>
    (list_all finished ts \<longrightarrow> open_sessions w = set_option (m_session (mgr w)))"
proof -
  have h: "handle_inv w" using vpn_reachable_inv [OF assms] by (simp add: world_inv_def)
  have "m_session (mgr w) = Some s \<or> (\<exists>t < length ts. owner w s = Some t \<and> \<not> finished (ts ! t))"
    if "s \<in> open_sessions w" for s
    using h that busy_is_running [OF assms owner_busy, of s] unfolding handle_inv_def
    by (cases "owner w s") auto
  moreover have "s \<in> open_sessions w" if "m_session (mgr w) = Some s" for s
    using h that unfolding handle_inv_def by blast
  ultimately show ?thesis by (auto simp: list_all_length)
qed

text \<open>
  The manager never deadlocks on its three switching locks: whenever one of them is held, some
  goroutine that holds one can move.
\<close>

lemma lock_holders_progress:
  assumes "vpn_reachable drivers d cf (w, ts)" and "locks w l = Some t"
  shows "\<exists>l' k. locks w l' = Some k \<and> can_move in_tid (w, ts) k"
proof (rule ccontr)
  assume stuck: "\<not> ?thesis"
  have wait: "\<exists>l2 u. locks w l2 = Some u \<and> rank l1 < rank l2" if l1: "locks w l1 = Some k" for l1 k
  proof -
    have k: "k < length ts" "\<not> finished (ts ! k)" using busy_is_running [OF assms(1) lock_holder_busy [OF l1]] by auto
    then obtain f where "ts ! k = Act f" by (auto simp: finished_def split: prog.splits)
    with vpn.moves_or_blocked [OF vpn_reachable_sound [OF assms(1)] k(1)] stuck l1
    have "blocked k w" by blast
    with l1 show ?thesis by (auto simp: blocked_def)
  qed
  have "\<exists>l2 u. locks w l2 = Some u \<and> n \<le> rank l2" for n
  proof (induction n)
    case 0
    then show ?case using assms(2) by auto
  next
    case (Suc n)
    then obtain l2 u where "locks w l2 = Some u" "n \<le> rank l2" by blast
    with wait [of l2 u] show ?case by (metis Suc_leI le_less_trans)
  qed
  from this [of 3] obtain l2 where "3 \<le> rank l2" by blast
  then show False by (cases l2) simp_all
qed

section \<open>Properties\<close>

text \<open>
  C1: No interleaving of the manager's operations leaks a VPN session: an open session is
  the installed one, or a goroutine that is still running has it in hand, to install or to
  close it. Once all goroutines have returned, at most the installed session is open.
\<close>

theorem no_session_leak:
  assumes "vpn_reachable drivers d cf (w, ts)"
  shows "(\<forall>s \<in> open_sessions w. m_session (mgr w) = Some s \<or>
      (\<exists>t < length ts. owner w s = Some t \<and> \<not> finished (ts ! t))) \<and>
    (list_all finished ts \<longrightarrow> open_sessions w = set_option (m_session (mgr w)))"
  using assms by (rule sessions_in_hand)

text \<open>
  C5: In every reachable state, while connections are paused traffic is routed directly,
  and direct routing means that no VPN session is installed.
\<close>

theorem paused_means_direct:
  assumes "vpn_reachable drivers d cf (w, ts)"
  shows "(m_connection_paused (mgr w) \<longrightarrow> m_direct_mode (mgr w)) \<and>
    (m_direct_mode (mgr w) \<longrightarrow> m_session (mgr w) = None)"
  using vpn_reachable_inv [OF assms] by (simp add: world_inv_def mode_inv_def)

text \<open>
  C19: In every reachable state the installed session is open and was started for exactly
  the node and protocol the manager reports: an IPv4 node that offers the protocol, for
  which a driver is registered. A manually selected session has passed its health check.
\<close>

theorem installed_session_valid:
  assumes "vpn_reachable drivers d cf (w, ts)" and "m_session (mgr w) = Some s"
  shows "s \<in> open_sessions w \<and> opened w s = Some (m_node (mgr w), m_protocol (mgr w)) \<and>
    is_ipv4 (n_ip (m_node (mgr w))) \<and> m_protocol (mgr w) \<in> set (n_protocols (m_node (mgr w))) \<and>
    m_protocol (mgr w) \<in> set (m_drivers (mgr w)) \<and>
    (m_selection (mgr w) = ''manual'' \<longrightarrow> s \<in> probed w)"
proof -
  have i: "session_inv w" "handle_inv w" using vpn_reachable_inv [OF assms(1)] by (simp_all add: world_inv_def)
  then have "opened w s = Some (m_node (mgr w), m_protocol (mgr w))"
    using assms(2) by (simp add: session_inv_def)
  with i assms(2) show ?thesis unfolding session_inv_def handle_inv_def by blast
qed

section \<open>A schedule\<close>

definition sample_vpn_db :: db where
  "sample_vpn_db = empty_db\<lparr>rows := [incoming_row empty_db [] (sample_node ''1.2.3.4'' 5)]\<rparr>"

definition sample_world :: world where
  "sample_world = initial_world (new_manager [protocol_sstp] None None None sample_vpn_db)
     sample_vpn_db (default_config ''h'' ''s'')"

definition calm :: "nat \<Rightarrow> inp" where
  "calm t = \<lparr>in_tid = t, in_now = 0, in_io = None, in_start = (\<lambda>_ _. None),
     in_probe = (\<lambda>_. Response 204 ''No Content''), in_wait = None, in_close = None,
     in_download = \<lparr>d_http = Response 200 ''OK'', d_bytes = 8, d_copy_err = None, d_deadline = False,
       d_elapsed = 1000000000\<rparr>\<rparr>"

text \<open>\<open>k\<close> actions of the startup switch, undisturbed.\<close>

definition sample_run :: "nat \<Rightarrow> world \<times> unit act list" where
  "sample_run k = fold (sys_run in_tid vpn_drain) (replicate k (calm 0))
     (sample_world, [call_prog (Start root_ctx)])"

lemma sample_run_reachable:
  "vpn_reachable [protocol_sstp] sample_vpn_db (default_config ''h'' ''s'') (sample_run k)"
proof -
  have "vpn_step (sample_world, []) (sample_world, [call_prog (Start root_ctx)])"
    using sys_step.call [of "call_prog (Start root_ctx)" "range call_prog" in_tid vpn_drain vpn_env sample_world "[]"]
    by (simp add: vpn_step_def)
  then have "vpn_step\<^sup>*\<^sup>* (sample_world, []) (sample_run k)"
    unfolding vpn_step_def sample_run_def by (rule converse_rtranclp_into_rtranclp) (rule sys_runs_steps)
  then show ?thesis unfolding vpn_reachable_def sample_world_def by blast
qed

lemma sample_run_started:
  "let w = fst (sample_run 15) in (m_session (mgr w), 0 \<in> open_sessions w, owner w 0, locks w AutoMu)
    = (None, True, Some 0, Some 0)"
  by code_simp

lemma sample_run_installed: "m_session (mgr (fst (sample_run 17))) = Some 0"
  by code_simp

lemma no_session_leak_witness:
  "\<exists>t < length (snd (sample_run 15)). owner (fst (sample_run 15)) 0 = Some t \<and>
     \<not> finished (snd (sample_run 15) ! t)"
  using no_session_leak [of _ _ _ "fst (sample_run 15)" "snd (sample_run 15)",
      unfolded prod.collapse, OF sample_run_reachable] sample_run_started
  by (auto simp: Let_def)

lemma paused_means_direct_witness:
  "\<not> m_direct_mode (mgr (fst (sample_run 17)))"
  using paused_means_direct [of _ _ _ "fst (sample_run 17)" "snd (sample_run 17)",
      unfolded prod.collapse, OF sample_run_reachable] sample_run_installed by auto

lemma installed_session_valid_witness:
  "opened (fst (sample_run 17)) 0 \<noteq> None"
  using installed_session_valid [of _ _ _ "fst (sample_run 17)" "snd (sample_run 17)",
      unfolded prod.collapse, OF sample_run_reachable sample_run_installed] by simp

end
