(* ===== verification/VpnFlow.thy ===== *)
theory VpnFlow
  imports VpnGuarantee
begin

text \<open>
  What the manager's operations do when no other goroutine interferes: automatic
  selection, manual candidates, direct mode, failover and shutdown, each on its success
  and its failure paths. The environment is \<open>steady\<close>: the database works and drivers and
  probes answer the same way each time they are asked.
\<close>

section \<open>Actions\<close>

definition steady ::
  "nat \<Rightarrow> (node \<Rightarrow> string \<Rightarrow> string option) \<Rightarrow> (nat \<Rightarrow> http_outcome) \<Rightarrow> (world \<Rightarrow> inp) \<Rightarrow> bool" where
  "steady t st pr e \<longleftrightarrow> (\<forall>w. in_tid (e w) = t \<and> in_io (e w) = None \<and> in_start (e w) = st \<and>
     in_probe (e w) = pr)"

lemma steadyD [simp]:
  assumes "steady t st pr e"
  shows "in_tid (e w) = t" "in_io (e w) = None" "in_start (e w) = st" "in_probe (e w) = pr"
  using assms by (simp_all add: steady_def)

lemma exec_lock [simp]:
  "exec (lock l) e w = (if locks w l = None then Some ((), w\<lparr>locks := (locks w)(l \<mapsto> in_tid (e w))\<rparr>) else None)"
  by (simp add: lock_def)

lemma exec_unlock [simp]: "exec (unlock l) e w = Some ((), w\<lparr>locks := (locks w)(l := None)\<rparr>)"
  by (simp add: unlock_def)

lemma exec_ctx_check [simp]: "exec (ctx_check c) e w = Some (ctx_err w c, w)"
  by (simp add: ctx_check_def)

lemma exec_new_ctx [simp]: "exec (new_ctx c) e w = Some (next_ctx w # c, w\<lparr>next_ctx := Suc (next_ctx w)\<rparr>)"
  by (simp add: new_ctx_def with_cancel_def)

lemma exec_cancel_act [simp]: "exec (cancel_act c) e w = Some ((), cancel_ctx c w)"
  by (simp add: cancel_act_def)

lemma exec_close_session [simp]:
  "exec (close_session s) e w = Some (in_close (e w),
     w\<lparr>open_sessions := open_sessions w - {s}, owner := (owner w)(s := None)\<rparr>)"
  by (simp add: close_session_def close_session_section_def)

lemma exec_close_opt:
  "exec (close_opt s) e w = (case s of None \<Rightarrow> Some (None, w)
     | Some a \<Rightarrow> Some (in_close (e w), w\<lparr>open_sessions := open_sessions w - {a}, owner := (owner w)(a := None)\<rparr>))"
  by (cases s) (simp_all add: close_opt_def)

lemma exec_start_async [simp]: "exec (start_async k) e w = Some (run_async k w)"
  by (simp add: start_async_def)

lemma exec_db_read [simp]: "exec (db_read c f) e w = Some (f (db_io c (e w) w) (wdb w), w)"
  by (simp add: db_read_def)

lemma exec_db_write [simp]:
  "exec (db_write c f) e w = (let r = f (db_io c (e w) w) (in_now (e w)) (wdb w) in Some (fst r, w\<lparr>wdb := snd r\<rparr>))"
  by (simp add: db_write_def Let_def split: prod.splits)

lemma db_io_steady [simp]: "steady t st pr e \<Longrightarrow> ctx_err w c = None \<Longrightarrow> db_io c (e w) w = None"
  by (simp add: db_io_def)

lemma ctx_err_simps [simp]:
  "ctx_err (w\<lparr>wdb := d\<rparr>) c = ctx_err w c" "ctx_err (w\<lparr>locks := l\<rparr>) c = ctx_err w c"
  "ctx_err (on_mgr f w) c = ctx_err w c" "ctx_err (w\<lparr>next_ctx := k\<rparr>) c = ctx_err w c"
  "ctx_err (w\<lparr>open_sessions := os\<rparr>) c = ctx_err w c" "ctx_err (w\<lparr>owner := ow\<rparr>) c = ctx_err w c"
  "ctx_err (w\<lparr>next_session := k\<rparr>) c = ctx_err w c" "ctx_err (w\<lparr>opened := op\<rparr>) c = ctx_err w c"
  "ctx_err (w\<lparr>probed := ps\<rparr>) c = ctx_err w c" "ctx_err (w\<lparr>spawned := sp\<rparr>) c = ctx_err w c"
  "ctx_err (w\<lparr>async := k\<rparr>) c = ctx_err w c"
  by (simp_all add: ctx_err_def)

lemma ctx_err_set_state [simp]: "ctx_err (set_state s x w) c = ctx_err w c"
  by (simp add: set_state_def)

lemma locks_set_state [simp]: "locks (set_state s x w) = locks w"
  by (simp add: set_state_def)

lemma set_state_simps [simp]:
  "wdb (set_state s x w) = wdb w" "conf (set_state s x w) = conf w"
  "open_sessions (set_state s x w) = open_sessions w" "next_session (set_state s x w) = next_session w"
  "ctx_errs (set_state s x w) = ctx_errs w" "next_ctx (set_state s x w) = next_ctx w"
  "probed (set_state s x w) = probed w"
  "m_session (mgr (set_state s x w)) = m_session (mgr w)"
  "m_connection_paused (mgr (set_state s x w)) = m_connection_paused (mgr w)"
  by (simp_all add: set_state_def)

lemma exec_locked:
  "locks w l = None \<Longrightarrow> exec (locked l p) e w =
    (case exec p e (w\<lparr>locks := (locks w)(l \<mapsto> in_tid (e w))\<rparr>) of None \<Rightarrow> None
     | Some (r, w') \<Rightarrow> Some (r, w'\<lparr>locks := (locks w')(l := None)\<rparr>))"
  by (simp add: locked_def split: option.splits)

section \<open>Connecting\<close>

text \<open>The protocol a node is reached with: the first of the priority list that works.\<close>

definition usable :: "(node \<Rightarrow> string \<Rightarrow> string option) \<Rightarrow> string list \<Rightarrow> node \<Rightarrow> string \<Rightarrow> bool" where
  "usable st drivers n p \<longleftrightarrow> p \<in> set (n_protocols n) \<and> p \<in> set drivers \<and> st n p = None"

definition session_world :: "nat \<Rightarrow> node \<Rightarrow> string \<Rightarrow> world \<Rightarrow> world" where
  "session_world t n p w =
     w\<lparr>next_session := Suc (next_session w), open_sessions := insert (next_session w) (open_sessions w),
       owner := (owner w)(next_session w \<mapsto> t), opened := (opened w)(next_session w \<mapsto> (n, p))\<rparr>"

lemma exec_try_protocols:
  assumes "steady t st pr e" "ctx_err w c = None"
  shows "\<exists>msg. exec (try_protocols c n False ds ps fs) e w = Some
    (case find (usable st ds n) ps of None \<Rightarrow> (Inl msg, w)
     | Some p \<Rightarrow> (Inr (next_session w, p), session_world t n p w))"
proof (induction ps arbitrary: fs)
  case Nil
  show ?case by auto
next
  case (Cons p ps)
  have start: "driver_start n p (e w) w = (case st n p of Some x \<Rightarrow> (Inl x, w)
      | None \<Rightarrow> (Inr (next_session w), session_world t n p w))"
    using steadyD [OF assms(1), of w]
    by (cases "st n p") (simp_all add: driver_start_def session_world_def Let_def)
  show ?case
  proof (cases "p \<in> set (n_protocols n) \<and> p \<in> set ds")
    case False
    then have "\<not> usable st ds n p" by (auto simp: usable_def)
    with False Cons.IH show ?thesis by (auto simp: assms(2))
  next
    case True
    show ?thesis
    proof (cases "st n p")
      case None
      then show ?thesis using True by (simp add: assms(2) usable_def start)
    next
      case (Some x)
      then have "\<not> usable st ds n p" by (simp add: usable_def)
      with True Some Cons.IH show ?thesis by (simp add: assms(2) start)
    qed
  qed
qed

definition reachable_with :: "(node \<Rightarrow> string \<Rightarrow> string option) \<Rightarrow> world \<Rightarrow> node \<Rightarrow> string option" where
  "reachable_with st w n =
     (if is_ipv4 (n_ip n) then find (usable st (m_drivers (mgr w)) n) (protocol_priority (conf w)) else None)"

lemma exec_connect_node:
  assumes "steady t st pr e" "ctx_err w c = None"
  shows "\<exists>msg. exec (connect_node c n False []) e w = Some
    (case reachable_with st w n of None \<Rightarrow> (Inl msg, w)
     | Some p \<Rightarrow> (Inr (next_session w, p), session_world t n p w))"
  using exec_try_protocols [OF assms, of n "m_drivers (mgr w)" "protocol_priority (conf w)" "[]"]
  by (auto simp: connect_node_def ipv4_guard reachable_with_def)

section \<open>Automatic selection\<close>

lemma locks_restore [simp]: "locks w l = None \<Longrightarrow> (locks w)(l := None) = locks w"
  by (simp add: fun_upd_idem)

lemma reachable_with_simps [simp]:
  "reachable_with st (w\<lparr>locks := l\<rparr>) n = reachable_with st w n"
  "reachable_with st (w\<lparr>wdb := d\<rparr>) n = reachable_with st w n"
  "reachable_with st (w\<lparr>next_ctx := k\<rparr>) n = reachable_with st w n"
  "reachable_with st (set_state s x w) n = reachable_with st w n"
  by (simp_all add: reachable_with_def set_state_def)

lemma exec_activate_fails:
  assumes "steady t st pr e" "ctx_err w c = None" "locks w SwitchMu = None" "reachable_with st w n = None"
  shows "\<exists>msg. exec (activate c n ''auto'' False 0 []) e w = Some (Some msg, set_state ''error'' (Some msg) w)"
proof -
  let ?v = "set_state ''connecting'' None (w\<lparr>locks := (locks w)(SwitchMu \<mapsto> t)\<rparr>)"
  obtain msg where "exec (connect_node c n False []) e ?v = Some (Inl msg, ?v)"
    using exec_connect_node [OF assms(1), of ?v c n] assms by auto
  then have "exec (activate c n ''auto'' False 0 []) e w = Some (Some msg, set_state ''error'' (Some msg) w)"
    using assms steadyD(1) [OF assms(1)]
    by (simp add: activate_def exec_locked connect_failed_def) (simp add: set_state_def on_mgr_def)
  then show ?thesis ..
qed

definition marks :: "(node \<times> time \<times> string) list \<Rightarrow> db \<Rightarrow> db" where
  "marks = fold (\<lambda>(n, now, why) d. snd (mark_failure None now (n_ip n) why d))"

lemma set_state_set_state [simp]: "set_state a x (set_state b y w) = set_state a x w"
  by (simp add: set_state_def on_mgr_def)

lemma set_state_wdb [simp]: "(set_state a x w)\<lparr>wdb := d\<rparr> = set_state a x (w\<lparr>wdb := d\<rparr>)"
  by (simp add: set_state_def on_mgr_def)

lemma exec_try_nodes_skip:
  assumes "steady t st pr e" "ctx_err w c = None" "locks w SwitchMu = None"
    and "\<forall>n \<in> set bad. reachable_with st w n = None" "bad \<noteq> []"
  shows "\<exists>ms msg fs'. map fst ms = bad \<and> exec (try_nodes c (bad @ rest) fs) e w =
    exec (try_nodes c rest fs') e (set_state ''error'' (Some msg) (w\<lparr>wdb := marks ms (wdb w)\<rparr>))"
  using assms
proof (induction bad arbitrary: w fs)
  case Nil
  then show ?case by simp
next
  case (Cons n bad)
  obtain msg where a: "exec (activate c n ''auto'' False 0 []) e w = Some (Some msg, set_state ''error'' (Some msg) w)"
    using exec_activate_fails [of t st pr e w c n] Cons.prems by auto
  define v where "v = set_state ''error'' (Some msg)
    (w\<lparr>wdb := snd (mark_failure None (in_now (e (set_state ''error'' (Some msg) w))) (n_ip n) msg (wdb w))\<rparr>)"
  have step: "exec (try_nodes c ((n # bad) @ rest) fs) e w =
      exec (try_nodes c (bad @ rest) (fs @ [n_ip n @ '': '' @ msg])) e v"
    using Cons.prems a by (simp add: v_def Let_def db_io_steady [OF Cons.prems(1)])
  show ?case
  proof (cases "bad = []")
    case True
    then show ?thesis using step
      by (intro exI [of _ "[(n, in_now (e (set_state ''error'' (Some msg) w)), msg)]"] exI [of _ msg]
          exI [of _ "fs @ [n_ip n @ '': '' @ msg]"]) (simp add: v_def marks_def)
  next
    case False
    have "ctx_err v c = None" "locks v SwitchMu = None" "\<forall>m \<in> set bad. reachable_with st v m = None"
      using Cons.prems by (simp_all add: v_def)
    then obtain ms msg' fs' where ih: "map fst ms = bad" "exec (try_nodes c (bad @ rest) (fs @ [n_ip n @ '': '' @ msg])) e v =
        exec (try_nodes c rest fs') e (set_state ''error'' (Some msg') (v\<lparr>wdb := marks ms (wdb v)\<rparr>))"
      using Cons.IH [of v] Cons.prems(1) False by blast
    then show ?thesis using step
      by (intro exI [of _ "(n, in_now (e (set_state ''error'' (Some msg) w)), msg) # ms"] exI [of _ msg']
          exI [of _ fs']) (simp add: v_def marks_def)
  qed
qed

lemma exec_save_selection:
  "\<exists>d. exec (save_selection c a b k) e w = Some ((), w\<lparr>wdb := d\<rparr>)"
  by (rule exI) (simp add: save_selection_def Let_def)

lemma installed:
  assumes "\<not> (m_connection_paused (mgr w) \<or> expected \<noteq> 0 \<and> m_connect_attempt (mgr w) \<noteq> expected)"
  obtains v where "install_section s n p sel expected forced i w =
      (Some (m_session (mgr w), m_generation (mgr v), m_manual_ip (mgr v), m_manual_protocol (mgr v)), v)"
    and "mgr v = (mgr w)\<lparr>m_session := Some s, m_node := n, m_protocol := p, m_selection := sel,
      m_direct_mode := False, m_manual_ip := (if sel = ''manual'' then n_ip n else []),
      m_manual_protocol := (if sel = ''manual'' then forced else []), m_state := ''connected'',
      m_last_err := None, m_generation := m_generation (mgr w) + 1\<rparr>"
    and "locks v = locks w" "ctx_errs v = ctx_errs w" "next_ctx v = next_ctx w" "conf v = conf w"
      "open_sessions v = open_sessions w" "probed v = probed w"
proof (rule that)
  note split = install_section_def if_not_P [OF assms] take_session_eq Let_def prod.case
  let ?v = "snd (install_section s n p sel expected forced i w)"
  show "install_section s n p sel expected forced i w =
      (Some (m_session (mgr w), m_generation (mgr ?v), m_manual_ip (mgr ?v), m_manual_protocol (mgr ?v)), ?v)"
    unfolding split prod.sel by (rule refl)
  show "mgr ?v = (mgr w)\<lparr>m_session := Some s, m_node := n, m_protocol := p, m_selection := sel,
      m_direct_mode := False, m_manual_ip := (if sel = ''manual'' then n_ip n else []),
      m_manual_protocol := (if sel = ''manual'' then forced else []), m_state := ''connected'',
      m_last_err := None, m_generation := m_generation (mgr w) + 1\<rparr>"
    unfolding split prod.sel by (simp add: on_mgr_def)
  show "locks ?v = locks w" "ctx_errs ?v = ctx_errs w" "next_ctx ?v = next_ctx w" "conf ?v = conf w"
      "open_sessions ?v = open_sessions w" "probed ?v = probed w"
    unfolding split prod.sel by (simp_all add: on_mgr_def)
qed

lemma exec_install:
  assumes "\<not> (m_connection_paused (mgr w) \<or> expected \<noteq> 0 \<and> m_connect_attempt (mgr w) \<noteq> expected)"
  shows "\<exists>w'. exec (install s n p sel expected forced) e w = Some (True, w') \<and>
    mgr w' = (mgr w)\<lparr>m_session := Some s, m_node := n, m_protocol := p, m_selection := sel,
      m_direct_mode := False, m_manual_ip := (if sel = ''manual'' then n_ip n else []),
      m_manual_protocol := (if sel = ''manual'' then forced else []), m_state := ''connected'',
      m_last_err := None, m_generation := m_generation (mgr w) + 1\<rparr> \<and>
    locks w' = locks w \<and> ctx_errs w' = ctx_errs w \<and> next_ctx w' = next_ctx w \<and> conf w' = conf w \<and>
    open_sessions w' = open_sessions w - set_option (m_session (mgr w)) \<and> probed w' = probed w"
proof -
  obtain v where r: "install_section s n p sel expected forced (e w) w =
      (Some (m_session (mgr w), m_generation (mgr v), m_manual_ip (mgr v), m_manual_protocol (mgr v)), v)" and
    v: "mgr v = (mgr w)\<lparr>m_session := Some s, m_node := n, m_protocol := p, m_selection := sel,
      m_direct_mode := False, m_manual_ip := (if sel = ''manual'' then n_ip n else []),
      m_manual_protocol := (if sel = ''manual'' then forced else []), m_state := ''connected'',
      m_last_err := None, m_generation := m_generation (mgr w) + 1\<rparr>"
    "locks v = locks w" "ctx_errs v = ctx_errs w" "next_ctx v = next_ctx w" "conf v = conf w"
    "open_sessions v = open_sessions w" "probed v = probed w"
    by (rule installed [OF assms])
  define v2 where "v2 = (case m_session (mgr w) of None \<Rightarrow> v
    | Some a \<Rightarrow> v\<lparr>open_sessions := open_sessions v - {a}, owner := (owner v)(a := None)\<rparr>)"
  have v2: "mgr v2 = mgr v" "locks v2 = locks v" "ctx_errs v2 = ctx_errs v" "next_ctx v2 = next_ctx v"
    "conf v2 = conf v" "probed v2 = probed v" "open_sessions v2 = open_sessions w - set_option (m_session (mgr w))"
    using v(6) by (simp_all add: v2_def split: option.split)
  have c: "\<exists>x. exec (close_opt (m_session (mgr w))) e v = Some (x, v2)"
    by (simp add: exec_close_opt v2_def split: option.split)
  obtain d where d: "exec (save_selection root_ctx sel (m_manual_ip (mgr v)) (m_manual_protocol (mgr v))) e v2 =
      Some ((), v2\<lparr>wdb := d\<rparr>)"
    using exec_save_selection by blast
  show ?thesis
    using c d r v v2 by (auto simp: install_def run_async_def)
qed

lemma session_world_simps [simp]:
  "mgr (session_world t n p w) = mgr w" "locks (session_world t n p w) = locks w"
  "ctx_errs (session_world t n p w) = ctx_errs w" "next_ctx (session_world t n p w) = next_ctx w"
  "conf (session_world t n p w) = conf w" "probed (session_world t n p w) = probed w"
  "open_sessions (session_world t n p w) = insert (next_session w) (open_sessions w)"
  "ctx_err (session_world t n p w) c = ctx_err w c"
  by (simp_all add: session_world_def ctx_err_def)

text \<open>What a successful switch leaves: the new session installed, the old one closed.\<close>

definition installed :: "world \<Rightarrow> node \<Rightarrow> string \<Rightarrow> string \<Rightarrow> string \<Rightarrow> world \<Rightarrow> bool" where
  "installed w n p sel forced w' \<longleftrightarrow>
     m_session (mgr w') = Some (next_session w) \<and> m_node (mgr w') = n \<and> m_protocol (mgr w') = p \<and>
     m_selection (mgr w') = sel \<and> \<not> m_direct_mode (mgr w') \<and> m_state (mgr w') = ''connected'' \<and>
     m_last_err (mgr w') = None \<and>
     m_manual_ip (mgr w') = (if sel = ''manual'' then n_ip n else []) \<and>
     m_manual_protocol (mgr w') = (if sel = ''manual'' then forced else []) \<and>
     open_sessions w' = insert (next_session w) (open_sessions w) - set_option (m_session (mgr w))"

lemma exec_activate_succeeds:
  assumes s: "steady t st pr e" and "ctx_err w c = None" "locks w SwitchMu = None"
    and r: "reachable_with st w n = Some p" and "\<not> m_connection_paused (mgr w)"
  shows "\<exists>w'. exec (activate c n ''auto'' False 0 []) e w = Some (None, w') \<and>
    installed w n p ''auto'' [] w' \<and> locks w' = locks w"
proof -
  let ?v = "set_state ''connecting'' None (w\<lparr>locks := (locks w)(SwitchMu \<mapsto> t)\<rparr>)"
  let ?u = "session_world t n p ?v"
  have c: "exec (connect_node c n False []) e ?v = Some (Inr (next_session w, p), ?u)"
    using exec_connect_node [OF s, of ?v c n] assms by auto
  obtain w' where i: "exec (install (next_session w) n p ''auto'' 0 []) e ?u = Some (True, w')"
    and m: "mgr w' = (mgr ?u)\<lparr>m_session := Some (next_session w), m_node := n, m_protocol := p, m_selection := ''auto'',
      m_direct_mode := False, m_manual_ip := (if ''auto'' = ''manual'' then n_ip n else []),
      m_manual_protocol := (if ''auto'' = ''manual'' then [] else []), m_state := ''connected'',
      m_last_err := None, m_generation := m_generation (mgr ?u) + 1\<rparr>"
      "locks w' = locks ?u" "open_sessions w' = open_sessions ?u - set_option (m_session (mgr ?u))"
    using exec_install [of ?u 0 "next_session w" n p "''auto''" "[]" e] assms(5) by auto
  have x: "exec (activate c n ''auto'' False 0 []) e w = Some (None, w'\<lparr>locks := (locks w')(SwitchMu := None)\<rparr>)"
    using assms(2,3) c i steadyD(1) [OF s]
    by (simp add: activate_def exec_locked install_connected_def)
  show ?thesis
    by (rule exI, rule conjI [OF x]) (use assms(3) m in \<open>simp add: installed_def\<close>)
qed

lemma installed_set_state [simp]: "installed (set_state s x w) n p sel forced w' = installed w n p sel forced w'"
  by (simp add: installed_def)

lemma exec_try_nodes_found:
  assumes s: "steady t st pr e" and c: "ctx_err w c = None" and l: "locks w SwitchMu = None"
    and bad: "\<forall>b \<in> set bad. reachable_with st w b = None" and n: "reachable_with st w n = Some p"
    and np: "\<not> m_connection_paused (mgr w)"
  shows "\<exists>w'. exec (try_nodes c (bad @ n # rest) fs) e w = Some (None, w') \<and>
    installed w n p ''auto'' [] w' \<and> locks w' = locks w"
proof -
  have here: "\<exists>w'. exec (try_nodes c (n # rest) fs') e v = Some (None, w') \<and>
      installed v n p ''auto'' [] w' \<and> locks w' = locks v"
    if "ctx_err v c = None" "locks v SwitchMu = None" "reachable_with st v n = Some p"
      "\<not> m_connection_paused (mgr v)" for v fs'
    using exec_activate_succeeds [OF s that] that(1) by auto
  show ?thesis
  proof (cases "bad = []")
    case True
    then show ?thesis using here [OF c l n np] by simp
  next
    case False
    obtain ms msg fs' where x: "exec (try_nodes c (bad @ n # rest) fs) e w =
        exec (try_nodes c (n # rest) fs') e (set_state ''error'' (Some msg) (w\<lparr>wdb := marks ms (wdb w)\<rparr>))"
      using exec_try_nodes_skip [OF s c l bad False] by blast
    have "installed (w\<lparr>wdb := d\<rparr>) n p ''auto'' [] w' = installed w n p ''auto'' [] w'" for d w'
      by (simp add: installed_def)
    with here [of "set_state ''error'' (Some msg) (w\<lparr>wdb := marks ms (wdb w)\<rparr>)" fs'] x
    show ?thesis using c l n np by simp
  qed
qed

lemma exec_try_nodes_exhausted:
  assumes s: "steady t st pr e" and c: "ctx_err w c = None" and l: "locks w SwitchMu = None"
    and bad: "\<forall>b \<in> set bad. reachable_with st w b = None" "bad \<noteq> []"
  shows "\<exists>ms msg. map fst ms = bad \<and> exec (try_nodes c bad fs) e w =
    Some (Some (''connect to ranked VPN nodes: '' @ msg),
      set_state ''error'' (Some msg) (w\<lparr>wdb := marks ms (wdb w)\<rparr>))"
  using exec_try_nodes_skip [OF s c l bad, of "[]" fs] by (auto simp: Let_def)

text \<open>The state in which an automatic switch begins its attempts.\<close>

definition ready :: "nat \<Rightarrow> ctx \<Rightarrow> world \<Rightarrow> bool" where
  "ready t c w \<longleftrightarrow> locks w AutoMu = None \<and> locks w SwitchMu = None \<and>
     \<not> m_connection_paused (mgr w) \<and> ctx_err w c = None \<and> ctx_errs w (next_ctx w) = None"

definition switching :: "nat \<Rightarrow> ctx \<Rightarrow> world \<Rightarrow> world" where
  "switching t c w = on_mgr (\<lambda>m. m\<lparr>m_cancel_automatic := Some (next_ctx w # c)\<rparr>)
     (w\<lparr>locks := (locks w)(AutoMu \<mapsto> t), next_ctx := Suc (next_ctx w)\<rparr>)"

lemma switching_simps [simp]:
  "locks (switching t c w) SwitchMu = locks w SwitchMu"
  "m_connection_paused (mgr (switching t c w)) = m_connection_paused (mgr w)"
  "wdb (switching t c w) = wdb w" "conf (switching t c w) = conf w"
  "reachable_with st (switching t c w) n = reachable_with st w n"
  "m_session (mgr (switching t c w)) = m_session (mgr w)"
  "open_sessions (switching t c w) = open_sessions w"
  "next_session (switching t c w) = next_session w"
  "ctx_errs (switching t c w) = ctx_errs w"
  by (simp_all add: switching_def reachable_with_def)

lemma cancel_ctx_simps [simp]:
  "mgr (cancel_ctx c w) = mgr w" "locks (cancel_ctx c w) = locks w"
  "open_sessions (cancel_ctx c w) = open_sessions w" "wdb (cancel_ctx c w) = wdb w"
  "probed (cancel_ctx c w) = probed w"
  by (simp_all add: cancel_ctx_def split: list.splits)

lemma exec_switch:
  assumes s: "steady t st pr e" and r: "ready t c w"
    and nodes: "store_nodes None (selection_mode (conf w)) 10 0 (wdb w) = Inr ns" "ns \<noteq> []"
    and x: "exec (try_nodes (next_ctx w # c) ns []) e (switching t c w) = Some (res, v)"
  shows "\<exists>w'. exec (switch_automatic_locked c) e w = Some (res, w') \<and>
    mgr w' = (mgr v)\<lparr>m_cancel_automatic := None\<rparr> \<and> open_sessions w' = open_sessions v \<and> wdb w' = wdb v"
proof -
  have io: "db_io (next_ctx w # c) (e (switching t c w)) (switching t c w) = None"
    using r steadyD(2) [OF s] by (simp add: db_io_def ctx_err_def ready_def)
  have b: "begin_automatic (next_ctx w # c) (w\<lparr>locks := (locks w)(AutoMu \<mapsto> t), next_ctx := Suc (next_ctx w)\<rparr>)
      = (True, switching t c w)"
    using r by (simp add: begin_automatic_def switching_def ready_def)
  show ?thesis
    using r steadyD(1) [OF s] nodes x
    by (simp add: switch_automatic_locked_def switch_automatic_def switch_ranked_def exec_locked ready_def b io)
qed

text \<open>
  An undisturbed automatic switch connects to the best ranked node that can be reached,
  by the first protocol of the configured priority that works; the session it replaces is
  closed, and nothing ranked after that node is tried.
\<close>

theorem switch_automatic_best_node:
  assumes "steady t st pr e" and "ready t c w" and "world_inv w"
    and "store_nodes None (selection_mode (conf w)) 10 0 (wdb w) = Inr (bad @ n # rest)"
    and "\<forall>b \<in> set bad. reachable_with st w b = None" and "reachable_with st w n = Some p"
  shows "\<exists>w'. exec (switch_automatic_locked c) e w = Some (None, w') \<and>
    active_ip (mgr w') = n_ip n \<and> m_protocol (mgr w') = p \<and> m_selection (mgr w') = ''auto'' \<and>
    m_state (mgr w') = ''connected'' \<and> \<not> m_direct_mode (mgr w') \<and>
    m_session (mgr w') = Some (next_session w) \<and> next_session w \<notin> open_sessions w \<and>
    open_sessions w' = insert (next_session w) (open_sessions w - set_option (m_session (mgr w)))"
proof -
  let ?u = "switching t c w"
  have "ctx_err ?u (next_ctx w # c) = None" "locks ?u SwitchMu = None" "\<not> m_connection_paused (mgr ?u)"
    using assms(2) by (simp_all add: ready_def ctx_err_def)
  then obtain v where x: "exec (try_nodes (next_ctx w # c) (bad @ n # rest) []) e ?u = Some (None, v)"
    and v: "installed ?u n p ''auto'' [] v"
    using exec_try_nodes_found [OF assms(1), of ?u "next_ctx w # c" bad n p rest "[]"] assms(5,6) by auto
  obtain w' where w': "exec (switch_automatic_locked c) e w = Some (None, w')"
    "mgr w' = (mgr v)\<lparr>m_cancel_automatic := None\<rparr>" "open_sessions w' = open_sessions v"
    using exec_switch [OF assms(1,2,4) _ x] by auto
  have fresh: "next_session w \<notin> open_sessions w" and "m_session (mgr w) \<noteq> Some (next_session w)"
    using assms(3) by (auto simp: world_inv_def handle_inv_def)
  then have "insert (next_session w) (open_sessions w) - set_option (m_session (mgr w)) =
      insert (next_session w) (open_sessions w - set_option (m_session (mgr w)))" by auto
  then show ?thesis using w' v fresh by (auto simp: installed_def active_ip_def)
qed

text \<open>
  When no ranked node can be reached, the switch fails and leaves the current session,
  selection and routing as they were; each node tried is marked as failed, in rank order,
  and the error is recorded.
\<close>

theorem switch_automatic_all_fail:
  assumes "steady t st pr e" and "ready t c w"
    and "store_nodes None (selection_mode (conf w)) 10 0 (wdb w) = Inr bad" and "bad \<noteq> []"
    and "\<forall>b \<in> set bad. reachable_with st w b = None"
  shows "\<exists>w' msg ms. exec (switch_automatic_locked c) e w = Some (Some (''connect to ranked VPN nodes: '' @ msg), w') \<and>
    m_session (mgr w') = m_session (mgr w) \<and> m_node (mgr w') = m_node (mgr w) \<and>
    m_selection (mgr w') = m_selection (mgr w) \<and> m_direct_mode (mgr w') = m_direct_mode (mgr w) \<and>
    open_sessions w' = open_sessions w \<and> m_state (mgr w') = ''error'' \<and> m_last_err (mgr w') = Some msg \<and>
    map fst ms = bad \<and> wdb w' = marks ms (wdb w)"
proof -
  let ?u = "switching t c w"
  have "ctx_err ?u (next_ctx w # c) = None" "locks ?u SwitchMu = None"
    using assms(2) by (simp_all add: ready_def ctx_err_def)
  then obtain ms msg where ms: "map fst ms = bad" and
    x: "exec (try_nodes (next_ctx w # c) bad []) e ?u = Some (Some (''connect to ranked VPN nodes: '' @ msg),
      set_state ''error'' (Some msg) (?u\<lparr>wdb := marks ms (wdb ?u)\<rparr>))"
    using exec_try_nodes_exhausted [OF assms(1), of ?u "next_ctx w # c" bad "[]"] assms(4,5) by auto
  from exec_switch [OF assms(1-4) x] ms show ?thesis
    by (auto simp: set_state_def switching_def)
qed

section \<open>Candidates\<close>

text \<open>What a connection attempt does to the state, whatever drivers and probes answer.\<close>

definition connected_world :: "world \<Rightarrow> (nat \<times> string) result \<Rightarrow> world \<Rightarrow> bool" where
  "connected_world w r w' \<longleftrightarrow> mgr w' = mgr w \<and> locks w' = locks w \<and> wdb w' = wdb w \<and> conf w' = conf w \<and>
     ctx_errs w' = ctx_errs w \<and> next_ctx w' = next_ctx w \<and> next_session w \<le> next_session w' \<and>
     probed w \<subseteq> probed w' \<and>
     (case r of Inl _ \<Rightarrow> open_sessions w' = open_sessions w
      | Inr (s, _) \<Rightarrow> open_sessions w' = insert s (open_sessions w) \<and> s \<notin> open_sessions w \<and> s \<in> probed w')"

lemma connected_world_trans:
  "connected_world w (Inl x) v \<Longrightarrow> connected_world v r w' \<Longrightarrow> connected_world w r w'"
  by (auto simp: connected_world_def split: sum.splits)

lemma exec_try_protocols_any:
  assumes "\<forall>s \<in> open_sessions w. s < next_session w"
  shows "\<exists>r w'. exec (try_protocols c n True ds ps fs) e w = Some (r, w') \<and> connected_world w r w'"
  using assms
proof (induction ps arbitrary: fs w)
  case Nil
  then show ?case by (simp add: connected_world_def)
next
  case (Cons p ps)
  let ?s = "next_session w"
  define v where "v = session_world (in_tid (e w)) n p w"
  have start: "exec (atomic (driver_start n p)) e w =
      Some (case in_start (e w) n p of Some x \<Rightarrow> (Inl x, w) | None \<Rightarrow> (Inr ?s, v))"
    by (cases "in_start (e w) n p") (simp_all add: driver_start_def session_world_def v_def Let_def)
  have fresh: "?s \<notin> open_sessions w" using Cons.prems by auto
  have rest: "\<exists>r w'. exec (try_protocols c n True ds ps fs') e w = Some (r, w') \<and> connected_world w r w'" for fs'
    by (rule Cons.IH [OF Cons.prems])
  show ?case
  proof (cases "ctx_err w c = None \<and> p \<in> set (n_protocols n) \<and> p \<in> set ds \<and> in_start (e w) n p = None")
    case False
    then show ?thesis using rest start
      by (cases "ctx_err w c"; cases "in_start (e w) n p") (auto simp: connected_world_def)
  next
    case True
    show ?thesis
    proof (cases "probe_verdict (in_probe (e v) ?s)")
      case None
      then show ?thesis using True start fresh
        by (auto simp: probe_session_def connected_world_def v_def session_world_def)
    next
      case (Some x)
      obtain m b where x: "x = (m, b)" by (cases x)
      define u where "u = v\<lparr>open_sessions := open_sessions v - {?s}, owner := (owner v)(?s := None)\<rparr>"
      have u: "connected_world w (Inl m) u"
        using fresh by (auto simp: connected_world_def u_def v_def session_world_def)
      have "\<forall>s \<in> open_sessions u. s < next_session u"
        using Cons.prems by (auto simp: u_def v_def session_world_def)
      from Cons.IH [OF this] obtain r w' where
        i: "exec (try_protocols c n True ds ps (fs @ [p @ '' candidate health check: '' @ m])) e u = Some (r, w')"
        and k: "connected_world u r w'" by blast
      have "exec (try_protocols c n True ds (p # ps) fs) e w = Some (r, w')"
        using True start Some x i by (simp add: probe_session_def u_def)
      then show ?thesis using connected_world_trans [OF u k] by blast
    qed
  qed
qed

lemma exec_connect_node_any:
  assumes "\<forall>s \<in> open_sessions w. s < next_session w"
  shows "\<exists>r w'. exec (connect_node c n True forced) e w = Some (r, w') \<and> connected_world w r w'"
proof -
  have err: "connected_world w (Inl x) w" for x by (simp add: connected_world_def)
  show ?thesis
    using exec_try_protocols_any [OF assms, of c n "m_drivers (mgr w)" _ "[]" e] err
    unfolding connect_node_def by (auto simp del: try_protocols.simps split: option.splits if_splits)
qed

text \<open>The routing a user sees: session, node, protocol, selection and mode.\<close>

definition routing :: "manager \<Rightarrow> nat option \<times> node \<times> string \<times> string \<times> string \<times> string \<times> bool" where
  "routing m = (m_session m, m_node m, m_protocol m, m_selection m, m_manual_ip m, m_manual_protocol m,
     m_direct_mode m)"

definition switched :: "world \<Rightarrow> node \<Rightarrow> string \<Rightarrow> string \<Rightarrow> world \<Rightarrow> bool" where
  "switched w n sel forced w' \<longleftrightarrow> (\<exists>s p. routing (mgr w') = (Some s, n, p, sel,
      (if sel = ''manual'' then n_ip n else []), (if sel = ''manual'' then forced else []), False) \<and>
      s \<in> probed w' \<and> s \<notin> open_sessions w \<and> m_state (mgr w') = ''connected'' \<and> m_last_err (mgr w') = None \<and>
      open_sessions w' = insert s (open_sessions w - set_option (m_session (mgr w))))"

definition kept :: "world \<Rightarrow> world \<Rightarrow> bool" where
  "kept w w' \<longleftrightarrow> routing (mgr w') = routing (mgr w) \<and> open_sessions w' = open_sessions w"

lemma switched_locks [simp]:
  "switched w n sel forced (u\<lparr>locks := l\<rparr>) = switched w n sel forced u"
  "kept w (u\<lparr>locks := l\<rparr>) = kept w u"
  by (simp_all add: switched_def kept_def routing_def)

lemma exec_install_any:
  "\<exists>b w'. exec (install s n p sel expected forced) e w = Some (b, w') \<and> locks w' = locks w \<and>
    m_connect_attempt (mgr w') = m_connect_attempt (mgr w) \<and> probed w' = probed w \<and>
    (if b then routing (mgr w') = (Some s, n, p, sel,
         (if sel = ''manual'' then n_ip n else []), (if sel = ''manual'' then forced else []), False) \<and>
         m_state (mgr w') = ''connected'' \<and> m_last_err (mgr w') = None \<and>
         open_sessions w' = open_sessions w - set_option (m_session (mgr w))
     else w' = w)"
proof (cases "m_connection_paused (mgr w) \<or> expected \<noteq> 0 \<and> m_connect_attempt (mgr w) \<noteq> expected")
  case True
  then show ?thesis by (intro exI [of _ False] exI [of _ w]) (simp add: install_def install_section_def)
next
  case False
  then obtain w' where "exec (install s n p sel expected forced) e w = Some (True, w')"
    "mgr w' = (mgr w)\<lparr>m_session := Some s, m_node := n, m_protocol := p, m_selection := sel,
      m_direct_mode := False, m_manual_ip := (if sel = ''manual'' then n_ip n else []),
      m_manual_protocol := (if sel = ''manual'' then forced else []), m_state := ''connected'',
      m_last_err := None, m_generation := m_generation (mgr w) + 1\<rparr>"
    "locks w' = locks w" "open_sessions w' = open_sessions w - set_option (m_session (mgr w))" "probed w' = probed w"
    using exec_install [OF False, of s n p sel forced e] by metis
  then show ?thesis by (intro exI [of _ True] exI [of _ w']) (simp add: routing_def)
qed
lemma routing_simps [simp]:
  "routing (mgr (w\<lparr>locks := l\<rparr>)) = routing (mgr w)"
  "routing (m\<lparr>m_state := a\<rparr>) = routing m" "routing (m\<lparr>m_last_err := b\<rparr>) = routing m"
  "routing (m\<lparr>m_connecting_ip := d\<rparr>) = routing m" "routing (m\<lparr>m_cancel_connect := x\<rparr>) = routing m"
  "routing (m\<lparr>m_last_health := y\<rparr>) = routing m" "routing (m\<lparr>m_cancel_automatic := z\<rparr>) = routing m"
  by (simp_all add: routing_def)

lemma exec_activate_any:
  assumes "\<forall>s \<in> open_sessions w. s < next_session w" and "locks w SwitchMu = None"
    and "\<forall>s. m_session (mgr w) = Some s \<longrightarrow> s \<in> open_sessions w"
  shows "\<exists>r w'. exec (activate c n sel True expected forced) e w = Some (r, w') \<and> locks w' = locks w \<and>
    m_connect_attempt (mgr w') = m_connect_attempt (mgr w) \<and>
    (case r of None \<Rightarrow> switched w n sel forced w' | Some _ \<Rightarrow> kept w w' \<and> mgr w' = mgr w)"
proof -
  define v where "v = w\<lparr>locks := (locks w)(SwitchMu \<mapsto> in_tid (e w))\<rparr>"
  have v: "open_sessions v = open_sessions w" "mgr v = mgr w" "next_session v = next_session w"
    by (simp_all add: v_def)
  obtain r u where c: "exec (connect_node c n True forced) e v = Some (r, u)" and u: "connected_world v r u"
    using exec_connect_node_any [of v c n forced e] assms(1) v by auto
  have mu: "mgr u = mgr w" using u v by (simp add: connected_world_def)
  have restore: "(locks v)(SwitchMu := None) = locks w" using assms(2) by (simp add: v_def)
  have fin: "\<exists>x u'. exec (case r of Inl x \<Rightarrow> connect_failed c True x
      | Inr (s, p) \<Rightarrow> install_connected c s n p sel True expected forced) e u = Some (x, u') \<and>
      locks u' = locks u \<and> m_connect_attempt (mgr u') = m_connect_attempt (mgr w) \<and>
      (case x of None \<Rightarrow> switched w n sel forced u' | Some _ \<Rightarrow> kept w u' \<and> mgr u' = mgr w)"
  proof (cases r)
    case (Inl x)
    have "open_sessions u = open_sessions w" using u v Inl by (simp add: connected_world_def)
    then show ?thesis using Inl mu by (simp add: connect_failed_def kept_def)
  next
    case (Inr y)
    obtain s p where y: "y = (s, p)" by (cases y)
    have o: "open_sessions u = insert s (open_sessions w)" "s \<notin> open_sessions w" "s \<in> probed u"
      using u v by (simp_all add: connected_world_def Inr y)
    have ns: "m_session (mgr w) \<noteq> Some s" using assms(3) o(2) by auto
    obtain b z where i: "exec (install s n p sel expected forced) e u = Some (b, z)" and
      z: "locks z = locks u" "m_connect_attempt (mgr z) = m_connect_attempt (mgr u)" "probed z = probed u" and
      zb: "if b then routing (mgr z) = (Some s, n, p, sel,
         (if sel = ''manual'' then n_ip n else []), (if sel = ''manual'' then forced else []), False) \<and>
         m_state (mgr z) = ''connected'' \<and> m_last_err (mgr z) = None \<and>
         open_sessions z = open_sessions u - set_option (m_session (mgr u)) else z = u"
      using exec_install_any [of s n p sel expected forced e u] by blast
    have undo: "insert s (open_sessions w) - {s} = open_sessions w" using o(2) by auto
    show ?thesis
    proof (cases "ctx_err u c")
      case (Some x)
      then show ?thesis using o mu undo by (simp add: Inr y install_connected_def kept_def)
    next
      case None
      show ?thesis
      proof (cases b)
        case False
        then show ?thesis using None i zb o mu undo
          by (simp add: Inr y install_connected_def kept_def)
      next
        case True
        have "insert s (open_sessions w) - set_option (m_session (mgr w)) =
            insert s (open_sessions w - set_option (m_session (mgr w)))" using ns by auto
        then show ?thesis using True None i z zb o mu
          by (auto simp: Inr y install_connected_def switched_def set_last_health_def)
      qed
    qed
  qed
  then obtain x u' where f: "exec (case r of Inl x \<Rightarrow> connect_failed c True x
      | Inr (s, p) \<Rightarrow> install_connected c s n p sel True expected forced) e u = Some (x, u')"
    "locks u' = locks u" "m_connect_attempt (mgr u') = m_connect_attempt (mgr w)"
    "case x of None \<Rightarrow> switched w n sel forced u' | Some _ \<Rightarrow> kept w u' \<and> mgr u' = mgr w" by blast
  have lu: "locks u = locks v" using u by (simp add: connected_world_def)
  let ?w' = "u'\<lparr>locks := (locks u')(SwitchMu := None)\<rparr>"
  have "exec (activate c n sel True expected forced) e w = Some (x, ?w')"
    using assms(2) c f(1) by (simp add: activate_def exec_locked v_def)
  moreover have "locks ?w' = locks w" using f(2) lu restore by simp
  moreover have "case x of None \<Rightarrow> switched w n sel forced ?w' | Some _ \<Rightarrow> kept w ?w' \<and> mgr ?w' = mgr w"
    using f(4) by (simp split: option.splits)
  ultimately show ?thesis using f(3) by (intro exI [of _ x] exI [of _ ?w']) simp
qed

text \<open>
  C3: A requested switch (manual selection or reconnect) is all or nothing, whatever drivers,
  probes and database answer: it either installs a health-checked session for the chosen
  node and closes the one it replaces, or leaves session, node, protocol, selection and
  routing untouched, with the current session still open and every candidate closed. It
  always returns, and a superseded attempt does nothing.
\<close>

theorem candidate_all_or_nothing:
  assumes "world_inv w" "locks w AutoMu = None" "locks w SwitchMu = None"
  shows "\<exists>w'. exec (candidate_body c n sel forced attempt) e w = Some ((), w') \<and>
    (switched w n sel forced w' \<and> m_connect_attempt (mgr w) = attempt \<or>
     kept w w' \<and> (m_connect_attempt (mgr w) = attempt \<longrightarrow> m_last_err (mgr w') \<noteq> None \<and>
       m_state (mgr w') = (if m_session (mgr w) = None then ''error'' else ''connected'')))"
proof -
  have inv: "\<forall>s \<in> open_sessions w. s < next_session w" "\<forall>s. m_session (mgr w) = Some s \<longrightarrow> s \<in> open_sessions w"
    using assms(1) by (auto simp: world_inv_def handle_inv_def)
  define v where "v = w\<lparr>locks := (locks w)(AutoMu \<mapsto> in_tid (e w))\<rparr>"
  have v: "open_sessions v = open_sessions w" "mgr v = mgr w" "next_session v = next_session w"
    "locks v SwitchMu = None" using assms(3) by (simp_all add: v_def)
  show ?thesis
  proof (cases "m_connect_attempt (mgr w) = attempt")
    case False
    then show ?thesis using assms(2)
      by (simp add: candidate_body_def exec_locked kept_def)
  next
    case True
    obtain r u where a: "exec (activate c n sel True attempt forced) e v = Some (r, u)"
      and at: "m_connect_attempt (mgr u) = attempt"
      and k: "case r of None \<Rightarrow> switched v n sel forced u | Some _ \<Rightarrow> kept v u \<and> mgr u = mgr v"
      using exec_activate_any [of v c n sel attempt forced e] inv v True by auto
    obtain b z where f: "finish_connect_attempt attempt r u = (b, z)" by (cases "finish_connect_attempt attempt r u")
    define w' where "w' = cancel_ctx c (z\<lparr>locks := (locks z)(AutoMu := None)\<rparr>)"
    have x: "exec (candidate_body c n sel forced attempt) e w = Some ((), w')"
      using assms(2) True a f v(2) by (simp add: candidate_body_def exec_locked v_def [symmetric] w'_def)
    have mw: "mgr w' = mgr (snd (finish_connect_attempt attempt r u))" by (simp add: w'_def f)
    have z: "z = snd (finish_connect_attempt attempt r u)" by (simp add: f)
    have ow: "open_sessions w' = open_sessions u" "probed w' = probed u"
      by (simp_all add: w'_def z finish_connect_attempt_def)
    show ?thesis
    proof (cases r)
      case None
      then show ?thesis using x mw ow k at True v
        by (auto simp: switched_def finish_connect_attempt_def)
    next
      case (Some y)
      then show ?thesis using x mw ow k at True v
        by (auto simp: kept_def finish_connect_attempt_def)
    qed
  qed
qed

section \<open>Direct mode\<close>

lemma exec_pause:
  assumes "\<not> m_connection_paused (mgr w)"
  shows "\<exists>w1. exec (set_direct_mode c True) e w = Some (None, w1) \<and>
    m_session (mgr w1) = None \<and> m_direct_mode (mgr w1) \<and> m_connection_paused (mgr w1) \<and>
    m_state (mgr w1) = ''direct'' \<and> m_connect_attempt (mgr w1) = m_connect_attempt (mgr w) + 1 \<and>
    m_selection (mgr w1) = m_selection (mgr w) \<and> m_manual_ip (mgr w1) = m_manual_ip (mgr w) \<and>
    m_manual_protocol (mgr w1) = m_manual_protocol (mgr w) \<and> m_drivers (mgr w1) = m_drivers (mgr w) \<and>
    m_closing (mgr w1) = m_closing (mgr w) \<and> m_cancel_automatic (mgr w1) = None \<and>
    m_cancel_connect (mgr w1) = None \<and> wdb w1 = wdb w \<and> spawned w1 = spawned w \<and>
    open_sessions w1 = open_sessions w - set_option (m_session (mgr w))"
proof -
  define r where "r = pause_section (in_tid (e w)) w"
  have np: "\<not> m_connection_paused (mgr w)" by (rule assms)
  obtain v where r: "r = (Some (m_session (mgr w)), v)" and
    v: "m_session (mgr v) = None" "m_direct_mode (mgr v)" "m_connection_paused (mgr v)"
      "m_state (mgr v) = ''direct''" "m_connect_attempt (mgr v) = m_connect_attempt (mgr w) + 1"
      "m_selection (mgr v) = m_selection (mgr w)" "m_manual_ip (mgr v) = m_manual_ip (mgr w)"
      "m_manual_protocol (mgr v) = m_manual_protocol (mgr w)" "m_drivers (mgr v) = m_drivers (mgr w)"
      "m_closing (mgr v) = m_closing (mgr w)" "m_cancel_automatic (mgr v) = None"
      "m_cancel_connect (mgr v) = None" "wdb v = wdb w" "spawned v = spawned w" "open_sessions v = open_sessions w"
    unfolding r_def pause_section_def if_not_P [OF np] take_session_eq Let_def split_beta by simp
  define v2 where "v2 = (case m_session (mgr w) of None \<Rightarrow> v
    | Some a \<Rightarrow> v\<lparr>open_sessions := open_sessions v - {a}, owner := (owner v)(a := None)\<rparr>)"
  have v2: "mgr v2 = mgr v" "wdb v2 = wdb v" "spawned v2 = spawned v"
    "open_sessions v2 = open_sessions w - set_option (m_session (mgr w))"
    using v(15) by (simp_all add: v2_def split: option.split)
  have "\<exists>x. exec (close_opt (m_session (mgr w))) e v = Some (x, v2)"
    by (simp add: exec_close_opt v2_def split: option.split)
  then obtain x where x: "exec (close_opt (m_session (mgr w))) e v = Some (x, v2)" ..
  have "exec (set_direct_mode c True) e w = Some (None, v2)"
    using x r by (simp add: set_direct_mode_def r_def [symmetric])
  then show ?thesis using v v2 by simp
qed

lemma exec_start_candidate:
  assumes "validate_forced (m_drivers (mgr w)) n forced = None" "\<not> m_closing (mgr w)"
  shows "\<exists>w' k. exec (start_candidate n sel forced) e w = Some (None, w') \<and>
    m_session (mgr w') = m_session (mgr w) \<and> m_direct_mode (mgr w') = m_direct_mode (mgr w) \<and>
    \<not> m_connection_paused (mgr w') \<and> m_state (mgr w') = ''connecting'' \<and>
    m_connecting_ip (mgr w') = n_ip n \<and> m_connect_attempt (mgr w') = m_connect_attempt (mgr w) + 1 \<and>
    spawned w' = spawned w @ [CandidateTask k n sel forced (m_connect_attempt (mgr w'))] \<and>
    m_selection (mgr w') = m_selection (mgr w) \<and> m_manual_ip (mgr w') = m_manual_ip (mgr w) \<and>
    open_sessions w' = open_sessions w"
  using assms
  by (simp add: start_candidate_def begin_candidate_def with_cancel_def Let_def run_async_def)


text \<open>
  If the remembered node no longer offers the remembered protocol, resuming fails but
  has already left the paused state: the manager reports \<open>connecting\<close> although nothing is
  connecting, and a second resume reports success without doing anything.
\<close>

theorem resume_unsupported_is_stuck:
  assumes "steady t st pr e" "m_connection_paused (mgr w)" "ctx_err w c = None"
    and "m_selection (mgr w) = ''manual''" "m_manual_ip (mgr w) \<noteq> []"
    and "store_node None (m_manual_ip (mgr w)) (wdb w) = Inr n"
    and "m_manual_protocol (mgr w) \<noteq> []" "m_manual_protocol (mgr w) \<notin> set (n_protocols n)"
  shows "\<exists>msg w'. exec (set_direct_mode c False) e w = Some (Some msg, w') \<and>
    m_state (mgr w') = ''connecting'' \<and> \<not> m_connection_paused (mgr w') \<and>
    m_session (mgr w') = m_session (mgr w) \<and> m_connecting_ip (mgr w') = m_connecting_ip (mgr w) \<and>
    spawned w' = spawned w \<and> async w' = async w \<and>
    exec (set_direct_mode c False) e w' = Some (None, w')"
proof -
  let ?v = "on_mgr (\<lambda>m. m\<lparr>m_connection_paused := False, m_state := ''connecting'', m_last_err := None\<rparr>) w"
  show ?thesis using assms db_io_steady [OF assms(1), of ?v c]
    by (simp add: set_direct_mode_def resume_section_def start_candidate_def validate_forced_def)
qed

section \<open>Failover and shutdown\<close>

text \<open>
  A failover for a session that is no longer the installed one, and any failover while
  connections are paused, changes nothing.
\<close>

theorem stale_failover_ignored:
  assumes "m_session (mgr w) \<noteq> Some s \<or> m_connection_paused (mgr w)"
    and "locks w FailoverMu = None" "locks w AutoMu = None"
  shows "exec (failover c (Some s) cause) e w = Some ((), w)"
proof -
  have upd: "(locks w)(FailoverMu := None, AutoMu := None) = locks w"
    using assms(2,3) by (auto simp: fun_eq_iff)
  show ?thesis using assms
    by (auto simp: failover_def exec_locked failover_section_def fun_upd_twist)
qed

lemma exec_switch_unreachable:
  assumes s: "steady t st pr e" and no: "\<forall>n. reachable_with st w n = None"
    and l: "locks w SwitchMu = None" and c: "ctx_err w c = None" "ctx_errs w (next_ctx w) = None"
  shows "\<exists>r w'. exec (switch_automatic c) e w = Some (r, w') \<and> kept w w' \<and> locks w' = locks w"
proof (cases "m_connection_paused (mgr w)")
  case True
  then show ?thesis by (simp add: switch_automatic_def begin_automatic_def kept_def)
next
  case False
  let ?c = "next_ctx w # c"
  define u where "u = on_mgr (\<lambda>m. m\<lparr>m_cancel_automatic := Some ?c\<rparr>) (w\<lparr>next_ctx := Suc (next_ctx w)\<rparr>)"
  have u: "locks u = locks w" "open_sessions u = open_sessions w" "routing (mgr u) = routing (mgr w)"
    "conf u = conf w" "wdb u = wdb w" by (simp_all add: u_def)
  have cu: "ctx_err u ?c = None" using c by (simp add: u_def ctx_err_def)
  have nu: "reachable_with st u n = None" for n
  proof -
    have "reachable_with st u n = reachable_with st w n" by (simp add: u_def reachable_with_def)
    then show ?thesis using no by simp
  qed
  have b: "begin_automatic ?c (w\<lparr>next_ctx := Suc (next_ctx w)\<rparr>) = (True, u)"
    using False by (simp add: begin_automatic_def u_def)
  have io: "db_io ?c (e u) u = None" using cu db_io_steady [OF s] by simp
  have "\<exists>r v. exec (switch_ranked ?c) e u = Some (r, v) \<and>
       routing (mgr v) = routing (mgr w) \<and> open_sessions v = open_sessions w \<and> locks v = locks w"
  proof (cases "store_nodes None (selection_mode (conf w)) 10 0 (wdb w)")
    case (Inl x)
    then show ?thesis using io u by (simp add: switch_ranked_def)
  next
    case (Inr ns)
    show ?thesis
    proof (cases "ns = []")
      case True
      then show ?thesis using io u Inr by (simp add: switch_ranked_def)
    next
      case False
      obtain ms msg where "exec (try_nodes ?c ns []) e u = Some (Some (''connect to ranked VPN nodes: '' @ msg),
          set_state ''error'' (Some msg) (u\<lparr>wdb := marks ms (wdb u)\<rparr>))"
        using exec_try_nodes_exhausted [OF s cu, of ns "[]"] l u(1) nu False by auto
      then show ?thesis using io u Inr False by (simp add: switch_ranked_def, simp add: set_state_def)
    qed
  qed
  then obtain r v where x: "exec (switch_ranked ?c) e u = Some (r, v)"
    and v: "routing (mgr v) = routing (mgr w)" "open_sessions v = open_sessions w" "locks v = locks w"
    by blast
  have "exec (switch_automatic c) e w =
      Some (r, on_mgr (\<lambda>m. m\<lparr>m_cancel_automatic := None\<rparr>) (cancel_ctx ?c v))"
    using x b by (simp add: switch_automatic_def)
  then show ?thesis using v by (simp add: kept_def)
qed

lemma exec_failover_continue:
  "\<exists>d. exec (failover_continue c cause ip (Some s)) e u =
      (case exec (switch_automatic c) e (u\<lparr>open_sessions := open_sessions u - {s}, owner := (owner u)(s := None), wdb := d\<rparr>) of
        None \<Rightarrow> None | Some (_, w') \<Rightarrow> Some ((), w'))"
proof -
  let ?v = "u\<lparr>open_sessions := open_sessions u - {s}, owner := (owner u)(s := None)\<rparr>"
  have "\<exists>x d. exec (if ip = [] then Ret (Inr ()) else db_write c (\<lambda>io now. mark_failure io now ip cause)) e ?v
      = Some (x, ?v\<lparr>wdb := d\<rparr>)"
    by (cases "ip = []") (auto simp: Let_def intro: exI [of _ "wdb u"])
  then obtain x d where m: "exec (if ip = [] then Ret (Inr ()) else db_write c (\<lambda>io now. mark_failure io now ip cause)) e ?v
      = Some (x, ?v\<lparr>wdb := d\<rparr>)" by blast
  obtain d' where "exec (save_selection c ''auto'' [] []) e (?v\<lparr>wdb := d\<rparr>) = Some ((), ?v\<lparr>wdb := d\<rparr>\<lparr>wdb := d'\<rparr>)"
    using exec_save_selection by blast
  with m show ?thesis by (intro exI [of _ d']) (simp add: failover_continue_def close_opt_def split: option.split)
qed

text \<open>
  C32: When the installed session fails, fallback to direct is configured and no node can be
  reached, the failover closes the session, ends a manual selection and leaves traffic
  routed directly.
\<close>

theorem failover_falls_back_to_direct:
  assumes "steady t st pr e" "\<forall>n p. st n p \<noteq> None"
    and "m_session (mgr w) = Some s" "\<not> m_connection_paused (mgr w)" "fallback_to_direct (conf w)"
    and "\<forall>l. locks w l = None" "ctx_err w c = None" "ctx_errs w (next_ctx w) = None"
  shows "\<exists>w'. exec (failover c (Some s) cause) e w = Some ((), w') \<and>
    m_session (mgr w') = None \<and> m_direct_mode (mgr w') \<and> m_selection (mgr w') = ''auto'' \<and>
    m_manual_ip (mgr w') = [] \<and> open_sessions w' = open_sessions w - {s} \<and> (\<forall>l. locks w' l = None)"
proof -
  define v where "v = w\<lparr>locks := (locks w)(FailoverMu \<mapsto> t, AutoMu \<mapsto> t)\<rparr>"
  obtain ip u where f: "failover_section True (Some s) cause t v = (Some (ip, Some s), u)" and
    u: "routing (mgr u) = (None, m_node (mgr w), m_protocol (mgr w), ''auto'', [], [], True)"
      "open_sessions u = open_sessions w" "locks u = locks v" "ctx_errs u = ctx_errs w" "next_ctx u = next_ctx w"
    using assms(3,4) by (simp add: failover_section_def take_session_eq v_def routing_def)
  have "\<exists>d. exec (failover_continue c cause ip (Some s)) e u =
      (case exec (switch_automatic c) e (u\<lparr>open_sessions := open_sessions w - {s}, owner := (owner u)(s := None), wdb := d\<rparr>) of
        None \<Rightarrow> None | Some (_, w') \<Rightarrow> Some ((), w'))"
    using exec_failover_continue [of c cause ip s e u] u(2) by simp
  then obtain d where x: "exec (failover_continue c cause ip (Some s)) e u =
      (case exec (switch_automatic c) e (u\<lparr>open_sessions := open_sessions w - {s}, owner := (owner u)(s := None), wdb := d\<rparr>) of
        None \<Rightarrow> None | Some (_, w') \<Rightarrow> Some ((), w'))" ..
  let ?z = "u\<lparr>open_sessions := open_sessions w - {s}, owner := (owner u)(s := None), wdb := d\<rparr>"
  have no: "reachable_with st ?z n = None" for n
    using assms(2) by (simp add: reachable_with_def usable_def find_None_iff)
  have "locks ?z SwitchMu = None" "ctx_err ?z c = None" "ctx_errs ?z (next_ctx ?z) = None"
    using u assms by (simp_all add: v_def ctx_err_def)
  then obtain r w' where y: "exec (switch_automatic c) e ?z = Some (r, w')" "kept ?z w'" "locks w' = locks ?z"
    using exec_switch_unreachable [OF assms(1), of ?z c] no by blast
  have "exec (failover c (Some s) cause) e w = Some ((), w'\<lparr>locks := (locks w')(AutoMu := None, FailoverMu := None)\<rparr>)"
    using assms(5,6) steadyD(1) [OF assms(1)] f x y(1)
    by (simp add: failover_def exec_locked v_def)
  then show ?thesis using y u assms(6)
    by (auto simp: kept_def routing_def v_def)
qed


section \<open>Instances\<close>

definition sample_vpn_node :: node where
  "sample_vpn_node = scan_node (incoming_row empty_db [] (sample_node ''1.2.3.4'' 5))"

definition answers :: "string option \<Rightarrow> world \<Rightarrow> inp" where
  "answers x w = (calm 0)\<lparr>in_start := (\<lambda>_ _. x)\<rparr>"

lemma steady_answers: "steady 0 (\<lambda>_ _. x) (\<lambda>_. Response 204 ''No Content'') (answers x)"
  by (simp add: steady_def answers_def calm_def)

lemma sample_world_simps [simp]:
  "locks sample_world = (\<lambda>_. None)" "ctx_errs sample_world = (\<lambda>_. None)" "wdb sample_world = sample_vpn_db"
  "conf sample_world = default_config ''h'' ''s''" "next_session sample_world = 0" "async sample_world = 0"
  "m_session (mgr sample_world) = None" "\<not> m_connection_paused (mgr sample_world)"
  "\<not> m_closing (mgr sample_world)"
  "m_drivers (mgr sample_world) = [protocol_sstp]" "m_connect_attempt (mgr sample_world) = 0"
  by (simp_all add: sample_world_def initial_world_def new_manager_def sample_vpn_db_def empty_db_def
      get_metadata_def)

lemma ctx_error_none [simp]: "ctx_error (\<lambda>_. None) c = None"
  by (induction c) simp_all

lemma sample_ready: "ready 0 root_ctx sample_world"
  by (simp add: ready_def ctx_err_def)

lemma sample_inv: "world_inv sample_world"
  unfolding sample_world_def by (rule initial_inv)

lemma sample_vpn_row: "sample_vpn_db = \<lparr>rows = [incoming_row empty_db [] (sample_node ''1.2.3.4'' 5)], meta = (\<lambda>_. None)\<rparr>"
  by (simp add: sample_vpn_db_def empty_db_def)

lemma sample_nodes: "store_nodes None (selection_mode (conf sample_world)) 10 0 (wdb sample_world) = Inr ([] @ sample_vpn_node # [])"
  by (simp add: store_nodes_def sql_page_def sample_vpn_row sample_vpn_node_def)

lemma sample_vpn_node_simps:
  "n_ip sample_vpn_node = ''1.2.3.4''" "n_protocols sample_vpn_node = [protocol_sstp]"
  by (simp_all add: sample_vpn_node_def scan_node_def incoming_row_def sample_node_def Let_def)

lemma sample_ipv4: "is_ipv4 ''1.2.3.4''"
  by code_simp

lemma sample_node_found: "store_node None ''1.2.3.4'' sample_vpn_db = Inr sample_vpn_node"
proof -
  have "c_ip (incoming_row empty_db [] (sample_node ''1.2.3.4'' 5)) = ''1.2.3.4''"
    unfolding c_ip_incoming_row by (simp add: sample_node_def)
  then show ?thesis by (simp add: store_node_def find_row_def sample_vpn_row sample_vpn_node_def)
qed

lemma sample_reachable: "reachable_with (\<lambda>_ _. None) sample_world sample_vpn_node = Some protocol_sstp"
  using sample_ipv4
  by (simp add: reachable_with_def sample_vpn_node_simps usable_def default_config_def protocol_defs)

lemma sample_unreachable: "reachable_with (\<lambda>_ _. Some ''down'') sample_world n = None"
  by (simp add: reachable_with_def usable_def find_None_iff)

lemma switch_automatic_best_node_witness:
  "\<exists>w'. exec (switch_automatic_locked root_ctx) (answers None) sample_world = Some (None, w') \<and>
    active_ip (mgr w') = ''1.2.3.4''"
  using switch_automatic_best_node [OF steady_answers sample_ready sample_inv sample_nodes _ sample_reachable]
  by (auto simp: sample_vpn_node_simps)

lemma switch_automatic_all_fail_witness:
  "\<exists>w' msg. exec (switch_automatic_locked root_ctx) (answers (Some ''down'')) sample_world =
      Some (Some (''connect to ranked VPN nodes: '' @ msg), w') \<and> m_state (mgr w') = ''error''"
  using switch_automatic_all_fail [OF steady_answers sample_ready sample_nodes, of "Some ''down''"]
    sample_unreachable by auto

lemma candidate_all_or_nothing_witness:
  "\<exists>w'. exec (candidate_body root_ctx sample_vpn_node ''manual'' [] 0) (answers None) sample_world = Some ((), w')"
  using candidate_all_or_nothing [OF sample_inv, of root_ctx sample_vpn_node "''manual''" "[]" 0 "answers None"]
  by auto

definition manual_world :: "string \<Rightarrow> world" where
  "manual_world protocol = on_mgr (\<lambda>m. m\<lparr>m_selection := ''manual'', m_manual_ip := ''1.2.3.4'',
     m_manual_protocol := protocol\<rparr>) sample_world"

lemma sample_validate: "validate_forced [protocol_sstp] sample_vpn_node protocol_sstp = None"
  by (simp add: validate_forced_def sample_vpn_node_simps)


lemma resume_unsupported_is_stuck_witness:
  "\<exists>msg w'. exec (set_direct_mode root_ctx False) (answers None)
      (on_mgr (\<lambda>m. m\<lparr>m_connection_paused := True\<rparr>) (manual_world protocol_l2tp)) = Some (Some msg, w') \<and>
    m_state (mgr w') = ''connecting''"
  using resume_unsupported_is_stuck [OF steady_answers,
      of "on_mgr (\<lambda>m. m\<lparr>m_connection_paused := True\<rparr>) (manual_world protocol_l2tp)" root_ctx sample_vpn_node None]
  by (auto simp: manual_world_def sample_node_found sample_vpn_node_simps protocol_defs ctx_err_def)

lemma stale_failover_ignored_witness:
  "exec (failover root_ctx (Some 3) ''gone'') (answers None) sample_world = Some ((), sample_world)"
  by (rule stale_failover_ignored) simp_all

definition failing_world :: world where
  "failing_world = (on_mgr (\<lambda>m. m\<lparr>m_session := Some 0\<rparr>) sample_world)
     \<lparr>open_sessions := {0}, next_session := 1,
       conf := (default_config ''h'' ''s'')\<lparr>fallback_to_direct := True\<rparr>\<rparr>"

lemma failover_falls_back_to_direct_witness:
  "\<exists>w'. exec (failover root_ctx (Some 0) ''dead'') (answers (Some ''down'')) failing_world = Some ((), w') \<and>
    m_direct_mode (mgr w') \<and> open_sessions w' = {}"
  using failover_falls_back_to_direct [OF steady_answers, of "Some ''down''" failing_world 0 root_ctx "''dead''"]
  by (auto simp: failing_world_def ctx_err_def)


end
