(* ===== verification/Pool.thy ===== *)
theory Pool
  imports Prog "HOL-Library.Multiset"
begin

text \<open>
  A pool of goroutines that is counted and can be shut: the counterpart of a \<open>sync.WaitGroup\<close> with
  a flag that refuses new members. \<open>acts\<close> judges every action of a program, whatever the state it is
  taken in; the locale \<open>worker_pool\<close> shows that the counter counts the running members, that once
  the pool is shut the goroutines there are do only finitely much, and what a member that cannot go
  on waits for.
\<close>

section \<open>Every action of a program\<close>

text \<open>
  \<open>acts J D B p\<close>: every action of \<open>p\<close>, in any state, is in \<open>D\<close>, and where \<open>p\<close> is blocked
  for all inputs of \<open>J\<close> the state is in \<open>B\<close>.
\<close>

inductive acts ::
  "('i \<Rightarrow> bool) \<Rightarrow> ('w \<Rightarrow> 'w \<Rightarrow> bool) \<Rightarrow> ('w \<Rightarrow> bool) \<Rightarrow> ('i, 'w, 'a) prog \<Rightarrow> bool"
  for J D B where
  acts_Ret: "acts J D B (Ret a)"
| acts_Act: "(\<And>i w p w'. f i w = Some (p, w') \<Longrightarrow> D w w') \<Longrightarrow>
    (\<And>i w p w'. f i w = Some (p, w') \<Longrightarrow> acts J D B p) \<Longrightarrow>
    (\<And>w. (\<And>i. J i \<Longrightarrow> f i w = None) \<Longrightarrow> B w) \<Longrightarrow> acts J D B (Act f)"

inductive_cases acts_ActE: "acts J D B (Act f)"

lemma acts_step: "acts J D B (Act f) \<Longrightarrow> f i w = Some (p, w') \<Longrightarrow> D w w' \<and> acts J D B p"
  by (erule acts_ActE) blast

lemma acts_blocked: "acts J D B (Act f) \<Longrightarrow> (\<And>i. J i \<Longrightarrow> f i w = None) \<Longrightarrow> B w"
  by (erule acts_ActE) blast

lemma acts_mono:
  "acts J D B p \<Longrightarrow> (\<And>w w'. D w w' \<Longrightarrow> D' w w') \<Longrightarrow> (\<And>w. B w \<Longrightarrow> B' w) \<Longrightarrow> acts J D' B' p"
  by (induction rule: acts.induct) (auto intro!: acts.intros)

lemma acts_any: "acts J D B p \<Longrightarrow> acts J' D (\<lambda>_. True) p"
  by (induction rule: acts.induct) (auto intro!: acts.intros)

lemma acts_bind:
  assumes "acts J D B p" "\<And>a. acts J D B (k a)"
  shows "acts J D B (bind_prog p k)"
  using assms(1)
proof (induction rule: acts.induct)
  case (acts_Ret a)
  then show ?case using assms(2) by simp
next
  case (acts_Act f)
  show ?case
    unfolding bind_prog.simps
  proof (rule acts.acts_Act)
    fix i w q w'
    assume "map_option (map_prod (\<lambda>p. bind_prog p k) id) (f i w) = Some (q, w')"
    then obtain p where "f i w = Some (p, w')" "q = bind_prog p k" by auto
    then show "D w w'" "acts J D B q" using acts_Act by blast+
  next
    fix w
    assume "\<And>i. J i \<Longrightarrow> map_option (map_prod (\<lambda>p. bind_prog p k) id) (f i w) = None"
    then show "B w" using acts_Act.hyps(3) by simp
  qed
qed

lemma acts_atomic:
  assumes "\<And>i w. D w (snd (f i w))" "\<exists>i. J i"
  shows "acts J D B (atomic f)"
proof -
  have f: "(case f i w of (a, w') \<Rightarrow> Some (Ret a, w')) = Some (Ret (fst (f i w)), snd (f i w))" for i w
    by (simp add: case_prod_beta)
  show ?thesis
    unfolding atomic_def f by (rule acts.acts_Act) (use assms in \<open>auto intro: acts.intros\<close>)
qed

lemma acts_await:
  "(\<And>i w a w'. f i w = Some (a, w') \<Longrightarrow> D w w') \<Longrightarrow> (\<And>w. (\<And>i. J i \<Longrightarrow> f i w = None) \<Longrightarrow> B w) \<Longrightarrow>
   acts J D B (await f)"
  unfolding await_def by (rule acts.acts_Act) (auto intro: acts.intros)

section \<open>Programs end\<close>

text \<open>What is left of a program after one action; no program acts for ever.\<close>

definition child :: "('i, 'w, 'a) prog \<Rightarrow> ('i, 'w, 'a) prog \<Rightarrow> bool" where
  "child p' p \<longleftrightarrow> (\<exists>f i w w'. p = Act f \<and> f i w = Some (p', w'))"

lemma wfp_child: "wfp child"
proof (rule wfpUNIVI)
  fix P :: "('a, 'b, 'c) prog \<Rightarrow> bool" and p
  assume step: "\<forall>x. (\<forall>y. child y x \<longrightarrow> P y) \<longrightarrow> P x"
  show "P p"
  proof (induction p)
    case (Ret a)
    then show ?case using step by (auto simp: child_def)
  next
    case (Act f)
    have "P q" if "child q (Act f)" for q
    proof -
      from that obtain i w w' where f: "f i w = Some (q, w')" by (auto simp: child_def)
      then have "Some (q, w') \<in> range (f i)" by (metis rangeI)
      then show ?thesis using Act.IH [of "f i" "Some (q, w')" "(q, w')" q] by simp
    qed
    then show ?case using step by blast
  qed
qed

text \<open>One step of the goroutines there are: nothing comes from outside.\<close>

abbreviation work ::
  "('i \<Rightarrow> nat) \<Rightarrow> ('w \<Rightarrow> 'w \<times> ('i, 'w, unit) prog list) \<Rightarrow>
   'w \<times> ('i, 'w, unit) prog list \<Rightarrow> 'w \<times> ('i, 'w, unit) prog list \<Rightarrow> bool" where
  "work tid drain \<equiv> sys_step tid drain (\<lambda>_ _. False) {}"

lemma work_sys_step: "work tid drain s s' \<Longrightarrow> sys_step tid drain env calls s s'"
  by (erule sys_stepE) (auto intro: sys_step.run)

lemma work_steps: "(work tid drain)\<^sup>*\<^sup>* s s' \<Longrightarrow> (sys_step tid drain env calls)\<^sup>*\<^sup>* s s'"
  by (rule mono_rtranclp [rule_format]) (rule work_sys_step)

lemma can_move_work: "can_move tid (w, ts) k \<Longrightarrow> \<exists>s'. work tid drain (w, ts) s'"
proof -
  assume "can_move tid (w, ts) k"
  then obtain f i p w' where "k < length ts" "ts ! k = Act f" "tid i = k" "f i w = Some (p, w')"
    by (auto simp: can_move_def)
  then have "work tid drain (w, ts) (fst (drain w'), ts[k := p] @ snd (drain w'))"
    by (intro sys_step.run [where f = f and i = i and w' = w']) simp_all
  then show ?thesis by blast
qed

section \<open>The pool\<close>

text \<open>
  What an action does to the pool: it starts the members \<open>l\<close>, each counted, and none when the pool is
  shut, which it stays.
\<close>

definition pool_step ::
  "('w \<Rightarrow> nat) \<Rightarrow> ('w \<Rightarrow> 't list) \<Rightarrow> ('w \<Rightarrow> bool) \<Rightarrow> 'w \<Rightarrow> 'w \<Rightarrow> bool" where
  "pool_step running started shut w w' \<longleftrightarrow> (\<exists>l. started w' = started w @ l \<and>
     running w' = running w + length l \<and> (shut w \<longrightarrow> shut w' \<and> l = []))"

lemma pool_step_same:
  "running w' = running w \<Longrightarrow> started w' = started w \<Longrightarrow> (shut w \<Longrightarrow> shut w') \<Longrightarrow>
   pool_step running started shut w w'"
  by (simp add: pool_step_def)

lemma mult_update:
  assumes "k < length xs" "r y (xs ! k)"
  shows "(mset (xs[k := y]), mset xs) \<in> mult {(a, b). r a b}"
proof -
  obtain M where "mset xs = add_mset (xs ! k) M"
    using assms(1) by (meson mset_add nth_mem_mset)
  moreover from this have "mset (xs[k := y]) = add_mset y M"
    using assms(1) by (simp add: mset_update)
  ultimately show ?thesis
    using one_step_implies_mult [of "{#xs ! k#}" "{#y#}" "{(a, b). r a b}" M] assms(2) by simp
qed

locale worker_pool =
  fixes tid :: "'i \<Rightarrow> nat"
    and drain :: "'w \<Rightarrow> 'w \<times> ('i, 'w, unit) prog list"
    and env :: "'w \<Rightarrow> 'w \<Rightarrow> bool"
    and calls :: "('i, 'w, unit) prog set"
    and body :: "'t \<Rightarrow> ('i, 'w, unit) prog"
    and leave :: "'w \<Rightarrow> 'w"
    and running :: "'w \<Rightarrow> nat"
    and started :: "'w \<Rightarrow> 't list"
    and shut :: "'w \<Rightarrow> bool"
    and waits :: "'t \<Rightarrow> 'w \<Rightarrow> bool"
    and call_waits :: "'w \<Rightarrow> bool"
    and sane :: "'w \<times> ('i, 'w, unit) prog list \<Rightarrow> bool"
    and valid :: "'t \<Rightarrow> 'w \<Rightarrow> bool"
  assumes drains: "drain w = (w', new) \<Longrightarrow> new = map (\<lambda>t. bind_prog (body t) (\<lambda>_. modify leave)) (started w) \<and>
      started w' = [] \<and> running w' = running w \<and> shut w' = shut w \<and> (valid t w \<longrightarrow> valid t w')"
    and leaves: "running (leave w) = running w - 1" "started (leave w) = started w" "shut (leave w) = shut w"
    and outside_same: "env w w' \<Longrightarrow> running w' = running w \<and> started w' = started w \<and> shut w' = shut w \<and>
      (valid t w \<longrightarrow> valid t w')"
    and input: "\<exists>i. tid i = k"
    and body_acts: "acts (\<lambda>i. tid i = k) (pool_step running started shut) (waits t) (body t)"
    and calls_act: "p \<in> calls \<Longrightarrow> acts (\<lambda>i. tid i = k) (pool_step running started shut) call_waits p"
    and sane_step: "sane s \<Longrightarrow> sys_step tid drain env calls s s' \<Longrightarrow> sane s'"
    and sane_act: "sane (w, ts) \<Longrightarrow> k < length ts \<Longrightarrow> ts ! k = Act f \<Longrightarrow> tid i = k \<Longrightarrow> f i w = Some (p, w') \<Longrightarrow>
      (valid t w \<longrightarrow> valid t w') \<and> (t \<in> set (started w') \<longrightarrow> valid t w')"
begin

text \<open>A member runs a task, and what the task was started with stays valid.\<close>

definition member_of :: "'t \<Rightarrow> nat \<Rightarrow> ('i, 'w, unit) prog \<Rightarrow> bool" where
  "member_of t k p \<longleftrightarrow> (\<exists>q :: ('i, 'w, unit) prog. p = bind_prog q (\<lambda>_. modify leave) \<and>
     acts (\<lambda>i. tid i = k) (pool_step running started shut) (waits t) q)"

definition member :: "nat \<Rightarrow> ('i, 'w, unit) prog \<Rightarrow> 'w \<Rightarrow> bool" where
  "member k p w \<longleftrightarrow> (\<exists>t. valid t w \<and> member_of t k p)"

text \<open>
  The members \<open>T\<close> among the goroutines \<open>ts\<close>; \<open>V\<close> is what is known of the others, which a
  step must keep.
\<close>

definition crew ::
  "(nat \<Rightarrow> ('i, 'w, unit) prog \<Rightarrow> bool) \<Rightarrow> nat set \<Rightarrow> 'w \<Rightarrow> ('i, 'w, unit) prog list \<Rightarrow> bool" where
  "crew V T w ts \<longleftrightarrow> T \<subseteq> {..<length ts} \<and> (\<forall>k \<in> T. member k (ts ! k) w) \<and>
     (\<forall>k < length ts. k \<notin> T \<longrightarrow> V k (ts ! k))"

lemma member_keeps: "(\<And>t. valid t w \<longrightarrow> valid t w') \<Longrightarrow> member k p w \<Longrightarrow> member k p w'"
  unfolding member_def by blast

lemma crew_keeps: "(\<And>t. valid t w \<longrightarrow> valid t w') \<Longrightarrow> crew V T w ts \<Longrightarrow> crew V T w' ts"
  unfolding crew_def using member_keeps by blast

definition kept_by_steps :: "(nat \<Rightarrow> ('i, 'w, unit) prog \<Rightarrow> bool) \<Rightarrow> bool" where
  "kept_by_steps V \<longleftrightarrow> (\<forall>k. V k (Ret ())) \<and>
     (\<forall>k f i w p w'. V k (Act f) \<longrightarrow> f i w = Some (p, w') \<longrightarrow> pool_step running started shut w w' \<and> V k p)"

definition visitor :: "nat \<Rightarrow> ('i, 'w, unit) prog \<Rightarrow> bool" where
  "visitor k = acts (\<lambda>i. tid i = k) (pool_step running started shut) call_waits"

lemma visitor_kept: "kept_by_steps visitor"
  unfolding kept_by_steps_def visitor_def
proof (intro conjI allI impI)
  fix k f i w p w'
  assume "acts (\<lambda>i. tid i = k) (pool_step running started shut) call_waits (Act f)" "f i w = Some (p, w')"
  then show "pool_step running started shut w w'"
    "acts (\<lambda>i. tid i = k) (pool_step running started shut) call_waits p"
    by (metis acts_step)+
qed (rule acts_Ret)

text \<open>The counter is the number of the members that run; none of \<open>K\<close> is one.\<close>

definition counted ::
  "(nat \<Rightarrow> ('i, 'w, unit) prog \<Rightarrow> bool) \<Rightarrow> nat set \<Rightarrow> 'w \<times> ('i, 'w, unit) prog list \<Rightarrow> bool" where
  "counted V K = (\<lambda>(w, ts). sane (w, ts) \<and> started w = [] \<and> K \<subseteq> {..<length ts} \<and>
     (\<exists>T. crew V T w ts \<and> T \<inter> K = {} \<and> running w = card T))"

lemma member_step:
  assumes "member_of t k (Act f)" "f i w = Some (p, w')"
  shows "w' = leave w \<and> p = Ret () \<or> pool_step running started shut w w' \<and> member_of t k p"
proof -
  from assms(1) obtain q :: "('i, 'w, unit) prog" where q: "Act f = bind_prog q (\<lambda>_. modify leave)"
    "acts (\<lambda>i. tid i = k) (pool_step running started shut) (waits t) q" unfolding member_of_def by blast
  show ?thesis
  proof (cases q)
    case (Ret a)
    then have "f = (\<lambda>i w. Some (Ret (), leave w))" using q(1) by (simp add: modify_def atomic_def)
    then show ?thesis using assms(2) by simp
  next
    case (Act g)
    then have "f = (\<lambda>i w. map_option (map_prod (\<lambda>p. bind_prog p (\<lambda>_. modify leave)) id) (g i w))"
      using q(1) by simp
    then obtain p' where g: "g i w = Some (p', w')" "p = bind_prog p' (\<lambda>_. modify leave)"
      using assms(2) by auto
    then show ?thesis
      using q(2) acts_step [where f = g and i = i and w = w and p = p' and w' = w']
      unfolding Act member_of_def by blast
  qed
qed

lemma crew_update:
  assumes "crew V T w ts" "U \<subseteq> T" "T - {k} \<subseteq> U" "k \<in> U \<Longrightarrow> member k p w" "k \<notin> U \<Longrightarrow> V k p"
  shows "crew V U w (ts[k := p])"
  unfolding crew_def
proof (intro conjI ballI allI impI)
  show "U \<subseteq> {..<length (ts[k := p])}" using assms(1,2) by (auto simp: crew_def)
next
  fix j
  assume "j \<in> U"
  then show "member j (ts[k := p] ! j) w" using assms by (cases "j = k") (auto simp: crew_def)
next
  fix j
  assume "j < length (ts[k := p])" "j \<notin> U"
  then show "V j (ts[k := p] ! j)"
    using assms(1,3,5) unfolding crew_def by (cases "j = k") (simp_all, blast)
qed

lemma crew_append:
  assumes "crew V T w ts" "\<And>t. t \<in> set new \<Longrightarrow> \<exists>b. valid b w \<and> t = bind_prog (body b) (\<lambda>_. modify leave)"
  shows "crew V (T \<union> {length ts..<length ts + length new}) w (ts @ new)"
  unfolding crew_def
proof (intro conjI ballI allI impI)
  show "T \<union> {length ts..<length ts + length new} \<subseteq> {..<length (ts @ new)}"
    using assms(1) by (auto simp: crew_def)
next
  fix j
  assume j: "j \<in> T \<union> {length ts..<length ts + length new}"
  show "member j ((ts @ new) ! j) w"
  proof (cases "j < length ts")
    case True
    then show ?thesis using j assms(1) by (auto simp: crew_def nth_append)
  next
    case False
    then have "(ts @ new) ! j \<in> set new" using j assms(1) by (auto simp: nth_append crew_def)
    then show ?thesis using assms(2) body_acts unfolding member_def member_of_def by blast
  qed
next
  fix j
  assume "j < length (ts @ new)" "j \<notin> T \<union> {length ts..<length ts + length new}"
  then show "V j ((ts @ new) ! j)" using assms(1) by (auto simp: crew_def nth_append)
qed

lemma crew_finite: "crew V T w ts \<Longrightarrow> finite T"
  unfolding crew_def using finite_subset by blast

lemma counted_run:
  assumes V: "kept_by_steps V" and c: "counted V K (w, ts)"
    and k: "k < length ts" "ts ! k = Act f" and i: "tid i = k" and f: "f i w = Some (p, w')"
    and d: "drain w' = (w'', new)"
  shows "counted V K (w'', ts[k := p] @ new) \<and> (shut w \<longrightarrow> shut w'' \<and> new = [])"
proof -
  from c obtain T where c': "crew V T w ts" and T0: "T \<inter> K = {}" "running w = card T" "started w = []"
    "K \<subseteq> {..<length ts}" and sane: "sane (w, ts)" by (auto simp: counted_def)
  have v: "valid t w \<longrightarrow> valid t w'" "t \<in> set (started w') \<longrightarrow> valid t w'" "valid t w' \<longrightarrow> valid t w''" for t
    using sane_act [OF sane k i f, of t] drains [OF d, of t] by blast+
  note T = crew_keeps [OF v(1) c'] T0
  have sane': "sane (w'', ts[k := p] @ new)"
    by (rule sane_step [OF sane sys_step.run [where f = f and i = i and w' = w']]) (use k i f d in simp_all)
  have dr: "new = map (\<lambda>t. bind_prog (body t) (\<lambda>_. modify leave)) (started w')" "started w'' = []"
    "running w'' = running w'" "shut w'' = shut w'" using drains [OF d] by auto
  let ?N = "{length ts..<length ts + length new}"
  have moved: ?thesis
    if U: "crew V U w' (ts[k := p])" "U \<subseteq> T" and n: "running w' = card U + length new"
      and s: "shut w \<longrightarrow> shut w' \<and> started w' = []" for U
  proof -
    have "crew V (U \<union> ?N) w' (ts[k := p] @ new)" using crew_append [OF U(1), of new] dr(1) v(2) by auto
    then have crew: "crew V (U \<union> ?N) w'' (ts[k := p] @ new)" by (rule crew_keeps [OF v(3)])
    have sub: "U \<subseteq> {..<length ts}" using U(1) by (auto simp: crew_def)
    then have "card (U \<union> ?N) = card U + length new"
      by (subst card_Un_disjoint) (auto intro: finite_subset)
    moreover have "(U \<union> ?N) \<inter> K = {}" "K \<subseteq> {..<length (ts[k := p] @ new)}" using U(2) T(2,5) by auto
    ultimately have "counted V K (w'', ts[k := p] @ new)"
      using sane' crew n dr(2,3) unfolding counted_def prod.case by (intro conjI exI [of _ "U \<union> ?N"]) simp_all
    then show ?thesis using s dr by simp
  qed
  have act: "running w' = card T + length new \<and> (shut w \<longrightarrow> shut w' \<and> started w' = [])"
    if "pool_step running started shut w w'" using that T dr(1) by (auto simp: pool_step_def)
  show ?thesis
  proof (cases "k \<in> T")
    case False
    then have "V k (Act f)" using T(1) k by (auto simp: crew_def)
    then have p: "pool_step running started shut w w'" "V k p"
      using V f unfolding kept_by_steps_def by blast+
    then have "crew V T w' (ts[k := p])" using False by (intro crew_update [OF T(1)]) auto
    then show ?thesis using moved [of T] act p(1) by simp
  next
    case True
    then obtain t where t: "valid t w'" "member_of t k (Act f)"
      using T(1) k(2) by (auto simp: crew_def member_def)
    from member_step [OF t(2) f] show ?thesis
    proof
      assume l: "w' = leave w \<and> p = Ret ()"
      have "crew V (T - {k}) w' (ts[k := p])"
        using l V by (intro crew_update [OF T(1)]) (auto simp: kept_by_steps_def)
      then show ?thesis
        using moved [of "T - {k}"] l leaves [of w] T True dr(1) crew_finite [OF T(1)] by auto
    next
      assume m: "pool_step running started shut w w' \<and> member_of t k p"
      then have "member k p w'" using t(1) unfolding member_def by blast
      then have "crew V T w' (ts[k := p])" using True by (intro crew_update [OF T(1)]) auto
      then show ?thesis using moved [of T] act m by simp
    qed
  qed
qed

lemma counted_step:
  assumes "sys_step tid drain env calls s s'" "counted visitor {} s"
  shows "counted visitor {} s'"
  using assms(1)
proof (cases rule: sys_step.cases)
  case (run k ts f i w p w' w'' new)
  then show ?thesis using counted_run [OF visitor_kept, of "{}" w ts k f i p w' w'' new] assms(2) by simp
next
  case (outside w w' ts)
  have s: "sane s'" by (rule sane_step [OF _ assms(1)]) (use assms(2) in \<open>auto simp: counted_def\<close>)
  have "crew visitor T w' ts" if "crew visitor T w ts" for T
    by (rule crew_keeps [OF _ that]) (use outside_same [OF outside(3)] in blast)
  then show ?thesis using outside_same [OF outside(3)] assms(2) s outside(1,2) by (auto simp: counted_def)
next
  case (call p w ts)
  have s: "sane s'" by (rule sane_step [OF _ assms(1)]) (use assms(2) in \<open>auto simp: counted_def\<close>)
  have "visitor (length ts) p" using calls_act [OF call(3)] by (simp add: visitor_def)
  then have "crew visitor T w (ts @ [p])" if "crew visitor T w ts" for T
    using that by (auto simp: crew_def nth_append less_Suc_eq)
  then show ?thesis using assms(2) s unfolding call counted_def by auto
qed

lemma counted_reachable:
  "(sys_step tid drain env calls)\<^sup>*\<^sup>* s s' \<Longrightarrow> counted visitor {} s \<Longrightarrow> counted visitor {} s'"
  by (induction rule: rtranclp_induct) (auto intro: counted_step)

text \<open>
  A last visitor: the call \<open>k0\<close> arrives when all others have returned, so that only members run
  beside it.
\<close>

definition guest :: "nat \<Rightarrow> nat \<Rightarrow> ('i, 'w, unit) prog \<Rightarrow> bool" where
  "guest k0 k p \<longleftrightarrow> (if k = k0 then visitor k p else p = Ret ())"

lemma guest_kept: "kept_by_steps (guest k0)"
  using visitor_kept unfolding kept_by_steps_def guest_def by auto

lemma member_runs: "\<not> member k (Ret a) w"
proof
  assume "member k (Ret a) w"
  then obtain q :: "('i, 'w, unit) prog" where "Ret a = bind_prog q (\<lambda>_. modify leave)"
    unfolding member_def member_of_def by blast
  then show False by (cases q) (simp_all add: modify_def atomic_def)
qed

lemma guest_arrives:
  assumes c: "counted visitor {} (w, ts)" and all: "length (filter (\<lambda>p. p \<noteq> Ret ()) ts) = running w"
    and p: "p \<in> calls"
  shows "counted (guest (length ts)) {length ts} (w, ts @ [p])"
proof -
  from c obtain T where T: "crew visitor T w ts" "running w = card T" "started w = []" and sane: "sane (w, ts)"
    by (auto simp: counted_def)
  have sane': "sane (w, ts @ [p])" by (rule sane_step [OF sane sys_step.call [OF p]])
  let ?U = "{k. k < length ts \<and> ts ! k \<noteq> Ret ()}"
  have sub: "T \<subseteq> ?U"
  proof
    fix k
    assume "k \<in> T"
    then have "k < length ts" "member k (ts ! k) w" using T(1) by (auto simp: crew_def)
    then show "k \<in> ?U" using member_runs [of k "()" w] by auto
  qed
  have "card T = card ?U" using all T(2) by (simp add: length_filter_conv_card)
  with sub have "T = ?U" by (simp add: card_subset_eq)
  moreover have "visitor (length ts) p" using calls_act [OF p] by (simp add: visitor_def)
  ultimately have "crew (guest (length ts)) T w (ts @ [p])"
    using T(1) by (auto simp: crew_def nth_append guest_def less_Suc_eq)
  moreover have "T \<inter> {length ts} = {}" using T(1) by (auto simp: crew_def)
  ultimately show ?thesis using T(2,3) sane' unfolding counted_def by auto
qed

text \<open>With no member running only the last visitor can move.\<close>

lemma only_guest:
  assumes "counted (guest k0) {k0} (w, ts)" "running w = 0" "k < length ts" "ts ! k = Act f"
  shows "k = k0"
proof -
  from assms obtain T where "crew (guest k0) T w ts" "card T = 0" by (auto simp: counted_def)
  then have "guest k0 k (ts ! k)" using assms(3) crew_finite by (auto simp: crew_def)
  then show ?thesis using assms(4) by (simp add: guest_def split: if_splits)
qed

text \<open>Once the pool is shut, a step takes one goroutine further and starts none.\<close>

lemma shut_work:
  assumes "work tid drain s s'" "counted visitor {} s" "shut (fst s)"
  shows "counted visitor {} s' \<and> shut (fst s') \<and> (mset (snd s'), mset (snd s)) \<in> mult {(p, q). child p q}"
  using assms(1)
proof (cases rule: sys_step.cases)
  case (run k ts f i w p w' w'' new)
  then have "counted visitor {} (w'', ts[k := p] @ new) \<and> (shut w \<longrightarrow> shut w'' \<and> new = [])"
    using counted_run [OF visitor_kept, of "{}" w ts k f i p w' w'' new] assms(2) by blast
  then have "counted visitor {} s'" "shut w''" "new = []" using assms(3) run by auto
  moreover have "child p (ts ! k)" using run by (auto simp: child_def)
  ultimately show ?thesis using mult_update [of k ts child p] run by simp
qed simp_all

lemma work_ends:
  assumes "counted visitor {} s" "shut (fst s)"
  shows "\<not> (\<exists>run. run 0 = s \<and> (\<forall>n. work tid drain (run n) (run (Suc n))))"
proof
  assume "\<exists>run. run 0 = s \<and> (\<forall>n. work tid drain (run n) (run (Suc n)))"
  then obtain run where r: "run 0 = s" "\<And>n. work tid drain (run n) (run (Suc n))" by blast
  have c: "counted visitor {} (run n) \<and> shut (fst (run n))" for n
  proof (induction n)
    case (Suc n)
    then show ?case using shut_work [OF r(2) [of n]] by blast
  qed (use assms r(1) in simp)
  have "(mset (snd (run (Suc n))), mset (snd (run n))) \<in> mult {(p, q). child p q}" for n
    using shut_work [OF r(2)] c by blast
  moreover have "wf (mult {(p, q). child p (q :: ('i, 'w, unit) prog)})"
    by (rule wf_mult) (use wfp_child in \<open>simp add: wfp_def\<close>)
  ultimately show False unfolding wf_iff_no_infinite_down_chain by meson
qed

text \<open>Members that run and cannot move wait for what \<open>waits\<close> says, calls for what \<open>call_waits\<close> says.\<close>

lemma stuck_calls:
  assumes "counted visitor K (w, ts)" "running w = 0" "k < length ts" "ts ! k = Act f" "\<not> can_move tid (w, ts) k"
  shows "call_waits w"
proof -
  from assms obtain T where T: "crew visitor T w ts" "card T = 0" by (auto simp: counted_def)
  then have "visitor k (Act f)" using assms(3,4) crew_finite by (auto simp: crew_def)
  then show ?thesis unfolding visitor_def
  proof (rule acts_blocked)
    fix i
    assume "tid i = k"
    then show "f i w = None" using assms(3-5) by (cases "f i w") (auto simp: can_move_def)
  qed
qed

lemma stuck_waits:
  assumes "counted V K (w, ts)" "running w \<noteq> 0" "\<And>k. \<not> can_move tid (w, ts) k"
  shows "\<exists>t. valid t w \<and> waits t w"
proof -
  from assms obtain T where T: "T \<subseteq> {..<length ts}" "running w = card T" "\<And>k. k \<in> T \<Longrightarrow> member k (ts ! k) w"
    by (auto simp: counted_def crew_def)
  then obtain k where k: "k \<in> T" using assms(2) by fastforce
  then have "member k (ts ! k) w" by (rule T(3))
  then obtain t and q :: "('i, 'w, unit) prog" where v: "valid t w" and q: "ts ! k = bind_prog q (\<lambda>_. modify leave)"
    "acts (\<lambda>i. tid i = k) (pool_step running started shut) (waits t) q" unfolding member_def member_of_def by blast
  have len: "k < length ts" using k T(1) by auto
  show ?thesis
  proof (cases q)
    case (Ret a)
    obtain i where "tid i = k" using input by blast
    then have "can_move tid (w, ts) k"
      using q(1) Ret len by (auto simp: can_move_def modify_def atomic_def)
    then show ?thesis using assms(3) by blast
  next
    case (Act g)
    have "waits t w"
    proof (rule acts_blocked [OF q(2) [unfolded Act]])
      fix i
      assume i: "tid i = k"
      show "g i w = None"
      proof (rule ccontr)
        assume "g i w \<noteq> None"
        then have "can_move tid (w, ts) k" using q(1) Act len i by (auto simp: can_move_def)
        then show False using assms(3) by blast
      qed
    qed
    then show ?thesis using v by blast
  qed
qed

end

end
