(* ===== verification/VpnShutdown.thy ===== *)
theory VpnShutdown
  imports VpnGuarantee Pool
begin

text \<open>
  Shutting the VPN manager down: \<open>m.closing\<close> and \<open>m.async\<close> of \<open>src/internal/vpn/manager.go\<close> as a
  \<open>worker_pool\<close>. Once \<open>Close\<close> has begun, the goroutines there are end, \<open>Close\<close>'s own included:
  those that wait for a session to end wait for one that \<open>Close\<close> or another goroutine closes.
\<close>

section \<open>What each operation does to the pool\<close>

lemma bind_assoc: "bind_prog (bind_prog p k) l = bind_prog p (\<lambda>a. bind_prog (k a) l)"
proof (induction p)
  case (Act f)
  have "map_option (map_prod (\<lambda>p. bind_prog p l) id) (map_option (map_prod (\<lambda>p. bind_prog p k) id) (f i w)) =
      map_option (map_prod (\<lambda>p. bind_prog p (\<lambda>a. bind_prog (k a) l)) id) (f i w)" for i w
  proof (cases "f i w")
    case (Some r)
    then have "Some r \<in> range (f i)" by (metis rangeI)
    then show ?thesis using Some Act.IH [of "f i" "Some r" r "fst r"] by (cases r) simp
  qed simp
  then show ?case by simp
qed simp

abbreviation pool :: "world \<Rightarrow> world \<Rightarrow> bool" where
  "pool \<equiv> pool_step async spawned (\<lambda>w. m_closing (mgr w))"

text \<open>An action of the pool that does not begin to close.\<close>

definition quiet_pool :: "world \<Rightarrow> world \<Rightarrow> bool" where
  "quiet_pool w w' \<longleftrightarrow> pool w w' \<and> m_closing (mgr w') = m_closing (mgr w) \<and> (swept w \<longrightarrow> swept w')"

definition lock_taken :: "world \<Rightarrow> bool" where
  "lock_taken w \<longleftrightarrow> (\<exists>l. locks w l \<noteq> None)"

abbreviation pooled :: "nat \<Rightarrow> 'a act \<Rightarrow> bool" where
  "pooled t \<equiv> acts (\<lambda>i. in_tid i = t) quiet_pool lock_taken"

lemma pooled_atomic:
  "(\<And>i w. quiet_pool w (snd (f i w))) \<Longrightarrow> pooled t (atomic f)"
  by (rule acts_atomic) (use some_input in auto)

text \<open>An action that starts nothing.\<close>

definition poolless :: "world \<Rightarrow> world \<Rightarrow> bool" where
  "poolless w w' \<longleftrightarrow> async w' = async w \<and> spawned w' = spawned w \<and> m_closing (mgr w') = m_closing (mgr w) \<and>
     (swept w \<longrightarrow> swept w')"

lemma poolless_pool: "poolless w w' \<Longrightarrow> quiet_pool w w'"
  by (simp add: poolless_def quiet_pool_def pool_step_same)

lemma poolless_refl [simp]: "poolless w w"
  by (simp add: poolless_def)

lemma pooled_quiet: "(\<And>i w. poolless w (snd (f i w))) \<Longrightarrow> pooled t (atomic f)"
  by (rule pooled_atomic) (rule poolless_pool)

lemma pooled_modify: "(\<And>w. poolless w (f w)) \<Longrightarrow> pooled t (modify f)"
  unfolding modify_def by (rule pooled_quiet) simp

lemma pooled_ask: "pooled t (ask f)"
  unfolding ask_def by (rule pooled_quiet) simp

lemma pooled_if: "pooled t p \<Longrightarrow> pooled t q \<Longrightarrow> pooled t (if b then p else q)"
  by simp

lemma pooled_option: "pooled t p \<Longrightarrow> (\<And>a. pooled t (q a)) \<Longrightarrow> pooled t (case x of None \<Rightarrow> p | Some a \<Rightarrow> q a)"
  by (cases x) simp_all

lemma pooled_sum: "(\<And>a. pooled t (p a)) \<Longrightarrow> (\<And>a. pooled t (q a)) \<Longrightarrow> pooled t (case x of Inl a \<Rightarrow> p a | Inr a \<Rightarrow> q a)"
  by (cases x) simp_all

lemma pooled_prod: "(\<And>a b. pooled t (p a b)) \<Longrightarrow> pooled t (case x of (a, b) \<Rightarrow> p a b)"
  by (cases x) simp

lemma pooled_bool: "pooled t p \<Longrightarrow> pooled t q \<Longrightarrow> pooled t (case b of True \<Rightarrow> p | False \<Rightarrow> q)"
  by (cases b) simp_all

lemma pooled_ctx_check: "pooled t (ctx_check c)"
  unfolding ctx_check_def by (rule pooled_ask)

lemma pooled_db_read: "pooled t (db_read c f)"
  unfolding db_read_def by (rule pooled_quiet) simp

lemma pooled_db_write: "pooled t (db_write c f)"
  unfolding db_write_def by (rule pooled_quiet) (simp add: poolless_def split: prod.splits)

lemma pooled_start_async: "pooled t (start_async k)"
  unfolding start_async_def by (rule pooled_atomic) (auto simp: run_async_def quiet_pool_def pool_step_def)

lemma pooled_close_session: "pooled t (close_session s)"
  unfolding close_session_def by (rule pooled_quiet) (simp add: close_session_section_def poolless_def)

lemma poolless_cancel [simp]: "poolless w (cancel_ctx c w)"
  by (simp add: poolless_def cancel_ctx_def split: list.splits)

lemma pooled_cancel_act: "pooled t (cancel_act c)"
  unfolding cancel_act_def by (rule pooled_modify) simp

lemma pooled_new_ctx: "pooled t (new_ctx c)"
  unfolding new_ctx_def by (rule pooled_quiet) (simp add: poolless_def with_cancel_def)

lemma pooled_lock: "pooled t (lock l)"
  unfolding lock_def
proof (rule acts_await)
  fix w :: world
  assume b: "\<And>i :: inp. in_tid i = t \<Longrightarrow>
      (if locks w l = None then Some ((), w\<lparr>locks := (locks w)(l \<mapsto> in_tid i)\<rparr>) else None) = None"
  obtain i :: inp where "in_tid i = t" using some_input by blast
  from b [OF this] have "locks w l \<noteq> None" by (simp split: if_splits)
  then show "lock_taken w" unfolding lock_taken_def by blast
qed (auto simp: quiet_pool_def pool_step_def split: if_splits)

lemma pooled_unlock: "pooled t (unlock l)"
  unfolding unlock_def by (rule pooled_modify) (simp add: poolless_def)

lemmas pooled_rules = acts_Ret acts_bind pooled_if pooled_option pooled_sum pooled_prod pooled_bool pooled_ask pooled_ctx_check
  pooled_db_read pooled_db_write pooled_start_async pooled_close_session pooled_cancel_act
  pooled_new_ctx pooled_lock pooled_unlock

lemma pooled_locked: "pooled t p \<Longrightarrow> pooled t (locked l p)"
  unfolding locked_def by (intro pooled_rules)

lemma pooled_close_opt: "pooled t (close_opt s)"
  unfolding close_opt_def by (intro pooled_rules)

lemma pooled_save_selection: "pooled t (save_selection c a b d)"
  unfolding save_selection_def by (intro pooled_rules)

section \<open>The sections\<close>

lemma take_session_pool [simp]:
  "async (snd (take_session t w)) = async w" "spawned (snd (take_session t w)) = spawned w"
  "m_closing (mgr (snd (take_session t w))) = m_closing (mgr w)" "swept (snd (take_session t w)) = swept w"
  by (simp_all add: take_session_def split: option.splits)

lemma poolless_sections:
  "poolless w (set_state s e w)" "poolless w (set_last_health h w)" "poolless w (snd (pause_section t w))"
  "poolless w (snd (resume_section w))" "poolless w (snd (begin_candidate ip w))"
  "poolless w (snd (begin_automatic c w))" "poolless w (set_automatic w)"
  "poolless w (snd (finish_connect_attempt a e w))"
  "poolless w (snd (install_section s' n p sel x f i w))"
  "poolless w (snd (failover_section fb ex ca t w))" "poolless w (snd (close_section t w))"
  "poolless w (snd (late_section t w))" "poolless w (snd (driver_start n p i w))"
  "poolless w (snd (probe_session o' i w))"
  by (auto simp: poolless_def set_state_def set_last_health_def pause_section_def resume_section_def
      begin_candidate_def with_cancel_def begin_automatic_def set_automatic_def finish_connect_attempt_def
      install_section_def failover_section_def close_section_def late_section_def driver_start_def
      probe_session_def Let_def split: prod.splits option.splits dest!: arg_cong [where f = snd])

section \<open>The operations\<close>

lemmas pooled_sections = pooled_quiet [OF poolless_sections(3)] pooled_quiet [OF poolless_sections(4)]
  pooled_quiet [OF poolless_sections(5)] pooled_quiet [OF poolless_sections(6)]
  pooled_quiet [OF poolless_sections(8)] pooled_quiet [OF poolless_sections(9)]
  pooled_quiet [OF poolless_sections(10)] pooled_quiet [OF poolless_sections(11)]
  pooled_quiet [OF poolless_sections(12)] pooled_quiet [OF poolless_sections(13)]
  pooled_quiet [OF poolless_sections(14)] pooled_modify [OF poolless_sections(1)]
  pooled_modify [OF poolless_sections(7)]

lemma pooled_last_health: "pooled t (atomic (\<lambda>i w. (x, set_last_health (in_now i) w)))"
  by (rule pooled_quiet) (simp add: poolless_sections)

lemma pooled_answer: "pooled t (atomic (\<lambda>i w. (g i, w)))"
  by (rule pooled_quiet) simp

lemma pooled_clear_automatic: "pooled t (modify (on_mgr (\<lambda>m. m\<lparr>m_cancel_automatic := None\<rparr>)))"
  by (rule pooled_modify) (simp add: poolless_def)

lemmas pooled_more = pooled_rules pooled_sections pooled_last_health pooled_answer pooled_clear_automatic
  pooled_locked pooled_close_opt pooled_save_selection

lemma pooled_try_protocols: "pooled t (try_protocols c n health drivers ps failures)"
  by (induction ps arbitrary: failures) (auto simp del: bind_prog.simps intro!: pooled_more split: option.split)

lemma pooled_activate: "pooled t (activate c n selection health expected forced)"
  unfolding activate_def connect_node_def connect_failed_def install_connected_def install_def
  by (intro pooled_more pooled_try_protocols)

lemma pooled_try_nodes: "pooled t (try_nodes c ns failures)"
  by (induction ns arbitrary: failures)
    (auto simp: Let_def simp del: bind_prog.simps intro!: pooled_more pooled_activate split: option.split)

lemma pooled_switch: "pooled t (switch_automatic_locked c)" "pooled t (switch_automatic c)"
  unfolding switch_automatic_locked_def switch_automatic_def switch_ranked_def
  by (intro pooled_more pooled_try_nodes)+

lemma pooled_failover: "pooled t (failover c expected cause)"
  unfolding failover_def failover_continue_def by (intro pooled_more pooled_switch)

lemma pooled_start_candidate: "pooled t (start_candidate n selection forced)"
  unfolding start_candidate_def by (intro pooled_more)

lemma pooled_start_automatic: "pooled t start_automatic" "pooled t (go_automatic c)"
  unfolding start_automatic_def go_automatic_def by (intro pooled_more)+

text \<open>A goroutine of the pool waits for a lock, or for its session to end.\<close>

definition task_waits :: "task \<Rightarrow> world \<Rightarrow> bool" where
  "task_waits k w \<longleftrightarrow> lock_taken w \<or> (\<exists>s g. k = WaitTask s g \<and> s \<in> open_sessions w)"

definition task_valid :: "task \<Rightarrow> world \<Rightarrow> bool" where
  "task_valid k w \<longleftrightarrow> (\<forall>s g. k = WaitTask s g \<longrightarrow> was_installed w s = Some False)"

lemma acts_wait_session:
  "acts (\<lambda>i. in_tid i = t) quiet_pool (task_waits (WaitTask s g))
    (await (\<lambda>i w. if s \<in> open_sessions w - ended_sessions w \<and> ctx_err w root_ctx = None then None
       else Some (in_wait i, w)) :: string option act)"
proof (rule acts_await)
  fix w :: world
  assume b: "\<And>i :: inp. in_tid i = t \<Longrightarrow>
      (if s \<in> open_sessions w - ended_sessions w \<and> ctx_err w root_ctx = None then None else Some (in_wait i, w)) = None"
  obtain i :: inp where "in_tid i = t" using some_input by blast
  from b [OF this] have "s \<in> open_sessions w" by (simp split: if_splits)
  then show "task_waits (WaitTask s g) w" by (simp add: task_waits_def)
qed (auto simp: quiet_pool_def pool_step_def split: if_splits)

lemma pooled_task: "pooled t p \<Longrightarrow> acts (\<lambda>i. in_tid i = t) quiet_pool (task_waits k) p"
  by (erule acts_mono) (simp_all add: task_waits_def)

lemma task_acts: "acts (\<lambda>i. in_tid i = t) quiet_pool (task_waits k) (task_body k)"
proof (cases k)
  case (WaitTask s g)
  show ?thesis
    unfolding WaitTask task_body_def task.case wait_body_def
    by (rule acts_bind [OF acts_wait_session]) (intro pooled_task pooled_more pooled_failover)
qed (auto simp del: bind_prog.simps simp: task_body_def candidate_body_def
    intro!: pooled_task pooled_more pooled_switch pooled_activate pooled_failover)

lemma pooled_measure: "pooled t (measure_node c ip)"
  unfolding measure_node_def measure_session_def connect_node_def
  by (intro pooled_more pooled_try_protocols)

lemma pooled_test_node: "pooled t (test_node c ip)"
  unfolding test_node_def by (intro pooled_more pooled_measure)

lemma pooled_calls:
  "pooled t (manager_start c)" "pooled t (select_manual c ip protocol)" "pooled t (set_direct_mode c enabled)"
  "pooled t (reconnect_current c)" "pooled t (after_refresh c)" "pooled t (health_round c)"
  unfolding manager_start_def select_manual_def set_direct_mode_def reconnect_current_def after_refresh_def
    health_round_def check_session_def
  by (intro pooled_more pooled_switch pooled_activate pooled_failover pooled_start_candidate
      pooled_start_automatic)+

text \<open>A call waits for a lock; \<open>Close\<close> also waits for the goroutines of the pool.\<close>

definition call_waits :: "world \<Rightarrow> bool" where
  "call_waits w \<longleftrightarrow> lock_taken w \<or> async w \<noteq> 0"

abbreviation quiet_call :: "nat \<Rightarrow> 'a act \<Rightarrow> bool" where
  "quiet_call t \<equiv> acts (\<lambda>i. in_tid i = t) quiet_pool call_waits"

lemma pooled_call: "pooled t p \<Longrightarrow> quiet_call t p"
  by (erule acts_mono) (simp_all add: call_waits_def)

abbreviation wait_pool :: "unit act" where
  "wait_pool \<equiv> await (\<lambda>_ w. if async w = 0 then Some ((), w) else None)"

lemma acts_wait_pool: "quiet_call t wait_pool"
proof (rule acts_await)
  fix w :: world
  assume b: "\<And>i :: inp. in_tid i = t \<Longrightarrow> (if async w = 0 then Some ((), w) else None) = None"
  obtain i :: inp where "in_tid i = t" using some_input by blast
  from b [OF this] show "call_waits w" by (simp add: call_waits_def split: if_splits)
qed (auto simp: quiet_pool_def pool_step_def split: if_splits)

text \<open>What \<open>Close\<close> does once it has begun; its first action there takes the session.\<close>

definition close_rest :: "string list act" where
  "close_rest =
     bind_prog (atomic (\<lambda>i. close_section (in_tid i))) (\<lambda>session.
     bind_prog (close_opt session) (\<lambda>e1.
     bind_prog wait_pool (\<lambda>_.
     bind_prog (atomic (\<lambda>i. late_section (in_tid i))) (\<lambda>late.
     bind_prog (close_opt (if late = session then None else late)) (\<lambda>e2.
     Ret (List.map_filter id [e1, e2]))))))"

lemma manager_close_rest:
  "manager_close = bind_prog (modify (on_mgr (\<lambda>m. m\<lparr>m_closing := True\<rparr>))) (\<lambda>_. close_rest)"
  by (simp only: manager_close_def close_rest_def)

lemma close_rest_quiet: "quiet_call t close_rest"
  unfolding close_rest_def
  by (intro acts_bind acts_wait_pool pooled_sections [THEN pooled_call] pooled_close_opt [THEN pooled_call] acts_Ret)

lemma call_quiet: "k \<noteq> Close \<Longrightarrow> quiet_call t (call_prog k)"
  by (cases k) (simp_all add: call_prog_def pooled_call pooled_rules pooled_calls pooled_switch pooled_failover
      pooled_test_node del: bind_prog.simps)

text \<open>The first action of \<open>Close\<close>.\<close>

definition sweeps :: "unit act \<Rightarrow> bool" where
  "sweeps p \<longleftrightarrow> (\<exists>f. p = Act f \<and> (\<forall>i w. \<exists>q w'. f i w = Some (q, w') \<and> swept w'))"

lemma sweeps_step: "sweeps (Act f) \<Longrightarrow> f i w = Some (p, w') \<Longrightarrow> swept w'"
  unfolding sweeps_def by (metis option.inject prod.inject prog.inject(2))

lemma close_first:
  assumes "call_prog Close = Act f" "f i w = Some (p, w')"
  shows "w' = on_mgr (\<lambda>m. m\<lparr>m_closing := True\<rparr>) w \<and> sweeps p \<and> quiet_call t p"
proof -
  have f: "f = (\<lambda>i w. Some (bind_prog close_rest (\<lambda>_. Ret ()), on_mgr (\<lambda>m. m\<lparr>m_closing := True\<rparr>) w))"
    using assms(1) by (simp add: call_prog_def manager_close_rest modify_def atomic_def)
  have "swept (snd (close_section u v))" for u v
    by (simp add: close_section_def Let_def split: prod.splits)
  then have "sweeps (bind_prog close_rest (\<lambda>_. Ret ()))"
    by (auto simp: sweeps_def close_rest_def atomic_def split: prod.splits) (metis snd_conv)
  moreover have "quiet_call t (bind_prog close_rest (\<lambda>_. Ret ()))"
    by (intro acts_bind close_rest_quiet acts_Ret)
  ultimately show ?thesis using assms(2) f by simp
qed

lemma call_acts: "acts (\<lambda>i. in_tid i = t) pool call_waits (call_prog k)"
proof (cases "k = Close")
  case True
  have "acts (\<lambda>i. in_tid i = t) pool call_waits (bind_prog close_rest (\<lambda>_. Ret ()))"
    by (rule acts_mono [OF acts_bind [OF close_rest_quiet acts_Ret]]) (simp_all add: quiet_pool_def)
  moreover have "acts (\<lambda>i. in_tid i = t) pool call_waits (modify (on_mgr (\<lambda>m. m\<lparr>m_closing := True\<rparr>)) :: unit act)"
    unfolding modify_def by (rule acts_atomic) (use some_input in \<open>auto simp: pool_step_same\<close>)
  ultimately show ?thesis
    using True by (simp only: call_prog_def call.case manager_close_rest bind_assoc) (rule acts_bind)
next
  case False
  then show ?thesis by (intro acts_mono [OF call_quiet]) (simp_all add: quiet_pool_def)
qed

section \<open>Shutting down\<close>

definition leave_pool :: "world \<Rightarrow> world" where
  "leave_pool w = w\<lparr>async := async w - 1\<rparr>"

lemma drain_tasks: "snd (vpn_drain w) = map (\<lambda>t. bind_prog (task_body t) (\<lambda>_. modify leave_pool)) (spawned w)"
  by (simp add: vpn_drain_def task_prog_def leave_pool_def [abs_def] fun_eq_iff)

lemma sound_world: "vpn.sound (w, ts) \<Longrightarrow> world_inv w"
proof -
  assume "vpn.sound (w, ts)"
  then have "idle (length ts) w" by (simp add: vpn.sound_def)
  then show "world_inv w" by (simp add: idle_def holds_def)
qed

interpretation goroutines: worker_pool in_tid vpn_drain vpn_env "range call_prog" task_body leave_pool
  async spawned "\<lambda>w. m_closing (mgr w)" task_waits call_waits vpn.sound task_valid
proof unfold_locales
  fix w w' :: world and new and k :: task
  assume "vpn_drain w = (w', new)"
  then show "new = map (\<lambda>t. bind_prog (task_body t) (\<lambda>_. modify leave_pool)) (spawned w) \<and>
      spawned w' = [] \<and> async w' = async w \<and> m_closing (mgr w') = m_closing (mgr w) \<and>
      (task_valid k w \<longrightarrow> task_valid k w')"
    using drain_tasks [of w] by (auto simp: vpn_drain_def task_valid_def)
next
  show "vpn.sound s'" if "vpn.sound s" "sys_step in_tid vpn_drain vpn_env (range call_prog) s s'" for s s'
    using that vpn.sound_step by blast
next
  fix w ts k f i p w' x
  assume s: "vpn.sound (w, ts)" and k: "k < length ts" "ts ! k = Act f" "in_tid i = k" and f: "f i w = Some (p, w')"
  obtain w'' new where "vpn_drain w' = (w'', new)" by fastforce
  from vpn.sound_run(1) [OF s k f this] have g: "world_inv w' \<and> grows w w'"
    using sound_world [OF s] by (simp add: guar_def)
  then have "task_valid x w \<longrightarrow> task_valid x w'" by (auto simp: task_valid_def grows_installed)
  moreover have "x \<in> set (spawned w') \<longrightarrow> task_valid x w'"
    using g by (auto simp: task_valid_def world_inv_def history_inv_def)
  ultimately show "(task_valid x w \<longrightarrow> task_valid x w') \<and> (x \<in> set (spawned w') \<longrightarrow> task_valid x w')" ..
next
  show "acts (\<lambda>i. in_tid i = k) pool (task_waits t) (task_body t)" for k t
    by (rule acts_mono [OF task_acts]) (simp_all add: quiet_pool_def)
qed (auto simp: leave_pool_def vpn_env_def some_input call_acts task_valid_def)

definition vpn_work :: "world \<times> unit act list \<Rightarrow> world \<times> unit act list \<Rightarrow> bool" where
  "vpn_work = work in_tid vpn_drain"

lemma work_reachable: "vpn_reachable drivers d cf s \<Longrightarrow> vpn_work\<^sup>*\<^sup>* s s' \<Longrightarrow> vpn_reachable drivers d cf s'"
  unfolding vpn_reachable_def vpn_work_def vpn_step_def
  using work_steps [of in_tid vpn_drain s s' vpn_env "range call_prog"] rtranclp_trans by fast

lemma reachable_counted: "vpn_reachable drivers d cf s \<Longrightarrow> goroutines.counted goroutines.visitor {} s"
  unfolding vpn_reachable_def vpn_step_def
  by (elim exE, erule goroutines.counted_reachable)
    (use initial_sound in \<open>simp add: goroutines.counted_def goroutines.crew_def initial_world_def\<close>)

lemma work_closing:
  assumes "vpn_work\<^sup>*\<^sup>* s s'" "goroutines.counted goroutines.visitor {} s" "m_closing (mgr (fst s))"
  shows "m_closing (mgr (fst s'))"
proof -
  have "goroutines.counted goroutines.visitor {} s' \<and> m_closing (mgr (fst s'))"
    using assms(1) unfolding vpn_work_def
  proof (induction rule: rtranclp_induct)
    case (step y z)
    then show ?case using goroutines.shut_work by blast
  qed (use assms in simp)
  then show ?thesis ..
qed

text \<open>
  While the manager is closing, a \<open>Close\<close> has taken the installed session or is just about to:
  nothing else begins to close.
\<close>

definition same_flags :: "world \<Rightarrow> world \<Rightarrow> bool" where
  "same_flags w w' \<longleftrightarrow> m_closing (mgr w') = m_closing (mgr w) \<and> (swept w \<longrightarrow> swept w')"

abbreviation quiet :: "unit act \<Rightarrow> bool" where
  "quiet \<equiv> acts (\<lambda>_. True) same_flags (\<lambda>_. True)"

lemma quiet_acts: "acts J quiet_pool B p \<Longrightarrow> quiet p"
  by (rule acts_any, erule acts_mono) (auto simp: quiet_pool_def same_flags_def)

lemma quiet_task: "quiet (task_prog k)"
proof -
  have "quiet (modify (\<lambda>w. w\<lparr>async := async w - 1\<rparr>))"
    unfolding modify_def by (rule acts_atomic) (simp_all add: same_flags_def)
  then show ?thesis unfolding task_prog_def by (intro acts_bind quiet_acts [OF task_acts])
qed

definition closing_inv :: "world \<times> unit act list \<Rightarrow> bool" where
  "closing_inv = (\<lambda>(w, ts). (\<forall>p \<in> set ts. p = call_prog Close \<or> quiet p) \<and>
     (m_closing (mgr w) \<longrightarrow> swept w \<or> (\<exists>p \<in> set ts. sweeps p)))"

lemma closing_inv_act:
  assumes "call_prog Close = Act f \<or> quiet (Act f)" and f: "f i w = Some (p, w')"
  shows "quiet p \<and> (swept w \<longrightarrow> swept w') \<and> (sweeps p \<or> same_flags w w')"
  using assms(1)
proof
  assume "call_prog Close = Act f"
  note c = close_first [OF this f, of 0]
  then have "quiet p" using quiet_acts by blast
  then show ?thesis using c by simp
next
  assume "quiet (Act f)"
  from acts_step [OF this f] show ?thesis by (simp add: same_flags_def)
qed

lemma closing_inv_step:
  assumes "vpn_step s s'" "closing_inv s"
  shows "closing_inv s'"
  using assms(1) unfolding vpn_step_def
proof (cases rule: sys_step.cases)
  case (run k ts f i w p w' w'' new)
  have c: "\<forall>p \<in> set ts. p = call_prog Close \<or> quiet p"
    and m: "m_closing (mgr w) \<longrightarrow> swept w \<or> (\<exists>p \<in> set ts. sweeps p)"
    using assms(2) run(1) by (simp_all add: closing_inv_def)
  have d: "w'' = w'\<lparr>spawned := []\<rparr>" "new = map task_prog (spawned w')" using run(7) by (auto simp: vpn_drain_def)
  have "Act f \<in> set ts" using run(3,4) nth_mem by metis
  then have "call_prog Close = Act f \<or> quiet (Act f)" using c by metis
  from closing_inv_act [OF this run(6)]
  have p: "quiet p" "swept w \<longrightarrow> swept w'" "sweeps p \<or> same_flags w w'" by blast+
  have "\<forall>q \<in> set (ts[k := p] @ new). q = call_prog Close \<or> quiet q"
    using c p(1) set_update_subset_insert [of ts k p] quiet_task by (auto simp: d(2))
  moreover have "swept w' \<or> (\<exists>q \<in> set (ts[k := p] @ new). sweeps q)" if cl: "m_closing (mgr w')"
  proof (cases "sweeps p")
    case True
    moreover have "p \<in> set (ts[k := p] @ new)" using set_update_memI [OF run(3), of p] by simp
    ultimately show ?thesis by blast
  next
    case False
    then have "m_closing (mgr w)" using p(3) cl by (simp add: same_flags_def)
    then consider "swept w" | j where "j < length ts" "sweeps (ts ! j)" using m by (metis in_set_conv_nth)
    then show ?thesis
    proof cases
      case 1
      then show ?thesis using p(2) by blast
    next
      case 2
      show ?thesis
      proof (cases "j = k")
        case True
        then have "sweeps (Act f)" using 2(2) run(4) by simp
        then show ?thesis using sweeps_step [of f i w p w'] run(6) by blast
      next
        case False
        then have "ts ! j \<in> set (ts[k := p])" using 2 by (metis length_list_update nth_list_update_neq nth_mem)
        then have "ts ! j \<in> set (ts[k := p] @ new)" by simp
        then show ?thesis using 2(2) by blast
      qed
    qed
  qed
  ultimately show ?thesis using run(2) by (simp add: closing_inv_def d(1))
next
  case (outside w w' ts)
  then show ?thesis using assms(2) by (auto simp: closing_inv_def vpn_env_def)
next
  case (call p w ts)
  then obtain k where k: "p = call_prog k" by blast
  have "p = call_prog Close \<or> quiet p"
  proof (cases "k = Close")
    case False
    then show ?thesis using quiet_acts [OF call_quiet [of k 0]] by (simp add: k)
  qed (simp add: k)
  then show ?thesis using call assms(2) by (auto simp: closing_inv_def)
qed

lemma reachable_closing: "vpn_reachable drivers d cf s \<Longrightarrow> closing_inv s"
proof -
  assume "vpn_reachable drivers d cf s"
  then obtain io1 io2 io3 where
    "vpn_step\<^sup>*\<^sup>* (initial_world (new_manager drivers io1 io2 io3 d) d cf, []) s" unfolding vpn_reachable_def by blast
  then show ?thesis
  proof (induction rule: rtranclp_induct)
    case base
    show ?case by (auto simp: closing_inv_def initial_world_def new_manager_def Let_def split: sum.splits)
  qed (rule closing_inv_step)
qed

text \<open>
  Where nothing can move while the manager is closing, no lock is held, every session but the
  installed one is closed, and so no goroutine of the pool is left and every call has returned.
\<close>

lemma never_blocked: "ts ! k = Act f \<Longrightarrow> k < length ts \<Longrightarrow> (\<And>i. f i w \<noteq> None) \<Longrightarrow> can_move (in_tid :: inp \<Rightarrow> nat) (w, ts) k"
  unfolding can_move_def using some_input [of k] by auto

lemma nothing_moves:
  assumes r: "vpn_reachable drivers d cf (w, ts)" and closing: "m_closing (mgr w)"
    and stuck: "\<nexists>s'. vpn_work (w, ts) s'"
  shows "list_all finished ts \<and> async w = 0 \<and> (\<forall>l. locks w l = None) \<and>
    open_sessions w = set_option (m_session (mgr w))"
proof -
  have no: "\<not> can_move in_tid (w, ts) k" for k
    using stuck can_move_work [of in_tid w ts k vpn_drain] unfolding vpn_work_def by blast
  have free: "\<forall>l. locks w l = None"
  proof
    fix l
    show "locks w l = None" using lock_holders_progress [OF r, of l] no by (cases "locks w l") auto
  qed
  have act: "\<exists>f. ts ! k = Act f" if "\<not> finished (ts ! k)" for k
    using that by (auto simp: finished_def split: prog.splits)
  have "\<not> sweeps (ts ! k)" if "k < length ts" for k
  proof
    assume "sweeps (ts ! k)"
    then obtain f where f: "ts ! k = Act f" "\<forall>i w. \<exists>q w'. f i w = Some (q, w') \<and> swept w'"
      unfolding sweeps_def by blast
    then have "f i w \<noteq> None" for i by (metis option.distinct(1))
    then show False using no [of k] never_blocked [OF f(1) that] by blast
  qed
  then have sw: "swept w" using reachable_closing [OF r] closing by (auto simp: closing_inv_def in_set_conv_nth)
  have idle: "owner w s \<noteq> Some t" for s t
  proof
    assume o: "owner w s = Some t"
    have t: "t < length ts" "\<not> finished (ts ! t)" using busy_is_running [OF r owner_busy [OF o]] by auto
    then obtain f where "ts ! t = Act f" using act by blast
    with vpn.moves_or_blocked [OF vpn_reachable_sound [OF r] t(1)] no have "blocked t w" by blast
    then show False using free o by (auto simp: blocked_def)
  qed
  have inv: "handle_inv w" "history_inv w" using vpn_reachable_inv [OF r] by (simp_all add: world_inv_def)
  then have opens: "open_sessions w = set_option (m_session (mgr w))"
    using idle unfolding handle_inv_def by (auto simp: set_eq_iff)
  have none: "async w = 0"
  proof (rule ccontr)
    assume "async w \<noteq> 0"
    then obtain k where k: "task_valid k w" "task_waits k w"
      using goroutines.stuck_waits [OF reachable_counted [OF r] _ no] by blast
    then obtain s g where "k = WaitTask s g" "m_session (mgr w) = Some s"
      using free opens by (auto simp: task_waits_def lock_taken_def)
    then show False using k(1) inv(2) sw by (auto simp: task_valid_def history_inv_def)
  qed
  have "finished (ts ! k)" if k: "k < length ts" for k
  proof (rule ccontr)
    assume "\<not> finished (ts ! k)"
    then obtain f where "ts ! k = Act f" using act by blast
    then have "call_waits w" using goroutines.stuck_calls [OF reachable_counted [OF r] none k] no by blast
    then show False using free none by (auto simp: call_waits_def lock_taken_def)
  qed
  then show ?thesis using free none opens by (simp add: list_all_length)
qed

text \<open>
  C11: \<open>Close\<close> returns, in every interleaving. Once it has begun, in any state that any
  operations have led to, the goroutines that are running and the calls that are being served do only
  finitely many further actions, however they are scheduled; and where none of them can go on they have
  all returned, \<open>Close\<close> included, with the goroutine count at zero and no switching lock held. This
  holds although \<open>Close\<close> waits for goroutines that themselves wait for their session, and although no
  session need ever end by itself: each of them is closed.
\<close>

theorem shutdown_terminates:
  assumes "vpn_reachable drivers d cf s" and "m_closing (mgr (fst s))"
  shows "\<not> (\<exists>run. run 0 = s \<and> (\<forall>n. vpn_work (run n) (run (Suc n)))) \<and>
    (\<forall>w ts. vpn_work\<^sup>*\<^sup>* s (w, ts) \<and> (\<nexists>s'. vpn_work (w, ts) s') \<longrightarrow>
      list_all finished ts \<and> async w = 0 \<and> (\<forall>l. locks w l = None))"
proof (intro conjI allI impI)
  show "\<not> (\<exists>run. run 0 = s \<and> (\<forall>n. vpn_work (run n) (run (Suc n))))"
    unfolding vpn_work_def by (rule goroutines.work_ends [OF reachable_counted [OF assms(1)] assms(2)])
  fix w ts
  assume h: "vpn_work\<^sup>*\<^sup>* s (w, ts) \<and> (\<nexists>s'. vpn_work (w, ts) s')"
  then have r: "vpn_reachable drivers d cf (w, ts)" using work_reachable [OF assms(1)] by blast
  have "m_closing (mgr w)" using work_closing [OF _ reachable_counted [OF assms(1)] assms(2)] h by fastforce
  from nothing_moves [OF r this] h
  show "list_all finished ts" "async w = 0" "locks w l = None" for l by blast+
qed

section \<open>What \<open>Close\<close> leaves\<close>

text \<open>
  \<open>alone p w\<close>: run by itself from \<open>w\<close>, \<open>p\<close> starts nothing and where it returns no session
  is installed. \<open>leads p\<close>: however long \<open>p\<close> takes, it comes to the wait for the goroutines,
  and what follows the wait is \<open>alone\<close>.
\<close>

definition starts_nothing :: "world \<Rightarrow> world \<Rightarrow> bool" where
  "starts_nothing w w' \<longleftrightarrow> async w' = async w \<and> spawned w' = spawned w"

abbreviation alone :: "'a act \<Rightarrow> world \<Rightarrow> bool" where
  "alone \<equiv> ok (\<lambda>_. True) (\<lambda>_ _. False) starts_nothing (\<lambda>_. True) (\<lambda>_ w. m_session (mgr w) = None)"

lemma rtranclp_False [simp]: "(\<lambda>_ _. False)\<^sup>*\<^sup>* x y \<longleftrightarrow> y = x"
  by (metis rtranclp.rtrancl_refl rtranclp.cases)

lemma alone_atomic_bind:
  fixes f :: "inp \<Rightarrow> world \<Rightarrow> 'a \<times> world"
  assumes "\<And>i a w'. f i w = (a, w') \<Longrightarrow> starts_nothing w w' \<and> alone (k a) w'"
  shows "alone (bind_prog (atomic f) k) w"
  unfolding atomic_def bind_prog.simps
  by (rule ok.ok_Act) (use assms in \<open>auto split: prod.splits\<close>)

inductive leads :: "unit act \<Rightarrow> bool" where
  leads_wait: "(\<And>w. alone (k ()) w) \<Longrightarrow> leads (bind_prog wait_pool k)"
| leads_Act: "(\<And>i w p w'. f i w = Some (p, w') \<Longrightarrow> leads p) \<Longrightarrow> leads (Act f)"

lemma leads_bind: "(\<And>a. leads (k a)) \<Longrightarrow> leads (bind_prog p k)"
proof (induction p)
  case (Act f)
  show ?case
    unfolding bind_prog.simps
  proof (rule leads_Act)
    fix i w q w'
    assume "map_option (map_prod (\<lambda>p. bind_prog p k) id) (f i w) = Some (q, w')"
    then obtain p where p: "f i w = Some (p, w')" "q = bind_prog p k" by auto
    then have "Some (p, w') \<in> range (f i)" by (metis rangeI)
    then show "leads q" using Act.IH [of "f i" "Some (p, w')" "(p, w')" p] Act.prems p(2) by simp
  qed
qed simp

lemma leads_step:
  assumes "leads (Act f)" "f i w = Some (p, w')"
  shows "leads p \<or> w' = w \<and> async w = 0 \<and> alone p w"
  using assms(1)
proof (cases rule: leads.cases)
  case (leads_wait k)
  then have f: "f = (\<lambda>i w. map_option (map_prod (\<lambda>p. bind_prog p k) id)
      (map_option (map_prod Ret id) (if async w = 0 then Some ((), w) else None)))"
    by (simp add: await_def)
  show ?thesis using assms(2) leads_wait(2) unfolding f by (auto split: if_splits)
qed (use assms(2) in blast)

lemma leads_running: "\<not> leads (Ret a)"
  by (auto elim: leads.cases simp: await_def)

lemma late_alone: "alone (bind_prog (atomic (\<lambda>i. late_section (in_tid i))) (\<lambda>late.
     bind_prog (close_opt (if late = session then None else late)) (\<lambda>e2. Ret (g e2)))) w"
proof (rule alone_atomic_bind)
  fix i late w'
  assume "late_section (in_tid i) w = (late, w')"
  then have w': "starts_nothing w w'" "m_session (mgr w') = None"
    using poolless_sections(12) [of w "in_tid i"]
    by (auto simp: poolless_def starts_nothing_def late_section_def take_session_def Let_def split: option.splits)
  have "alone (bind_prog (close_session s) (\<lambda>e2. Ret (g e2))) w'" for s
    unfolding close_session_def
    by (rule alone_atomic_bind) (use w'(2) in \<open>auto simp: close_session_section_def starts_nothing_def intro!: ok.ok_Ret\<close>)
  then show "starts_nothing w w' \<and>
      alone (bind_prog (close_opt (if late = session then None else late)) (\<lambda>e2. Ret (g e2))) w'"
    using w' by (auto simp: close_opt_def intro!: ok.ok_Ret split: option.split)
qed

lemma alone_bind_Ret: "alone p w \<Longrightarrow> alone (bind_prog p (\<lambda>_. Ret ())) w"
proof (rule ok_bind, induction rule: ok.induct)
  case (ok_Ret w a)
  then show ?case by (intro ok.ok_Ret) (auto intro: ok.ok_Ret)
next
  case (ok_Act w f)
  then show ?case by (intro ok.ok_Act) blast+
qed

lemma close_leads: "leads (call_prog Close)"
  unfolding call_prog_def call.case manager_close_def bind_assoc
  by (intro leads_bind leads_wait) (simp only: bind_prog.simps late_alone)

lemma close_moves: "ts ! k = call_prog Close \<Longrightarrow> k < length ts \<Longrightarrow> can_move in_tid (w, ts) k"
  unfolding call_prog_def call.case manager_close_rest modify_def atomic_def bind_prog.simps
  by (erule never_blocked) simp_all

text \<open>\<open>Close\<close> as the last call, number \<open>k0\<close>, beside the goroutines of the pool.\<close>

definition closing_last :: "nat \<Rightarrow> world \<times> unit act list \<Rightarrow> bool" where
  "closing_last k0 s \<longleftrightarrow> goroutines.counted (goroutines.guest k0) {k0} s \<and>
     (snd s ! k0 = call_prog Close \<or> m_closing (mgr (fst s))) \<and>
     (leads (snd s ! k0) \<or> async (fst s) = 0 \<and> alone (snd s ! k0) (fst s))"

lemma closing_last_work:
  assumes "vpn_work s s'" "closing_last k0 s"
  shows "closing_last k0 s'"
  using assms(1) unfolding vpn_work_def
proof (cases rule: sys_step.cases)
  case (run k ts f i w p w' w'' new)
  have c: "goroutines.counted (goroutines.guest k0) {k0} (w, ts)"
    and first: "ts ! k0 = call_prog Close \<or> m_closing (mgr w)"
    and last: "leads (ts ! k0) \<or> async w = 0 \<and> alone (ts ! k0) w"
    using assms(2) run(1) by (simp_all add: closing_last_def)
  have k0: "k0 < length ts" and none: "spawned w = []" using c by (auto simp: goroutines.counted_def)
  have after: "goroutines.counted (goroutines.guest k0) {k0} s'" "m_closing (mgr w) \<longrightarrow> m_closing (mgr w'')"
    using goroutines.counted_run [OF goroutines.guest_kept c run(3-7)] run(2) by blast+
  have d: "w'' = w'\<lparr>spawned := []\<rparr>" using run(7) by (simp add: vpn_drain_def)
  have "(ts[k := p] @ new) ! k0 = call_prog Close \<or> m_closing (mgr w'')"
  proof (cases "k = k0 \<and> ts ! k0 = call_prog Close")
    case True
    then show ?thesis using close_first [of f i w p w' 0] run(4,6) d by simp
  next
    case False
    then show ?thesis using first after(2) k0 by (auto simp: nth_append)
  qed
  moreover have "leads ((ts[k := p] @ new) ! k0) \<or> async w'' = 0 \<and> alone ((ts[k := p] @ new) ! k0) w''"
  proof (cases "k = k0")
    case False
    then have "leads (ts ! k0)" using last goroutines.only_guest [OF c _ run(3,4)] by blast
    then show ?thesis using False k0 by (simp add: nth_append)
  next
    case True
    have same: "(ts[k := p] @ new) ! k0 = p" using True k0 by (simp add: nth_append)
    from last show ?thesis
    proof
      assume "leads (ts ! k0)"
      then have "leads (Act f)" using run(4) True by simp
      from leads_step [OF this run(6)] show ?thesis
      proof
        assume r: "w' = w \<and> async w = 0 \<and> alone p w"
        then have "w'' = w" using none d by simp
        then show ?thesis using r unfolding same by simp
      qed (simp add: same)
    next
      assume a: "async w = 0 \<and> alone (ts ! k0) w"
      then have "alone (Act f) w" using run(4) True by simp
      then have "starts_nothing w w' \<and> alone p w'"
        using ok_Act_step [of "\<lambda>_. True" _ _ _ _ f w i p w'] run(6) by blast
      then have "w'' = w'" "async w' = 0" "alone p w'" using a none d by (simp_all add: starts_nothing_def)
      then show ?thesis unfolding same by simp
    qed
  qed
  ultimately show ?thesis using run(2) after(1) by (simp add: closing_last_def)
qed simp_all

text \<open>
  C6: \<open>Close\<close> leaves nothing behind. When it is called with every other call returned, only the
  manager's own goroutines still running, then however these are interleaved, where nothing can
  move any more all of them and \<open>Close\<close> have returned, no session is installed, and none is open,
  though no session need end before it is closed.
\<close>

theorem close_leaves_nothing:
  assumes "vpn_reachable drivers d cf (w, ts)" and "length (filter (\<lambda>p. \<not> finished p) ts) = async w"
    and "vpn_work\<^sup>*\<^sup>* (w, ts @ [call_prog Close]) (w', ts')" and "\<nexists>s. vpn_work (w', ts') s"
  shows "list_all finished ts' \<and> async w' = 0 \<and> m_session (mgr w') = None \<and> open_sessions w' = {}"
proof -
  let ?s = "(w, ts @ [call_prog Close])" and ?k = "length ts"
  have fin: "finished p \<longleftrightarrow> p = Ret ()" for p by (simp add: finished_def split: prog.split)
  have "vpn_step (w, ts) ?s" unfolding vpn_step_def by (rule sys_step.call) simp
  then have "vpn_reachable drivers d cf ?s"
    using assms(1) unfolding vpn_reachable_def by (meson rtranclp.rtrancl_into_rtrancl)
  from work_reachable [OF this assms(3)] have r': "vpn_reachable drivers d cf (w', ts')" .
  have "goroutines.counted (goroutines.guest ?k) {?k} ?s"
    using goroutines.guest_arrives [OF reachable_counted [OF assms(1)]] assms(2) by (simp add: fin)
  then have "closing_last ?k ?s" using close_leads by (simp add: closing_last_def)
  then have "closing_last ?k (w', ts')"
    by (rule rtranclp_induct [OF assms(3)]) (erule closing_last_work)
  then have l: "leads (ts' ! ?k) \<or> alone (ts' ! ?k) w'" and k: "?k < length ts'"
    and begun: "ts' ! ?k = call_prog Close \<or> m_closing (mgr w')"
    by (auto simp: closing_last_def goroutines.counted_def)
  have "m_closing (mgr w')"
  proof (rule ccontr)
    assume "\<not> m_closing (mgr w')"
    then have "can_move in_tid (w', ts') ?k" using begun k close_moves by simp
    then show False using can_move_work [of in_tid w' ts' ?k vpn_drain] assms(4) unfolding vpn_work_def by blast
  qed
  note e = nothing_moves [OF r' this assms(4)]
  then have "ts' ! ?k = Ret ()" using k by (simp add: list_all_length fin)
  then have "m_session (mgr w') = None" using l leads_running ok_Ret_post by fastforce
  then show ?thesis using e by simp
qed

section \<open>A schedule\<close>

text \<open>
  A node is connected and its session watched when \<open>Close\<close> is called; the watcher gives up once
  the session is closed, and \<open>Close\<close> goes on. The list names the goroutine of each action.
\<close>

definition sample_close :: "nat list \<Rightarrow> world \<times> unit act list" where
  "sample_close is = fold (sys_run in_tid vpn_drain) (map calm is)
     (fst (sample_run 25), snd (sample_run 25) @ [call_prog Close])"

lemma sample_close_Nil: "sample_close [] = (fst (sample_run 25), snd (sample_run 25) @ [call_prog Close])"
  by (simp add: sample_close_def)

lemma sample_close_work: "vpn_work\<^sup>*\<^sup>* (sample_close []) (sample_close is)"
  unfolding vpn_work_def sample_close_def by (simp add: sys_runs_steps)

lemma sample_close_reachable:
  "vpn_reachable [protocol_sstp] sample_vpn_db (default_config ''h'' ''s'') (sample_close is)"
proof -
  have "vpn_step (sample_run 25) (sample_close [])"
    using sys_step.call [of "call_prog Close" "range call_prog" in_tid vpn_drain vpn_env
        "fst (sample_run 25)" "snd (sample_run 25)"]
    by (simp add: vpn_step_def sample_close_def)
  then have "vpn_reachable [protocol_sstp] sample_vpn_db (default_config ''h'' ''s'') (sample_close [])"
    using sample_run_reachable [of 25] unfolding vpn_reachable_def by (meson rtranclp.rtrancl_into_rtrancl)
  then show ?thesis using sample_close_work by (rule work_reachable)
qed

definition go_on :: "nat list \<Rightarrow> world \<times> unit act list \<Rightarrow> world \<times> unit act list" where
  "go_on is = fold (sys_run in_tid vpn_drain) (map calm is)"

lemma sample_close_go_on:
  "sample_close is = (case sample_run 25 of (w, ts) \<Rightarrow> go_on is (w, ts @ [call_prog Close]))"
  "go_on (is @ js) s = go_on js (go_on is s)"
  by (simp_all add: sample_close_def go_on_def split_beta)

lemma sample_evaluated:
  "case sample_run 25 of (w, ts) \<Rightarrow>
     length (filter (\<lambda>p. \<not> finished p) ts) = async w \<and> async w = 1 \<and> m_session (mgr w) = Some 0 \<and>
     (case go_on [2] (w, ts @ [call_prog Close]) of (w1, ts1) \<Rightarrow>
        m_closing (mgr w1) \<and> map finished ts1 = [True, False, False] \<and>
        (case go_on [2, 2, 1, 1, 1, 1, 2, 2] (w1, ts1) of (w2, ts2) \<Rightarrow> list_all finished ts2))"
  by code_simp

lemma sample_closing:
  "m_closing (mgr (fst (sample_close [2])))" "map finished (snd (sample_close [2])) = [True, False, False]"
  using sample_evaluated by (simp_all add: sample_close_go_on(1) split_beta)

lemma sample_watched:
  "length (filter (\<lambda>p. \<not> finished p) (snd (sample_run 25))) = async (fst (sample_run 25))"
  "async (fst (sample_run 25)) = 1" "m_session (mgr (fst (sample_run 25))) = Some 0"
  using sample_evaluated by (simp_all add: split_beta)

lemma sample_closed: "list_all finished (snd (sample_close [2, 2, 2, 1, 1, 1, 1, 2, 2]))"
  using sample_evaluated sample_close_go_on(2) [of "[2]" "[2, 2, 1, 1, 1, 1, 2, 2]"]
  by (simp add: sample_close_go_on(1) split_beta)

lemma finished_stuck: "list_all finished ts \<Longrightarrow> \<not> vpn_work (w, ts) s"
  by (auto simp: vpn_work_def list_all_length finished_def elim!: sys_stepE split: prog.splits)

lemma shutdown_terminates_witness:
  "\<not> (\<exists>run. run 0 = sample_close [2] \<and> (\<forall>n. vpn_work (run n) (run (Suc n))))"
  using shutdown_terminates [OF sample_close_reachable sample_closing(1)] by blast

lemma close_leaves_nothing_witness:
  "let w = fst (sample_close [2, 2, 2, 1, 1, 1, 1, 2, 2])
   in async w = 0 \<and> m_session (mgr w) = None \<and> open_sessions w = {}"
proof -
  let ?s = "sample_close [2, 2, 2, 1, 1, 1, 1, 2, 2]"
  have "vpn_work\<^sup>*\<^sup>* (fst (sample_run 25), snd (sample_run 25) @ [call_prog Close]) (fst ?s, snd ?s)"
    using sample_close_work [of "[2, 2, 2, 1, 1, 1, 1, 2, 2]"] unfolding sample_close_Nil prod.collapse .
  moreover have "\<nexists>s. vpn_work (fst ?s, snd ?s) s" using finished_stuck [OF sample_closed] by blast
  moreover have "vpn_reachable [protocol_sstp] sample_vpn_db (default_config ''h'' ''s'')
      (fst (sample_run 25), snd (sample_run 25))" unfolding prod.collapse by (rule sample_run_reachable)
  ultimately show ?thesis
    using close_leaves_nothing [OF _ sample_watched(1)] unfolding Let_def by blast
qed

end
