(* ===== verification/VpnDns.thy ===== *)
theory VpnDns
  imports VpnState
begin

text \<open>
  Name resolution through a VPN session, \<open>src/internal/vpn/dns.go\<close> and
  \<open>dns_cache.go\<close>, and the manager's dialing, which depends on it. A DNS message is what
  the decoder of \<open>golang.org/x/net/dns/dnsmessage\<close> returns; exchanging it with a server
  is the environment. Cache and pending lookups are association lists for the code's
  maps, in the order the runtime would iterate them.
\<close>

unbundle bit_operations_syntax

section \<open>One query\<close>

datatype dns_body = ARecord byte byte byte byte | CName | OtherRecord

record dns_answer =
  a_ttl :: "32 word"
  a_body :: dns_body

record dns_question =
  q_type :: "16 word"
  q_name :: string

record dns_message =
  msg_response :: bool
  msg_id :: u16
  msg_rcode :: nat
  msg_rcode_text :: string
  msg_truncated :: bool
  msg_questions :: "dns_question list"
  msg_answers :: "dns_answer list"

definition type_a :: "16 word" where
  "type_a = 1"

definition query_name :: "string \<Rightarrow> string" where
  "query_name host = trim_suffix host ''.'' @ ''.''"

fun append_a_records :: "ip list \<Rightarrow> dns_answer list \<Rightarrow> ip list" where
  "append_a_records addresses [] = addresses"
| "append_a_records addresses (r # rs) =
     append_a_records
       (case a_body r of ARecord a b c d \<Rightarrow> addresses @ [ipv4 a b c d] | _ \<Rightarrow> addresses) rs"

text \<open>A and CNAME records bound the time the answer stays valid.\<close>

fun min_ttl :: "32 word \<Rightarrow> dns_answer list \<Rightarrow> 32 word" where
  "min_ttl t [] = t"
| "min_ttl t (r # rs) = min_ttl (if a_body r = OtherRecord then t else min t (a_ttl r)) rs"

text \<open>
  What \<open>querySessionA\<close> makes of the bytes it read, \<open>count\<close> of them, and the message
  decoded from them.
\<close>

definition check_response ::
  "string \<Rightarrow> u16 \<Rightarrow> int \<Rightarrow> dns_message result \<Rightarrow> (ip list \<times> int) result" where
  "check_response host i count message =
     (if count < 12 then Inl ''UDP DNS response is too short''
      else case message of Inl e \<Rightarrow> Inl (''decode UDP DNS response: '' @ e)
      | Inr m \<Rightarrow>
          if \<not> msg_response m \<or> msg_id m \<noteq> i then Inl ''UDP DNS response does not match query''
          else if (case msg_questions m of [q] \<Rightarrow> q_type q \<noteq> type_a \<or> \<not> equal_fold (q_name q) (query_name host)
                   | _ \<Rightarrow> True)
          then Inl ''UDP DNS response contains an unexpected question''
          else if msg_rcode m \<noteq> 0 then Inl (''UDP DNS returned '' @ msg_rcode_text m)
          else if msg_truncated m then Inl ''UDP DNS response is truncated''
          else Inr (append_a_records [] (msg_answers m),
                    uint (min_ttl (NOT 0) (msg_answers m)) * second))"

text \<open>
  \<open>querySessionA\<close>: the random identifier, the exchange with the server over the session
  (any failure before the response is read, or the size and the decoded message), the checks.
\<close>

definition query_session_a ::
  "u16 \<Rightarrow> (int \<times> dns_message result) result \<Rightarrow> string \<Rightarrow> (ip list \<times> int) result" where
  "query_session_a i exchange host =
     bind_result exchange (\<lambda>(count, message). check_response host i count message)"

text \<open>
  \<open>lookupSessionIPv4\<close>: the servers in order; \<open>query\<close> gives each server's outcome, \<open>ended\<close>
  how the context had ended, if it had, before and after asking it. \<open>errors.Join\<close> of
  nothing is nil, which \<open>%w\<close> prints as below.
\<close>

definition join_errors :: "string list \<Rightarrow> string" where
  "join_errors failures = (if failures = [] then ''%!w(<nil>)'' else join [CHR 0x0A] failures)"

fun lookup_loop ::
  "(string \<Rightarrow> (ip list \<times> int) result) \<Rightarrow> (string \<Rightarrow> string option \<times> string option) \<Rightarrow> string \<Rightarrow>
   string list \<Rightarrow> string list \<Rightarrow> (ip list \<times> int) result" where
  "lookup_loop query ended host [] failures =
     Inl (''IPv4 UDP DNS query for '' @ host @ '' through VPN: '' @ join_errors failures)"
| "lookup_loop query ended host (s # ss) failures =
     (case fst (ended s) of Some e \<Rightarrow> Inl e
      | None \<Rightarrow>
          (let e = (case query s of Inl e \<Rightarrow> e | Inr _ \<Rightarrow> ''response contains no A records'');
               failures' = failures @ [s @ '': '' @ e]
           in case query s of
              Inr (a # as, ttl) \<Rightarrow> Inr (a # as, ttl)
            | _ \<Rightarrow>
                lookup_loop query ended host (if snd (ended s) \<noteq> None then [] else ss) failures'))"

definition lookup_session_ipv4 ::
  "(string \<Rightarrow> u16 \<times> (int \<times> dns_message result) result) \<Rightarrow> (string \<Rightarrow> string option \<times> string option) \<Rightarrow>
   string \<Rightarrow> string list \<Rightarrow> (ip list \<times> int) result" where
  "lookup_session_ipv4 net ended host servers =
     lookup_loop (\<lambda>s. query_session_a (fst (net s)) (snd (net s)) host) ended host servers []"

section \<open>The cache\<close>

definition dns_cache_capacity :: nat where "dns_cache_capacity = 256"
definition dns_lookup_capacity :: nat where "dns_lookup_capacity = 64"

record dns_entry =
  e_addresses :: "ip list"
  e_expires :: time

record dns_session =
  d_closed :: bool
  d_cache :: "(string \<times> dns_entry) list"
  d_pending :: "string list"

definition new_dns_session :: dns_session where
  "new_dns_session = \<lparr>d_closed = False, d_cache = [], d_pending = []\<rparr>"

definition dns_key :: "string \<Rightarrow> string list \<Rightarrow> string" where
  "dns_key host servers = to_lower (trim_suffix host ''.'') @ ''|'' @ join ''|'' servers"

datatype dns_result =
    Cached "ip list"
  | Refused string
  | Pending string bool

text \<open>
  The locked part of \<open>resolveIPv4\<close>: an answer, a refusal, or the key of the lookup to wait
  for and whether it was started here.
\<close>

definition start_lookup :: "string \<Rightarrow> dns_session \<Rightarrow> dns_result \<times> dns_session" where
  "start_lookup key d =
     (if key \<in> set (d_pending d) then (Pending key False, d)
      else if length (d_pending d) \<ge> dns_lookup_capacity
      then (Refused ''too many concurrent VPN DNS lookups'', d)
      else (Pending key True, d\<lparr>d_pending := key # d_pending d\<rparr>))"

definition resolve_begin ::
  "string option \<Rightarrow> time \<Rightarrow> string \<Rightarrow> string list \<Rightarrow> dns_session \<Rightarrow> dns_result \<times> dns_session" where
  "resolve_begin ended now host servers d =
     (case ended of Some e \<Rightarrow> (Refused e, d) | None \<Rightarrow>
        if d_closed d then (Refused ''use of closed network connection'', d)
        else case map_of (d_cache d) (dns_key host servers) of
            None \<Rightarrow> start_lookup (dns_key host servers) d
          | Some entry \<Rightarrow>
              if now < e_expires entry then (Cached (e_addresses entry), d)
              else start_lookup (dns_key host servers)
                (d\<lparr>d_cache := filter (\<lambda>(k, _). k \<noteq> dns_key host servers) (d_cache d)\<rparr>))"

text \<open>The entry to evict: the one that expires first, by a scan that starts from a zero time.\<close>

fun oldest :: "(string \<times> dns_entry) list \<Rightarrow> string \<times> time \<Rightarrow> string \<times> time" where
  "oldest [] best = best"
| "oldest ((k, entry) # es) best =
     oldest es (if snd best = zero_time \<or> e_expires entry < snd best then (k, e_expires entry) else best)"

definition make_room :: "time \<Rightarrow> (string \<times> dns_entry) list \<Rightarrow> (string \<times> dns_entry) list" where
  "make_room now es =
     (let live = filter (\<lambda>(_, entry). now < e_expires entry) es
      in if length live \<ge> dns_cache_capacity
         then filter (\<lambda>(k, _). k \<noteq> fst (oldest live ([], zero_time))) live else live)"

text \<open>The locked end of \<open>lookup\<close>; the clock is read before the sweep and at the insertion.\<close>

definition lookup_done :: "string \<Rightarrow> (ip list \<times> int) result \<Rightarrow> time \<Rightarrow> time \<Rightarrow> dns_session \<Rightarrow> dns_session" where
  "lookup_done key r now later d =
     (let cache = (case r of
          Inr (addresses, ttl) \<Rightarrow>
            if ttl > 0 then
              (key, \<lparr>e_addresses = addresses, e_expires = later + ttl\<rparr>) #
                filter (\<lambda>(k, _). k \<noteq> key) (make_room now (d_cache d))
            else d_cache d
        | Inl _ \<Rightarrow> d_cache d)
      in d\<lparr>d_cache := cache, d_pending := filter (\<lambda>k. k \<noteq> key) (d_pending d)\<rparr>)"

text \<open>The end of \<open>resolveIPv4\<close>: whichever of the three channels the \<open>select\<close> takes.\<close>

datatype dns_wake = CallerDone string | SessionDone | LookupDone "(ip list \<times> int) result"

fun resolve_end :: "dns_wake \<Rightarrow> ip list result" where
  "resolve_end (CallerDone e) = Inl e"
| "resolve_end SessionDone = Inl ''use of closed network connection''"
| "resolve_end (LookupDone (Inl e)) = Inl e"
| "resolve_end (LookupDone (Inr (addresses, ttl))) = Inr addresses"

definition dns_diagnostics :: "(string \<rightharpoonup> u64) option \<Rightarrow> dns_session \<Rightarrow> string \<rightharpoonup> u64" where
  "dns_diagnostics inner d =
     (case inner of None \<Rightarrow> Map.empty | Some r \<Rightarrow> r)
       (''dns_cached'' \<mapsto> of_nat (length (d_cache d)), ''dns_pending'' \<mapsto> of_nat (length (d_pending d)))"

definition dns_close :: "dns_session \<Rightarrow> dns_session" where
  "dns_close d = d\<lparr>d_closed := True\<rparr>"

section \<open>Dialing\<close>

datatype dial =
    DialDirect string string
  | DialSession nat string string
  | DialError string

text \<open>\<open>dialSessionIPv4\<close>, \<open>resolve\<close> being \<open>resolveSessionIPv4\<close> on the session.\<close>

definition dial_session_ipv4 :: "(string \<Rightarrow> ip list result) \<Rightarrow> nat \<Rightarrow> string \<Rightarrow> dial" where
  "dial_session_ipv4 resolve s address =
     (case split_host_port address of Inl e \<Rightarrow> DialError e
      | Inr (host, port) \<Rightarrow>
          case parse_ip host of
            Some a \<Rightarrow> if to4 a = None then DialError ''the VPN probe target has no IPv4 address''
                      else DialSession s ''tcp4'' address
          | None \<Rightarrow>
              case resolve host of
                Inl e \<Rightarrow> DialError (''resolve IPv4 address for '' @ host @ '' through VPN: '' @ e)
              | Inr [] \<Rightarrow> DialError (''resolve IPv4 address for '' @ host @ '' through VPN: no A record'')
              | Inr (a # _) \<Rightarrow> DialSession s ''tcp4'' (join_host_port (ip_string a) port))"

definition dial_context :: "manager \<Rightarrow> (string \<Rightarrow> ip list result) \<Rightarrow> string \<Rightarrow> string \<Rightarrow> dial" where
  "dial_context m resolve network address =
     (if m_direct_mode m then DialDirect network address
      else case m_session m of
        None \<Rightarrow> DialError ''no VPN session is active''
      | Some s \<Rightarrow> if has_prefix ''tcp'' network then dial_session_ipv4 resolve s address
                  else DialSession s network address)"

text \<open>\<open>ListenPacket\<close>; \<open>packets\<close> says whether the session supports datagrams.\<close>

definition listen_packet :: "manager \<Rightarrow> (nat \<Rightarrow> bool) \<Rightarrow> string \<Rightarrow> string \<Rightarrow> dial" where
  "listen_packet m packets network address =
     (if m_direct_mode m then DialDirect network address
      else case m_session m of
        None \<Rightarrow> DialError ''no VPN session is active''
      | Some s \<Rightarrow> if packets s then DialSession s network address
                  else DialError ''active VPN session does not support datagrams'')"

text \<open>\<open>ResolveIPv4\<close>: \<open>system\<close> is the host's own resolver.\<close>

definition manager_resolve ::
  "manager \<Rightarrow> (string \<Rightarrow> ip list result) \<Rightarrow> (nat \<Rightarrow> string \<Rightarrow> ip list result) \<Rightarrow> string \<Rightarrow> ip list result" where
  "manager_resolve m system through host =
     (if m_direct_mode m then system host
      else case m_session m of None \<Rightarrow> Inl ''no VPN session is active''
        | Some s \<Rightarrow> through s host)"

section \<open>The cache stays bounded\<close>

text \<open>
  A session's steps: the locked part of a resolution, the end of a lookup, closing.
\<close>

datatype dns_op =
    DnsBegin "string option" time string "string list"
  | DnsDone string "(ip list \<times> int) result" time time
  | DnsClose

fun dns_run :: "dns_op \<Rightarrow> dns_session \<Rightarrow> dns_session" where
  "dns_run (DnsBegin ended now host servers) d = snd (resolve_begin ended now host servers d)"
| "dns_run (DnsDone key r now later) d = lookup_done key r now later d"
| "dns_run DnsClose d = dns_close d"

definition dns_ok :: "dns_session \<Rightarrow> bool" where
  "dns_ok d \<longleftrightarrow> distinct (map fst (d_cache d)) \<and> length (d_cache d) \<le> dns_cache_capacity \<and>
     distinct (d_pending d) \<and> length (d_pending d) \<le> dns_lookup_capacity"

lemma distinct_map_fst_filter: "distinct (map fst xs) \<Longrightarrow> distinct (map fst (filter P xs))"
  by (induction xs) auto

lemma filter_drops_one:
  "k \<in> fst ` set xs \<Longrightarrow> length (filter (\<lambda>(k', _). k' \<noteq> k) xs) < length xs"
proof (induction xs)
  case (Cons x xs)
  show ?case
  proof (cases "fst x = k")
    case True
    then show ?thesis by (cases x) (simp add: le_imp_less_Suc)
  next
    case False
    with Cons show ?thesis by (cases x) auto
  qed
qed simp

text \<open>The scan ends on an entry of least expiry, unless one expires at the zero time.\<close>

lemma oldest_spec:
  "oldest es best = (k, t) \<Longrightarrow> zero_time \<notin> e_expires ` snd ` set es \<Longrightarrow>
   ((k, t) = best \<or> (\<exists>e. (k, e) \<in> set es \<and> e_expires e = t)) \<and>
   (snd best \<noteq> zero_time \<longrightarrow> t \<le> snd best) \<and>
   (es \<noteq> [] \<or> snd best \<noteq> zero_time \<longrightarrow> t \<noteq> zero_time) \<and>
   (\<forall>(k', e') \<in> set es. t \<le> e_expires e')"
proof (induction es best rule: oldest.induct)
  case (1 best)
  then show ?case by auto
next
  case (2 k' e' es best)
  define best' where "best' = (if snd best = zero_time \<or> e_expires e' < snd best then (k', e_expires e') else best)"
  have o: "oldest es best' = (k, t)" using "2.prems"(1) by (simp add: best'_def)
  have z: "zero_time \<notin> e_expires ` snd ` set es" "e_expires e' \<noteq> zero_time" using "2.prems"(2) by auto
  have ih: "((k, t) = best' \<or> (\<exists>e. (k, e) \<in> set es \<and> e_expires e = t)) \<and>
      (snd best' \<noteq> zero_time \<longrightarrow> t \<le> snd best') \<and>
      (es \<noteq> [] \<or> snd best' \<noteq> zero_time \<longrightarrow> t \<noteq> zero_time) \<and>
      (\<forall>(k', e') \<in> set es. t \<le> e_expires e')"
    using "2.IH" [folded best'_def, OF o z(1)] .
  have nz: "snd best' \<noteq> zero_time" using z(2) by (auto simp: best'_def)
  have le: "snd best' \<le> e_expires e'" "snd best \<noteq> zero_time \<Longrightarrow> snd best' \<le> snd best"
    by (auto simp: best'_def)
  have "t \<le> e_expires e'" using ih nz le(1) by auto
  moreover have "snd best \<noteq> zero_time \<longrightarrow> t \<le> snd best" using ih nz le(2) by fastforce
  moreover have "(k, t) = best \<or> (\<exists>e. (k, e) \<in> set ((k', e') # es) \<and> e_expires e = t)"
    using ih by (auto simp: best'_def split: if_splits)
  ultimately show ?case using ih nz by auto
qed

lemma oldest_member:
  "oldest es best = r \<Longrightarrow> fst r \<in> fst ` set es \<or> (r = best \<and> (es = [] \<or> snd best \<noteq> zero_time))"
  by (induction es best rule: oldest.induct) (auto split: if_splits)

lemma oldest_key: "es \<noteq> [] \<Longrightarrow> fst (oldest es ([], zero_time)) \<in> fst ` set es"
  using oldest_member [of es "([], zero_time)"] by auto

lemma live_not_zero:
  "zero_time \<le> now \<Longrightarrow> zero_time \<notin> e_expires ` snd ` set (filter (\<lambda>(_, entry). now < e_expires entry) es)"
  by (fastforce simp: image_iff split: prod.splits)

lemma make_room_subset: "set (make_room now es) \<subseteq> {(k, e). (k, e) \<in> set es \<and> now < e_expires e}"
  by (auto simp: make_room_def Let_def split: if_splits)

lemma make_room_distinct: "distinct (map fst es) \<Longrightarrow> distinct (map fst (make_room now es))"
  by (simp add: make_room_def Let_def distinct_map_fst_filter)

lemma make_room_length:
  assumes "length es \<le> dns_cache_capacity"
  shows "length (make_room now es) < dns_cache_capacity"
proof -
  define live where "live = filter (\<lambda>(_, entry). now < e_expires entry) es"
  have le: "length live \<le> dns_cache_capacity"
    unfolding live_def using assms length_filter_le le_trans by blast
  show ?thesis
  proof (cases "length live \<ge> dns_cache_capacity")
    case True
    then have "live \<noteq> []" by (auto simp: dns_cache_capacity_def)
    from filter_drops_one [OF oldest_key [OF this]] le True show ?thesis
      by (simp add: make_room_def live_def [symmetric])
  next
    case False
    then show ?thesis by (simp add: make_room_def live_def [symmetric])
  qed
qed

lemma start_lookup_ok: "dns_ok d \<Longrightarrow> dns_ok (snd (start_lookup key d))"
  by (auto simp: start_lookup_def dns_ok_def)

lemma resolve_begin_ok: "dns_ok d \<Longrightarrow> dns_ok (snd (resolve_begin ended now host servers d))"
proof -
  assume d: "dns_ok d"
  have "dns_ok (d\<lparr>d_cache := filter (\<lambda>(k, _). k \<noteq> key) (d_cache d)\<rparr>)" for key
    using d le_trans [OF length_filter_le] by (auto simp: dns_ok_def distinct_map_fst_filter)
  then show ?thesis
    using d by (auto simp: resolve_begin_def start_lookup_ok split: option.splits)
qed

lemma lookup_done_ok: "dns_ok d \<Longrightarrow> dns_ok (lookup_done key r now later d)"
proof -
  assume d: "dns_ok d"
  let ?c = "filter (\<lambda>(k, _). k \<noteq> key) (make_room now (d_cache d))"
  have "distinct (map fst ?c)" "key \<notin> fst ` set ?c"
    using d by (auto simp: dns_ok_def distinct_map_fst_filter make_room_distinct)
  moreover have "length ?c < dns_cache_capacity"
    using make_room_length [of "d_cache d" now] d le_less_trans [OF length_filter_le] by (auto simp: dns_ok_def)
  ultimately show ?thesis
    using d le_trans [OF length_filter_le] by (auto simp: dns_ok_def lookup_done_def split: sum.splits)
qed

lemma dns_run_ok: "dns_ok d \<Longrightarrow> dns_ok (dns_run op d)"
  by (cases op) (simp_all add: resolve_begin_ok lookup_done_ok, simp add: dns_close_def dns_ok_def)

interpretation dns: invariant_ops dns_run dns_ok
  by unfold_locales (rule dns_run_ok)

lemma new_dns_session_ok: "dns_ok new_dns_session"
  by (simp add: dns_ok_def new_dns_session_def)

text \<open>
  C36: however resolutions and lookups follow each other on a session, its cache never holds
  more than 256 answers, one per key, and never more than 64 lookups run at once, one per key.
\<close>

theorem dns_session_bounded:
  "dns_ok (fold dns_run ops new_dns_session)"
  by (rule dns.ok_runs [OF new_dns_session_ok])

text \<open>
  A new answer displaces expired answers and, when the cache is full of live ones, one that
  expires first; every other live answer stays.
\<close>

lemma make_room_evicts_first:
  assumes "zero_time \<le> now" and "(k, e) \<in> set es" and "now < e_expires e"
    and gone: "(k, e) \<notin> set (make_room now es)" and k': "(k', e') \<in> set (make_room now es)"
    and "distinct (map fst es)"
  shows "e_expires e \<le> e_expires e'"
proof -
  define live where "live = filter (\<lambda>(_, entry). now < e_expires entry) es"
  have m: "(k, e) \<in> set live" using assms(2,3) by (simp add: live_def)
  have room: "make_room now es = filter (\<lambda>(k, _). k \<noteq> fst (oldest live ([], zero_time))) live"
    using gone m by (auto simp: make_room_def live_def [symmetric] split: if_splits)
  have k: "k = fst (oldest live ([], zero_time))" using gone m unfolding room by auto
  obtain k0 t where o: "oldest live ([], zero_time) = (k0, t)" by (cases "oldest live ([], zero_time)")
  have sp: "(\<exists>e. (k0, e) \<in> set live \<and> e_expires e = t)" "\<forall>(k', e') \<in> set live. t \<le> e_expires e'"
    using oldest_spec [OF o live_not_zero [OF assms(1), of es, folded live_def]] m by auto
  have "distinct (map fst live)" unfolding live_def using assms(6) by (rule distinct_map_fst_filter)
  then have "e_expires e = t" using sp(1) m k o by (auto dest: eq_key_imp_eq_value)
  moreover have "(k', e') \<in> set live" using k' room by simp
  ultimately show ?thesis using sp(2) by auto
qed

section \<open>Where a cached answer comes from\<close>

text \<open>
  The entry a history of steps leaves under a key, if it leaves one, is the newest success
  for that key.
\<close>

definition answered :: "string \<Rightarrow> dns_op list \<Rightarrow> dns_entry \<Rightarrow> bool" where
  "answered key ops entry \<longleftrightarrow>
     (\<exists>before addresses ttl now later after.
        ops = before @ DnsDone key (Inr (addresses, ttl)) now later # after \<and> 0 < ttl \<and>
        entry = \<lparr>e_addresses = addresses, e_expires = later + ttl\<rparr> \<and>
        (\<forall>r t t' a. DnsDone key (Inr (a, r)) t t' \<in> set after \<longrightarrow> r \<le> 0))"

lemma answered_extend:
  assumes "answered key ops entry" and "\<And>a r t t'. op = DnsDone key (Inr (a, r)) t t' \<Longrightarrow> r \<le> 0"
  shows "answered key (ops @ [op]) entry"
proof -
  from assms(1) obtain before addresses ttl now later after where
    "ops = before @ DnsDone key (Inr (addresses, ttl)) now later # after" "0 < ttl"
    "entry = \<lparr>e_addresses = addresses, e_expires = later + ttl\<rparr>"
    "\<forall>r t t' a. DnsDone key (Inr (a, r)) t t' \<in> set after \<longrightarrow> r \<le> 0"
    unfolding answered_def by blast
  then show ?thesis
    unfolding answered_def using assms(2)
    by (intro exI [of _ before] exI [of _ addresses] exI [of _ ttl] exI [of _ now] exI [of _ later]
        exI [of _ "after @ [op]"]) auto
qed

lemma cache_after_begin:
  "set (d_cache (snd (resolve_begin ended now host servers d))) \<subseteq> set (d_cache d)"
  by (auto simp: resolve_begin_def start_lookup_def split: option.splits)

lemma cache_after_done:
  "(k, e) \<in> set (d_cache (lookup_done key r now later d)) \<Longrightarrow>
   (k = key \<and> (\<exists>a t. r = Inr (a, t) \<and> 0 < t \<and> e = \<lparr>e_addresses = a, e_expires = later + t\<rparr>)) \<or>
   ((k, e) \<in> set (d_cache d) \<and> (k = key \<longrightarrow> (\<forall>a t. r = Inr (a, t) \<longrightarrow> t \<le> 0)))"
  using make_room_subset [of now "d_cache d"]
  by (auto simp: lookup_done_def split: sum.splits if_splits)

lemma cache_answered:
  "(k, e) \<in> set (d_cache (fold dns_run ops new_dns_session)) \<Longrightarrow> answered k ops e"
proof (induction ops arbitrary: k e rule: rev_induct)
  case Nil
  then show ?case by (simp add: new_dns_session_def)
next
  case (snoc op ops)
  define d where "d = fold dns_run ops new_dns_session"
  have m: "(k, e) \<in> set (d_cache (dns_run op d))" using snoc.prems by (simp add: d_def)
  show ?case
  proof (cases op)
    case (DnsBegin ended now host servers)
    with m have "(k, e) \<in> set (d_cache d)" using subsetD [OF cache_after_begin] by simp
    then show ?thesis
      using snoc.IH DnsBegin by (auto simp: d_def intro!: answered_extend)
  next
    case (DnsDone key r now later)
    with m have "(k, e) \<in> set (d_cache (lookup_done key r now later d))" by simp
    from cache_after_done [OF this] show ?thesis
    proof (elim disjE conjE exE)
      fix a t
      assume "k = key" "r = Inr (a, t)" "0 < t" "e = \<lparr>e_addresses = a, e_expires = later + t\<rparr>"
      then show ?thesis unfolding answered_def DnsDone
        by (intro exI [of _ ops] exI [of _ a] exI [of _ t] exI [of _ now] exI [of _ later] exI [of _ "[]"]) simp
    next
      assume "(k, e) \<in> set (d_cache d)" "k = key \<longrightarrow> (\<forall>a t. r = Inr (a, t) \<longrightarrow> t \<le> 0)"
      then show ?thesis
        using snoc.IH DnsDone by (auto simp: d_def intro!: answered_extend)
    qed
  next
    case DnsClose
    with m have "(k, e) \<in> set (d_cache d)" by (simp add: dns_close_def)
    then show ?thesis using snoc.IH DnsClose by (auto simp: d_def intro!: answered_extend)
  qed
qed


definition sample_ops :: "dns_op list" where
  "sample_ops = [DnsBegin None 0 ''Example.org.'' [''1.1.1.1:53''],
     DnsDone (dns_key ''example.org'' [''1.1.1.1:53'']) (Inr ([ipv4 93 184 216 34], 60 * second)) 5 6]"


lemma resolve_pending:
  "fst (resolve_begin ended now host servers d) = Pending key started \<Longrightarrow>
   key \<in> set (d_pending (snd (resolve_begin ended now host servers d)))"
  by (cases ended; cases "map_of (d_cache d) (dns_key host servers)")
    (auto simp: resolve_begin_def start_lookup_def split: if_splits)

lemma resolve_starts:
  "fst (resolve_begin ended now host servers d) = Pending key True \<Longrightarrow> key \<notin> set (d_pending d)"
  by (cases ended; cases "map_of (d_cache d) (dns_key host servers)")
    (auto simp: resolve_begin_def start_lookup_def split: if_splits)

text \<open>
  While a lookup of a name is in flight nobody starts a second one: between its start and
  its end every other caller waits for it or is answered or refused.
\<close>

theorem one_lookup_per_name:
  assumes "fst (resolve_begin ended now host servers d) = Pending key started"
    and "\<forall>r t t'. DnsDone key r t t' \<notin> set ops"
  shows "fst (resolve_begin ended' now' host' servers'
           (fold dns_run ops (snd (resolve_begin ended now host servers d)))) \<noteq> Pending key True"
proof -
  have keep: "key \<in> set (d_pending d) \<Longrightarrow> op \<in> set ops \<Longrightarrow> key \<in> set (d_pending (dns_run op d))" for op d
    using assms(2)
    by (cases op) (auto simp: resolve_begin_def start_lookup_def lookup_done_def dns_close_def
        split: option.splits)
  have "key \<in> set (d_pending (snd (resolve_begin ended now host servers d)))"
    using assms(1) by (rule resolve_pending)
  then have "key \<in> set (d_pending (fold dns_run ops' (snd (resolve_begin ended now host servers d))))"
    if "set ops' \<subseteq> set ops" for ops' using that
    by (induction ops' rule: rev_induct) (auto intro: keep)
  from this [of ops] show ?thesis using resolve_starts by blast
qed

lemma one_lookup_per_name_witness:
  "fst (resolve_begin None 9 ''example.org.'' [''1.1.1.1:53'']
      (fold dns_run [DnsClose, DnsBegin None 3 ''a.test'' []]
        (snd (resolve_begin None 0 ''Example.org'' [''1.1.1.1:53''] new_dns_session))))
   \<noteq> Pending (dns_key ''Example.org'' [''1.1.1.1:53'']) True"
proof (rule one_lookup_per_name [where started = True])
  show "fst (resolve_begin None 0 ''Example.org'' [''1.1.1.1:53''] new_dns_session) =
      Pending (dns_key ''Example.org'' [''1.1.1.1:53'']) True"
    by (simp add: resolve_begin_def start_lookup_def new_dns_session_def dns_lookup_capacity_def)
qed simp

section \<open>What a lookup accepts\<close>

definition response_matches :: "string \<Rightarrow> u16 \<Rightarrow> dns_message \<Rightarrow> bool" where
  "response_matches host i m \<longleftrightarrow>
     msg_response m \<and> msg_id m = i \<and> msg_rcode m = 0 \<and> \<not> msg_truncated m \<and>
     (\<exists>q. msg_questions m = [q] \<and> q_type q = type_a \<and> equal_fold (q_name q) (query_name host))"

definition a_records :: "dns_answer list \<Rightarrow> ip list" where
  "a_records rs = concat (map (\<lambda>r. case a_body r of ARecord a b c d \<Rightarrow> [ipv4 a b c d] | _ \<Rightarrow> []) rs)"

lemma append_a_records_eq: "append_a_records as rs = as @ a_records rs"
  by (induction as rs rule: append_a_records.induct) (auto simp: a_records_def split: dns_body.splits)

lemma a_records_ipv4: "a \<in> set (a_records rs) \<Longrightarrow> to4 a \<noteq> None"
  by (auto simp: a_records_def to4_def ipv4_def v4_prefix_def split: dns_body.splits)

lemma min_ttl_le:
  "min_ttl t rs \<le> t \<and> (\<forall>r \<in> set rs. a_body r \<noteq> OtherRecord \<longrightarrow> min_ttl t rs \<le> a_ttl r)"
proof (induction t rs rule: min_ttl.induct)
  case (2 t r rs)
  then show ?case by (cases "a_body r = OtherRecord") (auto intro: order_trans)
qed simp

text \<open>The time to live in nanoseconds fits a \<open>time.Duration\<close>: the multiplication never wraps.\<close>

lemma ttl_fits: "uint (w :: 32 word) * second \<le> max_int64"
proof -
  have "uint w < 2 ^ 32" using uint_lt2p [of w] by simp
  then show ?thesis by (simp add: second_def max_int64_def)
qed

lemma check_response_Inr:
  assumes "check_response host i count message = Inr (addresses, ttl)"
  shows "\<exists>m. message = Inr m \<and> 12 \<le> count \<and> response_matches host i m \<and>
    addresses = a_records (msg_answers m) \<and> ttl = uint (min_ttl (NOT 0) (msg_answers m)) * second"
  using assms
  by (auto simp: check_response_def response_matches_def append_a_records_eq
      split: if_splits sum.splits list.splits)

lemma lookup_loop_Inr:
  "lookup_loop query ended host servers failures = Inr (addresses, ttl) \<Longrightarrow>
   addresses \<noteq> [] \<and>
   (\<exists>before s after. servers = before @ s # after \<and> query s = Inr (addresses, ttl) \<and>
      (\<forall>p \<in> set before. \<forall>as t. query p = Inr (as, t) \<longrightarrow> as = []))"
proof (induction servers arbitrary: failures)
  case (Cons s ss failures)
  define e where "e = (case query s of Inl e \<Rightarrow> e | Inr _ \<Rightarrow> ''response contains no A records'')"
  define failures' where "failures' = failures @ [s @ '': '' @ e]"
  from Cons.prems have ctx: "fst (ended s) = None" by (auto split: option.splits)
  show ?case
  proof (cases "\<exists>a as t. query s = Inr (a # as, t)")
    case True
    with Cons.prems ctx have "query s = Inr (addresses, ttl)" "addresses \<noteq> []"
      by (auto simp: Let_def)
    then show ?thesis
      by (intro conjI exI [of _ "[]"] exI [of _ s] exI [of _ ss]) auto
  next
    case False
    then have none: "query s = Inr (as, t) \<Longrightarrow> as = []" for as t by (cases as) auto
    have rec: "lookup_loop query ended host (if snd (ended s) \<noteq> None then [] else ss) failures' =
        Inr (addresses, ttl)"
    proof (cases "query s")
      case (Inl x)
      then show ?thesis using Cons.prems ctx by (simp only: lookup_loop.simps Let_def failures'_def e_def)
        (simp only: option.case sum.case)
    next
      case (Inr x)
      then have "query s = Inr ([], snd x)" using none [of "fst x" "snd x"] by (cases x) simp
      then show ?thesis using Cons.prems ctx by (simp only: lookup_loop.simps Let_def failures'_def e_def)
        (simp only: option.case sum.case prod.case list.case)
    qed
    then have open_: "snd (ended s) = None" by (cases "snd (ended s)") auto
    have ih: "addresses \<noteq> [] \<and> (\<exists>before s' after. ss = before @ s' # after \<and> query s' = Inr (addresses, ttl) \<and>
        (\<forall>p \<in> set before. \<forall>as t. query p = Inr (as, t) \<longrightarrow> as = []))"
      using Cons.IH rec open_ by simp
    then obtain before s' after where "ss = before @ s' # after" "query s' = Inr (addresses, ttl)"
      "\<forall>p \<in> set before. \<forall>as t. query p = Inr (as, t) \<longrightarrow> as = []" by blast
    with ih none show ?thesis
      by (intro conjI exI [of _ "s # before"] exI [of _ s'] exI [of _ after]) auto
  qed
qed simp

text \<open>
  C27: a successful lookup carries exactly the A records, at least one, of a response that
  answers the query sent (same identifier, same question, no error, not truncated), from the
  first server in the configured order that had any; no A or CNAME record of it lives
  shorter than the returned time, which fits a \<open>time.Duration\<close>.
\<close>

theorem lookup_accepts_only_matching:
  assumes "lookup_session_ipv4 net ended host servers = Inr (addresses, ttl)"
  shows "\<exists>before s after count m.
    servers = before @ s # after \<and> snd (net s) = Inr (count, Inr m) \<and>
    response_matches host (fst (net s)) m \<and> addresses = a_records (msg_answers m) \<and> addresses \<noteq> [] \<and>
    0 \<le> ttl \<and> ttl \<le> max_int64 \<and>
    (\<forall>r \<in> set (msg_answers m). a_body r \<noteq> OtherRecord \<longrightarrow> ttl \<le> uint (a_ttl r) * second) \<and>
    (\<forall>p \<in> set before. \<forall>as t. query_session_a (fst (net p)) (snd (net p)) host = Inr (as, t) \<longrightarrow> as = [])"
proof -
  from lookup_loop_Inr [OF assms [unfolded lookup_session_ipv4_def]]
  obtain before s after where ne: "addresses \<noteq> []" and s: "servers = before @ s # after"
    and q: "query_session_a (fst (net s)) (snd (net s)) host = Inr (addresses, ttl)"
    and b: "\<forall>p \<in> set before. \<forall>as t. query_session_a (fst (net p)) (snd (net p)) host = Inr (as, t) \<longrightarrow> as = []"
    by blast
  from q obtain count message where x: "snd (net s) = Inr (count, message)"
    and c: "check_response host (fst (net s)) count message = Inr (addresses, ttl)"
    by (auto simp: query_session_a_def bind_result_Inr_iff)
  from check_response_Inr [OF c] obtain m where m: "message = Inr m" "response_matches host (fst (net s)) m"
    "addresses = a_records (msg_answers m)" "ttl = uint (min_ttl (NOT 0) (msg_answers m)) * second"
    by blast
  have "uint (min_ttl (NOT 0) (msg_answers m)) \<le> uint (a_ttl r)"
    if "r \<in> set (msg_answers m)" "a_body r \<noteq> OtherRecord" for r
    using min_ttl_le [of "NOT 0" "msg_answers m"] that by (simp add: word_le_def)
  then have "\<forall>r \<in> set (msg_answers m). a_body r \<noteq> OtherRecord \<longrightarrow> ttl \<le> uint (a_ttl r) * second"
    by (simp add: m(4) second_def)
  moreover have "0 \<le> ttl" "ttl \<le> max_int64" using ttl_fits by (simp_all add: m(4) second_def)
  ultimately show ?thesis using s x m(1,2,3) ne b by blast
qed

definition sample_answer :: dns_message where
  "sample_answer = \<lparr>msg_response = True, msg_id = 7, msg_rcode = 0, msg_rcode_text = ''RCodeSuccess'',
     msg_truncated = False, msg_questions = [\<lparr>q_type = 1, q_name = ''A.test.''\<rparr>],
     msg_answers = [\<lparr>a_ttl = 300, a_body = CName\<rparr>, \<lparr>a_ttl = 400, a_body = ARecord 9 9 9 9\<rparr>]\<rparr>"

definition sample_net :: "string \<Rightarrow> u16 \<times> (int \<times> dns_message result) result" where
  "sample_net server = (7, if server = ''1.1.1.1:53'' then Inl ''read UDP DNS response: timeout''
                           else Inr (64, Inr sample_answer))"

lemma lookup_accepts_only_matching_witness:
  "\<exists>before s after count m.
    [''1.1.1.1:53'', ''8.8.8.8:53''] = before @ s # after \<and> snd (sample_net s) = Inr (count, Inr m) \<and>
    response_matches ''a.test'' (fst (sample_net s)) m \<and> [ipv4 9 9 9 9] = a_records (msg_answers m) \<and>
    [ipv4 9 9 9 9] \<noteq> [] \<and> 0 \<le> 300 * second \<and> 300 * second \<le> max_int64 \<and>
    (\<forall>r \<in> set (msg_answers m). a_body r \<noteq> OtherRecord \<longrightarrow> 300 * second \<le> uint (a_ttl r) * second) \<and>
    (\<forall>p \<in> set before. \<forall>as t.
      query_session_a (fst (sample_net p)) (snd (sample_net p)) ''a.test'' = Inr (as, t) \<longrightarrow> as = [])"
proof (rule lookup_accepts_only_matching)
  show "lookup_session_ipv4 sample_net (\<lambda>_. (None, None)) ''a.test'' [''1.1.1.1:53'', ''8.8.8.8:53''] =
      Inr ([ipv4 9 9 9 9], 300 * second)"
    by (simp add: lookup_session_ipv4_def sample_net_def query_session_a_def check_response_def
        sample_answer_def type_a_def query_name_def trim_suffix_def has_suffix_def second_def
        equal_fold_def to_lower_def lower_char_def char_of_def bit_0)
qed

section \<open>Dialing stays inside the tunnel\<close>

definition ipv4_literal :: "string \<Rightarrow> bool" where
  "ipv4_literal address =
     (case split_host_port address of Inl _ \<Rightarrow> False
      | Inr (host, _) \<Rightarrow> (case parse_ip host of None \<Rightarrow> False | Some a \<Rightarrow> to4 a \<noteq> None))"

lemma char_index_Some: "char_index d s = Some j \<Longrightarrow> j < length s \<and> d \<notin> set (take j s)"
  by (induction s arbitrary: j) (auto split: if_splits)

lemma after_last_char: "last_char_index d s = Some i \<Longrightarrow> d \<notin> set (drop (Suc i) s)"
proof -
  assume "last_char_index d s = Some i"
  then obtain j where j: "char_index d (rev s) = Some j" and i: "i = length s - Suc j"
    by (auto simp: last_char_index_def)
  from char_index_Some [OF j] have "j < length s" "d \<notin> set (take j (rev s))" by simp_all
  then show ?thesis by (simp add: i take_rev Suc_diff_Suc)
qed

lemma split_host_port_port:
  assumes "split_host_port hp = Inr (host, port)"
  shows "CHR '':'' \<notin> set port" and "CHR ''['' \<notin> set port" and "CHR '']'' \<notin> set port"
proof -
  obtain i where i: "last_char_index CHR '':'' hp = Some i"
    using assms by (cases "last_char_index CHR '':'' hp") (auto simp: split_host_port_def)
  have "port = drop (Suc i) hp \<and> CHR ''['' \<notin> set (drop 1 hp) \<and> CHR '']'' \<notin> set (drop i hp)"
  proof (cases "hd hp = CHR ''[''")
    case True
    then obtain e where "char_index CHR '']'' hp = Some e"
      using assms i by (cases "char_index CHR '']'' hp") (auto simp: split_host_port_def)
    then show ?thesis using assms i True by (auto simp: split_host_port_def split: if_splits)
  next
    case False
    then show ?thesis using assms i
      by (auto simp: split_host_port_def dest: in_set_dropD split: if_splits)
  qed
  moreover have "set (drop (Suc i) hp) \<subseteq> set (drop 1 hp)" "set (drop (Suc i) hp) \<subseteq> set (drop i hp)"
    by (auto intro: set_drop_subset_set_drop [THEN subsetD, rotated])
  ultimately show "CHR '':'' \<notin> set port" "CHR ''['' \<notin> set port" "CHR '']'' \<notin> set port"
    using after_last_char [OF i] by auto
qed

lemma to4_cases: "to4 a \<noteq> None \<Longrightarrow> length a = 4 \<or> length a = 16"
  by (auto simp: to4_def split: if_splits)

lemma ipv4_literal_join:
  assumes "to4 a \<noteq> None" and "split_host_port hp = Inr (host, port)"
  shows "ipv4_literal (join_host_port (ip_string a) port)"
proof -
  note l = to4_cases [OF assms(1)]
  have "split_host_port (join_host_port (ip_string a) port) = Inr (ip_string a, port)"
    by (intro split_join_host_port ip_string_no_bracket l split_host_port_port [OF assms(2)])
  moreover have "parse_ip (ip_string a) = to16 a" using l by (rule parse_ip_ip_string)
  moreover have "\<exists>b. to16 a = Some b \<and> to4 b \<noteq> None"
    using l assms(1) by (auto simp: to16_def to4_def v4_prefix_def)
  ultimately show ?thesis by (auto simp: ipv4_literal_def)
qed

lemma dial_session_cases:
  assumes "\<And>host as a. resolve host = Inr as \<Longrightarrow> a \<in> set as \<Longrightarrow> to4 a \<noteq> None"
  shows "(\<exists>e. dial_session_ipv4 resolve s address = DialError e) \<or>
    (\<exists>a. dial_session_ipv4 resolve s address = DialSession s ''tcp4'' a \<and> ipv4_literal a)"
proof (cases "split_host_port address")
  case (Inr hp)
  obtain host port where hp: "split_host_port address = Inr (host, port)" using Inr by (cases hp) auto
  show ?thesis
  proof (cases "parse_ip host")
    case None
    show ?thesis
    proof (cases "resolve host")
      case r: (Inr as)
      then show ?thesis
        using hp None assms [OF r] ipv4_literal_join [OF _ hp]
        by (cases as) (auto simp: dial_session_ipv4_def)
    qed (simp add: dial_session_ipv4_def hp None)
  next
    case (Some a)
    then show ?thesis by (auto simp: dial_session_ipv4_def ipv4_literal_def hp)
  qed
qed (simp add: dial_session_ipv4_def)

text \<open>
  outside direct mode a connection never leaves through the host's own network: it fails
  or goes through the installed session, and a TCP connection goes to a literal IPv4 address,
  so that no name is ever handed to the tunnel's or the system's resolver. (The resolver
  behind it only returns IPv4 addresses, as the lookup does.)
\<close>

theorem dial_stays_in_the_tunnel:
  assumes "\<not> m_direct_mode m"
    and resolve: "\<And>host as a. resolve host = Inr as \<Longrightarrow> a \<in> set as \<Longrightarrow> to4 a \<noteq> None"
  shows "case dial_context m resolve network address of
      DialDirect _ _ \<Rightarrow> False
    | DialError _ \<Rightarrow> True
    | DialSession s n a \<Rightarrow> m_session m = Some s \<and>
        (if has_prefix ''tcp'' network then n = ''tcp4'' \<and> ipv4_literal a else n = network \<and> a = address)"
proof (cases "m_session m")
  case (Some s)
  have c: "(\<exists>e. dial_session_ipv4 resolve s address = DialError e) \<or>
      (\<exists>a. dial_session_ipv4 resolve s address = DialSession s ''tcp4'' a \<and> ipv4_literal a)"
    by (rule dial_session_cases) (rule resolve)
  show ?thesis
    using c assms(1) Some by (cases "has_prefix ''tcp'' network") (auto simp: dial_context_def)
qed (simp add: dial_context_def assms(1))

text \<open>The resolver of a session: the addresses of its lookup.\<close>

definition lookup_addresses ::
  "(string \<Rightarrow> u16 \<times> (int \<times> dns_message result) result) \<Rightarrow> (string \<Rightarrow> string option \<times> string option) \<Rightarrow>
   string list \<Rightarrow> string \<Rightarrow> ip list result" where
  "lookup_addresses net ended servers host = map_sum id fst (lookup_session_ipv4 net ended host servers)"

lemma lookup_addresses_ipv4:
  assumes "lookup_addresses net ended servers host = Inr as" and "a \<in> set as"
  shows "to4 a \<noteq> None"
proof -
  obtain ttl where "lookup_session_ipv4 net ended host servers = Inr (as, ttl)"
    using assms(1) by (cases "lookup_session_ipv4 net ended host servers") (auto simp: lookup_addresses_def)
  from lookup_loop_Inr [OF this [unfolded lookup_session_ipv4_def]]
  obtain s where "query_session_a (fst (net s)) (snd (net s)) host = Inr (as, ttl)" by blast
  then obtain count message where "check_response host (fst (net s)) count message = Inr (as, ttl)"
    by (auto simp: query_session_a_def bind_result_Inr_iff)
  from check_response_Inr [OF this] assms(2) show ?thesis by (auto dest: a_records_ipv4)
qed

definition sample_manager :: manager where
  "sample_manager = (new_manager [protocol_sstp] None None None sample_db)\<lparr>m_session := Some 4\<rparr>"

lemma dial_stays_in_the_tunnel_witness:
  "case dial_context sample_manager
      (lookup_addresses sample_net (\<lambda>_. (None, None)) [''1.1.1.1:53'', ''8.8.8.8:53'']) ''tcp'' ''a.test:443'' of
      DialDirect _ _ \<Rightarrow> False
    | DialError _ \<Rightarrow> True
    | DialSession s n a \<Rightarrow> m_session sample_manager = Some s \<and>
        (if has_prefix ''tcp'' ''tcp'' then n = ''tcp4'' \<and> ipv4_literal a else n = ''tcp'' \<and> a = ''a.test:443'')"
  by (rule dial_stays_in_the_tunnel)
    (simp add: sample_manager_def new_manager_def Let_def split: sum.splits, rule lookup_addresses_ipv4)

end
