(* ===== verification/Service.thy ===== *)
theory Service
  imports GoTime
begin

text \<open>
  The restartable background services, \<open>src/internal/service\<close>: the shared runtime metadata
  (\<open>types.go\<close>), and the life cycle that the SOCKS5, health check and speed test services
  have in common: \<open>Start\<close> launches a goroutine, a \<open>run\<close>; \<open>Stop\<close> cancels it and waits with
  the service's mutex held; the goroutine reports its end and then closes its channel.
\<close>

section \<open>Runtime metadata\<close>

record status =
  st_name :: string
  st_running :: bool
  st_restarts :: u64
  st_started_at :: time
  st_stopped_at :: time
  st_updated_at :: time
  st_last_error :: string

definition new_state :: "string \<Rightarrow> time \<Rightarrow> status" where
  "new_state name now = \<lparr>st_name = name, st_running = False, st_restarts = 0, st_started_at = zero_time,
     st_stopped_at = zero_time, st_updated_at = now, st_last_error = []\<rparr>"

definition state_started :: "time \<Rightarrow> status \<Rightarrow> status" where
  "state_started now s = s\<lparr>st_running := True, st_started_at := now, st_updated_at := now, st_last_error := []\<rparr>"

definition state_stopped :: "time \<Rightarrow> string option \<Rightarrow> status \<Rightarrow> status" where
  "state_stopped now err s =
     (let s' = s\<lparr>st_running := False, st_stopped_at := now, st_updated_at := now\<rparr>
      in case err of Some e \<Rightarrow> s'\<lparr>st_last_error := e\<rparr> | None \<Rightarrow> s')"

definition state_restarted :: "time \<Rightarrow> status \<Rightarrow> status" where
  "state_restarted now s = s\<lparr>st_restarts := st_restarts s + 1, st_updated_at := now\<rparr>"

definition state_snapshot :: "time \<Rightarrow> status \<Rightarrow> status" where
  "state_snapshot now s = s\<lparr>st_updated_at := now\<rparr>"

section \<open>A service\<close>

text \<open>
  A run is numbered by the order of launches. \<open>sv_current\<close> stands for the fields \<open>cancel\<close>,
  \<open>done\<close> (and \<open>listener\<close>), set together; \<open>sv_waiting\<close> is the run a \<open>Stop\<close> that holds the
  mutex waits for; a cancelled run has its context ended and its listener closed.
\<close>

datatype phase = Unstarted | Working | Reported | Closed

text \<open>A run goes through its phases in this order.\<close>

fun phase_age :: "phase \<Rightarrow> nat" where
  "phase_age Unstarted = 0"
| "phase_age Working = 1"
| "phase_age Reported = 2"
| "phase_age Closed = 3"

lemma phase_age_inject: "phase_age p = phase_age q \<Longrightarrow> p = q"
  by (cases p; cases q) simp_all

instantiation phase :: linorder
begin

definition less_eq_phase :: "phase \<Rightarrow> phase \<Rightarrow> bool" where
  "p \<le> q \<longleftrightarrow> phase_age p \<le> phase_age q"

definition less_phase :: "phase \<Rightarrow> phase \<Rightarrow> bool" where
  "p < q \<longleftrightarrow> phase_age p < phase_age q"

instance
  by standard (auto simp: less_eq_phase_def less_phase_def intro: phase_age_inject)

end

lemma phase_order [simp]: "Unstarted \<le> p" "p \<le> Closed" "Working \<le> Reported"
  by (cases p; simp add: less_eq_phase_def)+

record service =
  sv_status :: status
  sv_current :: "nat option"
  sv_waiting :: "nat option"
  sv_phase :: "nat \<Rightarrow> phase"
  sv_cancelled :: "nat set"
  sv_next :: nat

definition new_service :: "string \<Rightarrow> time \<Rightarrow> service" where
  "new_service name now = \<lparr>sv_status = new_state name now, sv_current = None, sv_waiting = None,
     sv_phase = (\<lambda>_. Unstarted), sv_cancelled = {}, sv_next = 0\<rparr>"

text \<open>The guard of \<open>Start\<close>: a closed run is forgotten, one that is not refuses the start.\<close>

definition clear_closed :: "'a service_scheme \<Rightarrow> 'a service_scheme option" where
  "clear_closed sv =
     (case sv_current sv of None \<Rightarrow> Some sv
      | Some i \<Rightarrow> if sv_phase sv i = Closed then Some (sv\<lparr>sv_current := None\<rparr>) else None)"

definition launch :: "time \<Rightarrow> 'a service_scheme \<Rightarrow> 'a service_scheme" where
  "launch now sv =
     sv\<lparr>sv_current := Some (sv_next sv), sv_next := Suc (sv_next sv),
       sv_phase := (sv_phase sv)(sv_next sv := Working),
       sv_status := state_started now (sv_status sv)\<rparr>"

definition healthcheck_start :: "time \<Rightarrow> 'a service_scheme \<Rightarrow> string option \<times> 'a service_scheme" where
  "healthcheck_start now sv =
     (case clear_closed sv of None \<Rightarrow> (Some ''health-check service is already running'', sv)
      | Some sv1 \<Rightarrow> (None, launch now sv1))"

text \<open>\<open>listen\<close> is the failure of \<open>net.Listen\<close>, if it fails.\<close>

definition socks5_start ::
  "string option \<times> time \<Rightarrow> 'a service_scheme \<Rightarrow> string option \<times> 'a service_scheme" where
  "socks5_start io sv =
     (case clear_closed sv of None \<Rightarrow> (Some ''SOCKS5 service is already running'', sv)
      | Some sv1 \<Rightarrow>
          (case fst io of
             Some e \<Rightarrow>
               (Some (''start SOCKS5 service: '' @ e),
                sv1\<lparr>sv_status := state_stopped (snd io) (Some (''start SOCKS5 service: '' @ e)) (sv_status sv1)\<rparr>)
           | None \<Rightarrow> (None, launch (snd io) sv1)))"

text \<open>
  \<open>Stop\<close> before and after its \<open>select\<close>; \<open>Inl\<close> is the answer where it does not wait. Both
  channels may be ready: \<open>ended\<close> says which one the \<open>select\<close> took.
\<close>

definition stop_begin :: "'a service_scheme \<Rightarrow> bool \<times> 'a service_scheme" where
  "stop_begin sv =
     (case sv_current sv of None \<Rightarrow> (False, sv)
      | Some i \<Rightarrow> (True, sv\<lparr>sv_cancelled := insert i (sv_cancelled sv), sv_waiting := Some i\<rparr>))"

definition stop_end :: "string \<Rightarrow> string option \<Rightarrow> 'a service_scheme \<Rightarrow> string option \<times> 'a service_scheme" where
  "stop_end label ended sv =
     (case ended of None \<Rightarrow> (None, sv\<lparr>sv_current := None, sv_waiting := None\<rparr>)
      | Some e \<Rightarrow> (Some (''stop '' @ label @ '': '' @ e), sv\<lparr>sv_waiting := None\<rparr>))"

text \<open>The deferred end of the goroutine: \<open>state.Stopped(err)\<close>, then \<open>close(done)\<close>.\<close>

definition run_report :: "time \<Rightarrow> string option \<Rightarrow> nat \<Rightarrow> 'a service_scheme \<Rightarrow> 'a service_scheme" where
  "run_report now err i sv =
     sv\<lparr>sv_status := state_stopped now err (sv_status sv), sv_phase := (sv_phase sv)(i := Reported)\<rparr>"

definition run_close :: "nat \<Rightarrow> 'a service_scheme \<Rightarrow> 'a service_scheme" where
  "run_close i sv = sv\<lparr>sv_phase := (sv_phase sv)(i := Closed)\<rparr>"

definition service_restarted :: "time \<Rightarrow> 'a service_scheme \<Rightarrow> 'a service_scheme" where
  "service_restarted now sv = sv\<lparr>sv_status := state_restarted now (sv_status sv)\<rparr>"

section \<open>Steps\<close>

text \<open>
  Any number of callers: a call that takes the mutex runs only while no \<open>Stop\<close> waits with it;
  a goroutine's end and \<open>Restarted\<close> take no mutex of the service. \<open>start\<close> is one of the
  three start functions, \<open>SOther\<close> what else the service does, which leaves its life cycle be.
\<close>

inductive svc_step ::
  "('i \<Rightarrow> 'a service_scheme \<Rightarrow> string option \<times> 'a service_scheme) \<Rightarrow> 'a service_scheme \<Rightarrow> 'a service_scheme \<Rightarrow> bool"
  for start where
  SStart: "sv_waiting sv = None \<Longrightarrow> svc_step start sv (snd (start io sv))"
| SStopBegin: "sv_waiting sv = None \<Longrightarrow> svc_step start sv (snd (stop_begin sv))"
| SStopDone: "sv_waiting sv = Some i \<Longrightarrow> sv_phase sv i = Closed \<Longrightarrow>
    svc_step start sv (snd (stop_end label None sv))"
| SStopTimeout: "sv_waiting sv = Some i \<Longrightarrow> svc_step start sv (snd (stop_end label (Some e) sv))"
| SRestarted: "svc_step start sv (service_restarted now sv)"
| SReport: "sv_phase sv i = Working \<Longrightarrow> svc_step start sv (run_report now err i sv)"
| SClose: "sv_phase sv i = Reported \<Longrightarrow> svc_step start sv (run_close i sv)"
| SOther: "service.truncate sv' = service.truncate sv \<Longrightarrow> svc_step start sv sv'"

inductive_cases svc_stepE: "svc_step start sv sv'"

definition svc_ok :: "'a service_scheme \<Rightarrow> bool" where
  "svc_ok sv \<longleftrightarrow>
     (\<forall>i. sv_phase sv i = Unstarted \<longleftrightarrow> sv_next sv \<le> i) \<and>
     (\<forall>i. sv_phase sv i \<in> {Working, Reported} \<longrightarrow> sv_current sv = Some i) \<and>
     (\<forall>i. sv_current sv = Some i \<longrightarrow> i < sv_next sv) \<and>
     (\<forall>i. sv_waiting sv = Some i \<longrightarrow> sv_current sv = Some i \<and> i \<in> sv_cancelled sv) \<and>
     (st_running (sv_status sv) \<longleftrightarrow> (\<exists>i. sv_phase sv i = Working))"

lemma svc_ok_truncate: "service.truncate sv' = service.truncate sv \<Longrightarrow> svc_ok sv \<Longrightarrow> svc_ok sv'"
  by (simp add: svc_ok_def service.truncate_def)

lemma svc_alive: "svc_ok sv \<Longrightarrow> sv_phase sv i \<in> {Working, Reported} \<Longrightarrow> sv_current sv = Some i"
  unfolding svc_ok_def by blast

lemma svc_running: "svc_ok sv \<Longrightarrow> st_running (sv_status sv) \<longleftrightarrow> (\<exists>i. sv_phase sv i = Working)"
  unfolding svc_ok_def by blast

text \<open>When nothing is current every run is closed or was never started.\<close>

lemma svc_dead: "phase = Unstarted \<or> phase = Closed \<longleftrightarrow> phase \<notin> {Working, Reported}"
  by (cases phase) auto

lemma svc_ok_not_waiting: "svc_ok sv \<Longrightarrow> svc_ok (sv\<lparr>sv_waiting := None\<rparr>)"
  unfolding svc_ok_def by (elim conjE) (intro conjI; simp)

lemma new_service_ok: "svc_ok (new_service name now)"
  by (simp add: svc_ok_def new_service_def new_state_def)

lemma state_running [simp]:
  "st_running (state_started now s)" "\<not> st_running (state_stopped now err s)"
  "st_running (state_restarted now s) = st_running s"
  by (auto simp: state_started_def state_stopped_def state_restarted_def Let_def split: option.splits)

lemma clear_closed_Some:
  "clear_closed sv = Some sv1 \<Longrightarrow> svc_ok sv \<Longrightarrow> sv_waiting sv = None \<Longrightarrow>
   svc_ok sv1 \<and> sv_current sv1 = None \<and> sv_waiting sv1 = None \<and> sv_status sv1 = sv_status sv \<and>
   (\<forall>i. sv_phase sv1 i = Unstarted \<or> sv_phase sv1 i = Closed)"
proof -
  assume c: "clear_closed sv = Some sv1" and ok: "svc_ok sv" and w: "sv_waiting sv = None"
  have s1: "sv1 = sv\<lparr>sv_current := None\<rparr>" "\<forall>i. sv_current sv = Some i \<longrightarrow> sv_phase sv i = Closed"
    using c by (cases "sv_current sv"; auto simp: clear_closed_def split: if_splits)+
  have ph: "sv_phase sv i = Unstarted \<or> sv_phase sv i = Closed" for i
    using svc_alive [OF ok, of i] s1(2) svc_dead by fastforce
  then have "\<not> st_running (sv_status sv)"
    using svc_running [OF ok] ph by (metis phase.distinct(1,9))
  moreover have "sv_phase sv i \<notin> {Working, Reported}" for i using ph [of i] by auto
  moreover have "sv_phase sv i = Unstarted \<longleftrightarrow> sv_next sv \<le> i" for i using ok by (simp add: svc_ok_def)
  ultimately show ?thesis using w ph by (simp add: svc_ok_def s1(1))
qed

lemma launch_ok:
  assumes "svc_ok sv" and "sv_current sv = None" and "sv_waiting sv = None"
  shows "svc_ok (launch now sv)"
proof -
  have "sv_phase sv i \<notin> {Working, Reported}" for i using assms(1,2) by (auto simp: svc_ok_def)
  then show ?thesis using assms by (auto simp: svc_ok_def launch_def)
qed

lemma no_launch_ok:
  assumes "svc_ok sv" and "sv_current sv = None"
  shows "svc_ok (sv\<lparr>sv_status := state_stopped now err (sv_status sv)\<rparr>)"
proof -
  have "sv_phase sv i \<noteq> Working" for i using assms by (fastforce simp: svc_ok_def)
  then show ?thesis using assms by (simp add: svc_ok_def)
qed

lemma run_end_ok:
  assumes ok: "svc_ok sv" and alive: "sv_phase sv i \<in> {Working, Reported}"
    and p: "p = Reported \<or> p = Closed" and st: "\<not> st_running st"
  shows "svc_ok (sv\<lparr>sv_status := st, sv_phase := (sv_phase sv)(i := p)\<rparr>)"
proof -
  have c: "sv_current sv = Some i" using svc_alive [OF ok alive] .
  have others: "j \<noteq> i \<Longrightarrow> sv_phase sv j \<notin> {Working, Reported}" for j using svc_alive [OF ok, of j] c by auto
  have lt: "i < sv_next sv" and ph: "\<And>j. sv_phase sv j = Unstarted \<longleftrightarrow> sv_next sv \<le> j"
    and wt: "\<And>j. sv_waiting sv = Some j \<Longrightarrow> sv_current sv = Some j \<and> j \<in> sv_cancelled sv"
    using ok c unfolding svc_ok_def by blast+
  show ?thesis
    unfolding svc_ok_def using p lt ph c others st wt by (auto split: if_splits)
qed

lemma cleared_ok:
  assumes "clear_closed sv = Some sv1" and "svc_ok sv" and "sv_waiting sv = None"
  shows "svc_ok (launch now sv1)" and "svc_ok (sv1\<lparr>sv_status := state_stopped now err (sv_status sv1)\<rparr>)"
  using clear_closed_Some [OF assms] by (blast intro: launch_ok no_launch_ok)+

section \<open>The contract of a start function\<close>

locale lifecycle =
  fixes start :: "'i \<Rightarrow> 'a service_scheme \<Rightarrow> string option \<times> 'a service_scheme"
  assumes start_ok: "svc_ok sv \<Longrightarrow> sv_waiting sv = None \<Longrightarrow> svc_ok (snd (start io sv))"
    and start_busy: "sv_current sv = Some i \<Longrightarrow> sv_phase sv i \<noteq> Closed \<Longrightarrow>
      \<exists>e. start io sv = (Some e, sv)"
    and start_launches: "fst (start io sv) = None \<Longrightarrow>
      sv_current (snd (start io sv)) = Some (sv_next sv) \<and> sv_phase (snd (start io sv)) (sv_next sv) = Working"
    and start_forward: "svc_ok sv \<Longrightarrow> sv_waiting sv = None \<Longrightarrow> sv_phase sv i \<le> sv_phase (snd (start io sv)) i"
begin

lemma step_ok: "svc_step start sv sv' \<Longrightarrow> svc_ok sv \<Longrightarrow> svc_ok sv'"
proof (induction rule: svc_step.induct)
  case (SStart sv io)
  then show ?case by (simp add: start_ok)
next
  case (SStopBegin sv)
  then show ?case by (cases "sv_current sv") (auto simp: stop_begin_def svc_ok_def)
next
  case (SStopDone sv i label)
  then have "sv_current sv = Some i" by (simp add: svc_ok_def)
  then have "sv_phase sv j \<notin> {Working, Reported}" for j
    using svc_alive [OF SStopDone(3), of j] SStopDone(2) by auto
  then show ?case using SStopDone(3) unfolding stop_end_def svc_ok_def by simp
next
  case (SStopTimeout sv i label e)
  then show ?case by (simp add: stop_end_def svc_ok_not_waiting)
next
  case (SRestarted sv now)
  then show ?case by (simp add: service_restarted_def svc_ok_def)
next
  case (SReport sv i now err)
  then show ?case using run_end_ok [of sv i Reported "state_stopped now err (sv_status sv)"]
    by (simp add: run_report_def)
next
  case (SClose sv i)
  then have "sv_phase sv j \<noteq> Working" for j
    using svc_alive [of sv i] svc_alive [of sv j] by auto
  then show ?case using SClose run_end_ok [of sv i Closed "sv_status sv"] svc_running [of sv]
    by (simp add: run_close_def)
next
  case (SOther sv' sv)
  then show ?case using svc_ok_truncate by blast
qed

lemma reach_ok: "(svc_step start)\<^sup>*\<^sup>* sv sv' \<Longrightarrow> svc_ok sv \<Longrightarrow> svc_ok sv'"
  by (induction rule: rtranclp_induct) (auto intro: step_ok)

text \<open>No run goes back a phase.\<close>

lemma step_forward: "svc_step start sv sv' \<Longrightarrow> svc_ok sv \<Longrightarrow> sv_phase sv i \<le> sv_phase sv' i"
proof (induction rule: svc_step.induct)
  case (SStart sv io)
  then show ?case by (simp add: start_forward)
next
  case (SStopBegin sv)
  then show ?case by (simp add: stop_begin_def split: option.split)
next
  case (SReport sv j now err)
  then show ?case by (simp add: run_report_def)
next
  case (SOther sv' sv)
  then show ?case by (simp add: service.truncate_def)
qed (simp_all add: stop_end_def service_restarted_def run_close_def)

lemma reach_forward:
  "(svc_step start)\<^sup>*\<^sup>* sv sv' \<Longrightarrow> svc_ok sv \<Longrightarrow> sv_phase sv i \<le> sv_phase sv' i"
  by (induction rule: rtranclp_induct) (auto intro: order_trans step_forward reach_ok)

lemma single_run:
  "(svc_step start)\<^sup>*\<^sup>* sv sv' \<Longrightarrow> svc_ok sv \<Longrightarrow>
   sv_phase sv' i \<in> {Working, Reported} \<Longrightarrow> sv_phase sv' j \<in> {Working, Reported} \<Longrightarrow> i = j"
  using reach_ok [of sv sv'] svc_alive [of sv' i] svc_alive [of sv' j] by simp

end

lemma healthcheck_start_cases:
  "healthcheck_start now sv =
     (case clear_closed sv of None \<Rightarrow> (Some ''health-check service is already running'', sv)
      | Some sv1 \<Rightarrow> (None, launch now sv1))"
  by (simp add: healthcheck_start_def)

lemma clear_closed_busy: "sv_current sv = Some i \<Longrightarrow> sv_phase sv i \<noteq> Closed \<Longrightarrow> clear_closed sv = None"
  by (simp add: clear_closed_def)

lemma clear_closed_next: "clear_closed sv = Some sv1 \<Longrightarrow> sv_next sv1 = sv_next sv"
  by (auto simp: clear_closed_def split: option.splits if_splits)

lemma launch_current:
  "sv_current (launch now sv) = Some (sv_next sv)" "sv_phase (launch now sv) (sv_next sv) = Working"
  by (simp_all add: launch_def)

lemma launch_forward: "svc_ok sv \<Longrightarrow> sv_phase sv i \<le> sv_phase (launch now sv) i"
proof -
  assume "svc_ok sv"
  then have "sv_phase sv (sv_next sv) = Unstarted" unfolding svc_ok_def by blast
  then show ?thesis by (simp add: launch_def)
qed

lemma cleared_forward:
  "clear_closed sv = Some sv1 \<Longrightarrow> svc_ok sv \<Longrightarrow> sv_waiting sv = None \<Longrightarrow>
   sv_phase sv i \<le> sv_phase (launch now sv1) i \<and> sv_phase sv1 i = sv_phase sv i"
  using clear_closed_Some [of sv sv1] launch_forward [of sv1 i now]
  by (auto simp: clear_closed_def split: option.splits if_splits)

interpretation healthcheck: lifecycle "healthcheck_start :: time \<Rightarrow> 'a service_scheme \<Rightarrow> _"
proof
  fix sv :: "'a service_scheme" and now i
  show "svc_ok sv \<Longrightarrow> sv_waiting sv = None \<Longrightarrow> svc_ok (snd (healthcheck_start now sv))"
    by (cases "clear_closed sv") (simp_all add: healthcheck_start_def cleared_ok)
  show "sv_current sv = Some i \<Longrightarrow> sv_phase sv i \<noteq> Closed \<Longrightarrow> \<exists>e. healthcheck_start now sv = (Some e, sv)"
    by (simp add: healthcheck_start_def clear_closed_busy)
  show "svc_ok sv \<Longrightarrow> sv_waiting sv = None \<Longrightarrow> sv_phase sv i \<le> sv_phase (snd (healthcheck_start now sv)) i"
    by (cases "clear_closed sv") (simp_all add: healthcheck_start_def cleared_forward)
  show "fst (healthcheck_start now sv) = None \<Longrightarrow>
      sv_current (snd (healthcheck_start now sv)) = Some (sv_next sv) \<and>
      sv_phase (snd (healthcheck_start now sv)) (sv_next sv) = Working"
    by (cases "clear_closed sv") (simp_all add: healthcheck_start_def launch_def clear_closed_next)
qed

interpretation socks5_service: lifecycle "socks5_start :: string option \<times> time \<Rightarrow> 'a service_scheme \<Rightarrow> _"
proof
  fix sv :: "'a service_scheme" and io i
  show "svc_ok sv \<Longrightarrow> sv_waiting sv = None \<Longrightarrow> svc_ok (snd (socks5_start io sv))"
    by (cases "clear_closed sv"; cases "fst io") (simp_all add: socks5_start_def cleared_ok)
  show "sv_current sv = Some i \<Longrightarrow> sv_phase sv i \<noteq> Closed \<Longrightarrow> \<exists>e. socks5_start io sv = (Some e, sv)"
    by (simp add: socks5_start_def clear_closed_busy)
  show "svc_ok sv \<Longrightarrow> sv_waiting sv = None \<Longrightarrow> sv_phase sv i \<le> sv_phase (snd (socks5_start io sv)) i"
    by (cases "clear_closed sv"; cases "fst io") (simp_all add: socks5_start_def cleared_forward)
  show "fst (socks5_start io sv) = None \<Longrightarrow>
      sv_current (snd (socks5_start io sv)) = Some (sv_next sv) \<and>
      sv_phase (snd (socks5_start io sv)) (sv_next sv) = Working"
    by (cases "clear_closed sv"; cases "fst io") (simp_all add: socks5_start_def launch_def clear_closed_next)
qed

text \<open>
  C40: however the SOCKS5 service is started, stopped and restarted, with listen failures and
  stops that give up waiting, no two of its goroutines live at once, it reports running
  exactly while one is at work, none lives once a stop has returned without error, and no goroutine
  goes back to a phase it has left: one that has ended never works again.
\<close>

theorem socks5_single_run:
  assumes "(svc_step socks5_start)\<^sup>*\<^sup>* (new_service name now) before"
    and "(svc_step socks5_start)\<^sup>*\<^sup>* before sv"
  shows "(\<forall>i j. sv_phase sv i \<in> {Working, Reported} \<and> sv_phase sv j \<in> {Working, Reported} \<longrightarrow> i = j) \<and>
    (st_running (sv_status sv) \<longleftrightarrow> (\<exists>i. sv_phase sv i = Working)) \<and>
    (sv_current sv = None \<longrightarrow> (\<forall>i. sv_phase sv i = Unstarted \<or> sv_phase sv i = Closed)) \<and>
    (\<forall>i. sv_phase before i \<le> sv_phase sv i)"
proof -
  have ok0: "svc_ok before" by (rule socks5_service.reach_ok [OF assms(1) new_service_ok])
  have ok: "svc_ok sv" by (rule socks5_service.reach_ok [OF assms(2) ok0])
  have "sv_phase sv i \<in> {Working, Reported} \<Longrightarrow> sv_phase sv j \<in> {Working, Reported} \<Longrightarrow> i = j" for i j
    by (rule socks5_service.single_run [OF assms(2) ok0])
  moreover have "sv_current sv = None \<Longrightarrow> sv_phase sv i = Unstarted \<or> sv_phase sv i = Closed" for i
    unfolding svc_dead using svc_alive [OF ok, of i] by auto
  moreover have "sv_phase before i \<le> sv_phase sv i" for i
    by (rule socks5_service.reach_forward [OF assms(2) ok0])
  ultimately show ?thesis using svc_running [OF ok] by blast
qed

section \<open>Stopping and restarting\<close>

text \<open>
  \<open>Stop\<close> and \<open>Restart\<close> as whole calls: \<open>meanwhile\<close> is what the goroutine does while \<open>Stop\<close>
  waits, \<open>ended\<close> how the wait ended.
\<close>

definition service_stop ::
  "string \<Rightarrow> string option \<Rightarrow> ('a service_scheme \<Rightarrow> 'a service_scheme) \<Rightarrow> 'a service_scheme \<Rightarrow>
   string option \<times> 'a service_scheme" where
  "service_stop label ended meanwhile sv =
     (case stop_begin sv of (waits, sv1) \<Rightarrow>
        if waits then stop_end label ended (meanwhile sv1) else (None, sv1))"

definition service_restart ::
  "string \<Rightarrow> string option \<Rightarrow> ('a service_scheme \<Rightarrow> 'a service_scheme) \<Rightarrow> time \<Rightarrow>
   ('a service_scheme \<Rightarrow> string option \<times> 'a service_scheme) \<Rightarrow> 'a service_scheme \<Rightarrow>
   string option \<times> 'a service_scheme" where
  "service_restart label ended meanwhile now start sv =
     (case service_stop label ended meanwhile sv of
        (Some e, sv1) \<Rightarrow> (Some e, sv1)
      | (None, sv1) \<Rightarrow> start (service_restarted now sv1))"

text \<open>The three services' own; the SOCKS5 service also closes its listener, with the context.\<close>

definition socks5_stop :: "string option \<Rightarrow> (service \<Rightarrow> service) \<Rightarrow> service \<Rightarrow> string option \<times> service" where
  "socks5_stop = service_stop ''SOCKS5 service''"

definition healthcheck_stop :: "string option \<Rightarrow> (service \<Rightarrow> service) \<Rightarrow> service \<Rightarrow> string option \<times> service" where
  "healthcheck_stop = service_stop ''health-check service''"

definition socks5_restart_call ::
  "string option \<Rightarrow> (service \<Rightarrow> service) \<Rightarrow> time \<Rightarrow> string option \<times> time \<Rightarrow> service \<Rightarrow> string option \<times> service" where
  "socks5_restart_call ended meanwhile now io =
     service_restart ''SOCKS5 service'' ended meanwhile now (socks5_start io)"

definition healthcheck_restart ::
  "string option \<Rightarrow> (service \<Rightarrow> service) \<Rightarrow> time \<Rightarrow> time \<Rightarrow> service \<Rightarrow> string option \<times> service" where
  "healthcheck_restart ended meanwhile now later =
     service_restart ''health-check service'' ended meanwhile now (healthcheck_start later)"

text \<open>
  What the SOCKS5 goroutine reports: the panic it recovered from, or how \<open>Serve\<close> ended, unless
  that is \<open>context.Canceled\<close>, which the flag says.
\<close>

definition socks5_run_error :: "string option \<Rightarrow> (string \<times> bool) option \<Rightarrow> string option" where
  "socks5_run_error panic served =
     (case panic of Some e \<Rightarrow> Some (''panic: '' @ e)
      | None \<Rightarrow> (case served of Some (e, False) \<Rightarrow> Some e | _ \<Rightarrow> None))"

text \<open>
  Restarting the running SOCKS5 service counts a restart and replaces the goroutine; when
  the address cannot be listened on again the call fails, the service is stopped with that
  error, and a later start is accepted.
\<close>

theorem socks5_restart:
  assumes ok: "svc_ok sv" and free: "sv_waiting sv = None"
    and run: "sv_current sv = Some i" "sv_phase sv i = Working"
    and result: "socks5_restart_call None (run_close i \<circ> run_report t err i) now (listen, later) sv = (r, sv')"
  shows "st_restarts (sv_status sv') = st_restarts (sv_status sv) + 1 \<and> sv_phase sv' i = Closed \<and>
    i \<in> sv_cancelled sv' \<and>
    (case listen of
       None \<Rightarrow> r = None \<and> sv_current sv' = Some (sv_next sv) \<and> sv_phase sv' (sv_next sv) = Working \<and>
         st_running (sv_status sv') \<and> st_last_error (sv_status sv') = []
     | Some e \<Rightarrow> r = Some (''start SOCKS5 service: '' @ e) \<and> sv_current sv' = None \<and>
         \<not> st_running (sv_status sv') \<and> st_last_error (sv_status sv') = ''start SOCKS5 service: '' @ e \<and>
         fst (socks5_start (None, later) sv') = None)"
proof -
  have "i \<noteq> sv_next sv" using ok run(1) by (auto simp: svc_ok_def)
  then show ?thesis
    using result run
    by (cases listen)
      (auto simp: socks5_restart_call_def service_restart_def service_stop_def stop_begin_def stop_end_def run_report_def
        run_close_def socks5_start_def clear_closed_def service_restarted_def launch_def
        state_restarted_def state_started_def state_stopped_def Let_def split: option.split)
qed

definition sample_service :: service where
  "sample_service = snd (socks5_start (None, 5) (new_service ''socks5'' 1))"

lemma socks5_single_run_witness:
  "{i. sv_phase sample_service i \<in> {Working, Reported}} = {0} \<and> st_running (sv_status sample_service)"
proof -
  have "svc_step socks5_start (new_service ''socks5'' 1) sample_service"
    unfolding sample_service_def by (rule SStart) (simp add: new_service_def)
  then have reach: "(svc_step socks5_start)\<^sup>*\<^sup>* (new_service ''socks5'' 1) sample_service" by blast
  have zero: "sv_phase sample_service 0 = Working"
    by (simp add: sample_service_def socks5_start_def clear_closed_def new_service_def launch_def)
  have "\<And>i. sv_phase sample_service i \<in> {Working, Reported} \<Longrightarrow> i = 0"
    using socks5_single_run [OF rtranclp.rtrancl_refl reach] zero by blast
  moreover have "st_running (sv_status sample_service)"
    using socks5_single_run [OF rtranclp.rtrancl_refl reach] zero by blast
  ultimately show ?thesis using zero by blast
qed

lemma socks5_restart_witness:
  "let sv = sample_service; r = socks5_restart_call None (run_close 0 \<circ> run_report 7 None 0) 8 (Some ''address in use'', 9) sv
   in st_restarts (sv_status (snd r)) = st_restarts (sv_status sv) + 1 \<and> sv_phase (snd r) 0 = Closed \<and>
     0 \<in> sv_cancelled (snd r) \<and>
     (fst r = Some (''start SOCKS5 service: '' @ ''address in use'') \<and> sv_current (snd r) = None \<and>
      \<not> st_running (sv_status (snd r)) \<and>
      st_last_error (sv_status (snd r)) = ''start SOCKS5 service: '' @ ''address in use'' \<and>
      fst (socks5_start (None, 9) (snd r)) = None)"
  using socks5_restart [of sample_service 0 7 None 8 "Some ''address in use''" 9]
    socks5_service.start_ok [OF new_service_ok, of "''socks5''" 1 "(None, 5)"]
  by (simp add: Let_def prod_eq_iff sample_service_def socks5_start_def clear_closed_def new_service_def launch_def)

end
