(* ===== verification/SpeedTest.thy ===== *)
theory SpeedTest
  imports Service
begin

text \<open>
  The speed test service, \<open>src/internal/service/speedtest\<close>: a service whose goroutine takes
  jobs from a bounded queue, one at a time. Every critical section of \<open>lifecycleMu\<close> and
  \<open>jobsMu\<close> is one step; the goroutine's own position is part of the state. A job's
  context is numbered; it has ended when its number or its run is cancelled.
\<close>

section \<open>State\<close>

record test_result =
  r_state :: string
  r_bits_per_second :: int
  r_error :: string

record job_record =
  j_id :: u64
  j_result :: test_result
  j_cancel :: "nat option"

record queued_job =
  q_ip :: string
  q_id :: u64
  q_ctx :: nat

datatype worker =
    Selecting
  | Taken queued_job
  | Testing queued_job
  | Storing queued_job test_result
  | Draining
  | Exiting "string option"

record speedtest = service +
  sp_jobs :: "string \<rightharpoonup> job_record"
  sp_next_id :: u64
  sp_next_ctx :: nat
  sp_ended :: "nat set"
  sp_queue :: "nat \<Rightarrow> queued_job list"
  sp_worker :: "nat \<Rightarrow> worker"

definition queue_capacity :: nat where "queue_capacity = 128"

definition new_speedtest :: "time \<Rightarrow> speedtest" where
  "new_speedtest now = service.extend (new_service ''speedtest'' now)
     (speedtest.fields Map.empty 0 0 {} (\<lambda>_. []) (\<lambda>_. Selecting))"

definition running_result :: test_result where
  "running_result = \<lparr>r_state = ''running'', r_bits_per_second = 0, r_error = []\<rparr>"

definition canceled_result :: test_result where
  "canceled_result = \<lparr>r_state = ''canceled'', r_bits_per_second = 0, r_error = []\<rparr>"

definition failed_result :: "string \<Rightarrow> test_result" where
  "failed_result e = \<lparr>r_state = ''failed'', r_bits_per_second = 0, r_error = e\<rparr>"

definition is_running :: "job_record \<Rightarrow> bool" where
  "is_running r = (r_state (j_result r) = ''running'')"

section \<open>Operations of the API (\<open>jobs.go\<close>)\<close>

definition queue_manual :: "string \<Rightarrow> speedtest \<Rightarrow> test_result result \<times> speedtest" where
  "queue_manual ip sp =
     (case sv_current sp of None \<Rightarrow> (Inl ''speed-test service is not running'', sp)
      | Some i \<Rightarrow>
          if sv_phase sp i = Closed then (Inl ''speed-test service is not running'', sp)
          else if (case sp_jobs sp ip of Some r \<Rightarrow> is_running r | None \<Rightarrow> False)
          then (Inl ''speed test is already running'', sp)
          else
            let n = sp_next_id sp + 1; c = sp_next_ctx sp;
                sp1 = sp\<lparr>sp_next_id := n, sp_next_ctx := Suc c\<rparr>
            in if length (sp_queue sp i) < queue_capacity
               then (Inr running_result,
                     sp1\<lparr>sp_jobs := (sp_jobs sp)(ip \<mapsto> \<lparr>j_id = n, j_result = running_result, j_cancel = Some c\<rparr>),
                       sp_queue := (sp_queue sp)(i := sp_queue sp i @ [\<lparr>q_ip = ip, q_id = n, q_ctx = c\<rparr>])\<rparr>)
               else (Inl ''speed-test queue is full'',
                     sp1\<lparr>sp_jobs := (sp_jobs sp)(ip := None), sp_ended := insert c (sp_ended sp)\<rparr>))"

definition job_result :: "string \<Rightarrow> speedtest \<Rightarrow> test_result option" where
  "job_result ip sp = map_option j_result (sp_jobs sp ip)"

definition end_ctx :: "nat option \<Rightarrow> speedtest \<Rightarrow> speedtest" where
  "end_ctx c sp = (case c of None \<Rightarrow> sp | Some c \<Rightarrow> sp\<lparr>sp_ended := insert c (sp_ended sp)\<rparr>)"

definition cancel_manual :: "string \<Rightarrow> speedtest \<Rightarrow> test_result result \<times> speedtest" where
  "cancel_manual ip sp =
     (case sp_jobs sp ip of None \<Rightarrow> (Inl ''speed test was not found'', sp)
      | Some r \<Rightarrow>
          if \<not> is_running r then (Inr (j_result r), sp)
          else (Inr canceled_result,
                end_ctx (j_cancel r)
                  (sp\<lparr>sp_jobs := (sp_jobs sp)(ip \<mapsto> r\<lparr>j_result := canceled_result, j_cancel := None\<rparr>)\<rparr>)))"

section \<open>The goroutine (\<open>start.go\<close>)\<close>

definition speedtest_start :: "time \<Rightarrow> speedtest \<Rightarrow> string option \<times> speedtest" where
  "speedtest_start now sp =
     (case clear_closed sp of None \<Rightarrow> (Some ''speed-test service is already running'', sp)
      | Some sp1 \<Rightarrow>
          let i = sv_next sp1
          in (None, (launch now sp1)\<lparr>sp_queue := (sp_queue sp1)(i := []),
                sp_worker := (sp_worker sp1)(i := Selecting)\<rparr>))"

definition set_worker :: "nat \<Rightarrow> worker \<Rightarrow> speedtest \<Rightarrow> speedtest" where
  "set_worker i w sp = sp\<lparr>sp_worker := (sp_worker sp)(i := w)\<rparr>"

definition take_job :: "nat \<Rightarrow> speedtest \<Rightarrow> speedtest" where
  "take_job i sp = set_worker i (Taken (hd (sp_queue sp i)))
     (sp\<lparr>sp_queue := (sp_queue sp)(i := tl (sp_queue sp i))\<rparr>)"

text \<open>A queued job is still wanted: its record is the one it was queued with.\<close>

definition wanted :: "queued_job \<Rightarrow> speedtest \<Rightarrow> bool" where
  "wanted q sp = (case sp_jobs sp (q_ip q) of None \<Rightarrow> False
     | Some r \<Rightarrow> j_id r = q_id q \<and> is_running r)"

definition begin_job :: "nat \<Rightarrow> queued_job \<Rightarrow> speedtest \<Rightarrow> speedtest" where
  "begin_job i q sp = set_worker i (if wanted q sp then Testing q else Selecting) sp"

definition ctx_ended :: "nat \<Rightarrow> queued_job \<Rightarrow> speedtest \<Rightarrow> bool" where
  "ctx_ended i q sp = (i \<in> sv_cancelled sp \<or> q_ctx q \<in> sp_ended sp)"

definition job_outcome :: "bool \<Rightarrow> int \<times> string option \<Rightarrow> test_result" where
  "job_outcome ended tested =
     (if ended then canceled_result
      else case snd tested of
        Some e \<Rightarrow> \<lparr>r_state = ''failed'', r_bits_per_second = fst tested, r_error = e\<rparr>
      | None \<Rightarrow> \<lparr>r_state = ''complete'', r_bits_per_second = fst tested, r_error = []\<rparr>)"

definition tested_job :: "nat \<Rightarrow> queued_job \<Rightarrow> int \<times> string option \<Rightarrow> speedtest \<Rightarrow> speedtest" where
  "tested_job i q tested sp = set_worker i (Storing q (job_outcome (ctx_ended i q sp) tested)) sp"

definition finish_record :: "queued_job \<Rightarrow> test_result \<Rightarrow> speedtest \<Rightarrow> speedtest" where
  "finish_record q res sp =
     (if wanted q sp
      then sp\<lparr>sp_jobs := (sp_jobs sp)(q_ip q \<mapsto>
             (the (sp_jobs sp (q_ip q)))\<lparr>j_result := res, j_cancel := None\<rparr>)\<rparr>
      else sp)"

definition store_job :: "nat \<Rightarrow> queued_job \<Rightarrow> test_result \<Rightarrow> speedtest \<Rightarrow> speedtest" where
  "store_job i q res sp = set_worker i Selecting (finish_record q res sp)"

text \<open>\<open>failPending\<close> takes and fails the queued jobs one by one, with the context's error.\<close>

definition fail_pending :: "nat \<Rightarrow> string \<Rightarrow> speedtest \<Rightarrow> speedtest" where
  "fail_pending i cause sp =
     (case sp_queue sp i of [] \<Rightarrow> set_worker i (Exiting None) sp
      | q # qs \<Rightarrow> finish_record q (failed_result cause) (sp\<lparr>sp_queue := (sp_queue sp)(i := qs)\<rparr>))"

definition fail_running :: "string \<Rightarrow> speedtest \<Rightarrow> speedtest" where
  "fail_running cause sp = sp\<lparr>sp_jobs := (\<lambda>ip. map_option (\<lambda>r.
     if is_running r then r\<lparr>j_result := failed_result cause, j_cancel := None\<rparr> else r) (sp_jobs sp ip))\<rparr>"

definition recover_panic :: "nat \<Rightarrow> string \<Rightarrow> speedtest \<Rightarrow> speedtest" where
  "recover_panic i e sp = set_worker i (Exiting (Some (''panic: '' @ e))) (fail_running (''panic: '' @ e) sp)"

section \<open>Steps\<close>

text \<open>
  \<open>late\<close> allows \<open>QueueManual\<close> after the goroutine has emptied the queue for the last time and
  before it has closed its channel.
\<close>

definition exiting :: "speedtest \<Rightarrow> bool" where
  "exiting sp = (case sv_current sp of None \<Rightarrow> False
     | Some i \<Rightarrow> (case sp_worker sp i of Exiting _ \<Rightarrow> True | _ \<Rightarrow> False))"

inductive sp_step :: "bool \<Rightarrow> speedtest \<Rightarrow> speedtest \<Rightarrow> bool" for late where
  PStart: "sv_waiting sp = None \<Longrightarrow> sp_step late sp (snd (speedtest_start now sp))"
| PStopBegin: "sv_waiting sp = None \<Longrightarrow> sp_step late sp (snd (stop_begin sp))"
| PStopDone: "sv_waiting sp = Some i \<Longrightarrow> sv_phase sp i = Closed \<Longrightarrow>
    sp_step late sp (snd (stop_end ''speed-test service'' None sp))"
| PStopTimeout: "sv_waiting sp = Some i \<Longrightarrow>
    sp_step late sp (snd (stop_end ''speed-test service'' (Some e) sp))"
| PRestarted: "sp_step late sp (service_restarted now sp)"
| PQueue: "sv_waiting sp = None \<Longrightarrow> late \<or> \<not> exiting sp \<Longrightarrow> sp_step late sp (snd (queue_manual ip sp))"
| PCancel: "sp_step late sp (snd (cancel_manual ip sp))"
| PTake: "sv_phase sp i = Working \<Longrightarrow> sp_worker sp i = Selecting \<Longrightarrow> sp_queue sp i \<noteq> [] \<Longrightarrow>
    sp_step late sp (take_job i sp)"
| PBegin: "sv_phase sp i = Working \<Longrightarrow> sp_worker sp i = Taken q \<Longrightarrow> sp_step late sp (begin_job i q sp)"
| PTested: "sv_phase sp i = Working \<Longrightarrow> sp_worker sp i = Testing q \<Longrightarrow>
    sp_step late sp (tested_job i q tested sp)"
| PPanic: "sv_phase sp i = Working \<Longrightarrow> sp_worker sp i = Testing q \<Longrightarrow> sp_step late sp (recover_panic i e sp)"
| PStore: "sv_phase sp i = Working \<Longrightarrow> sp_worker sp i = Storing q res \<Longrightarrow>
    sp_step late sp (store_job i q res sp)"
| PDone: "sv_phase sp i = Working \<Longrightarrow> sp_worker sp i = Selecting \<Longrightarrow> i \<in> sv_cancelled sp \<Longrightarrow>
    sp_step late sp (set_worker i Draining sp)"
| PDrain: "sv_phase sp i = Working \<Longrightarrow> sp_worker sp i = Draining \<Longrightarrow>
    sp_step late sp (fail_pending i ''context canceled'' sp)"
| PReport: "sv_phase sp i = Working \<Longrightarrow> sp_worker sp i = Exiting err \<Longrightarrow>
    sp_step late sp (run_report now err i sp)"
| PClose: "sv_phase sp i = Reported \<Longrightarrow> sp_step late sp (run_close i sp)"

inductive_cases sp_stepE: "sp_step late sp sp'"

lemmas sp_job_defs = queue_manual_def cancel_manual_def end_ctx_def set_worker_def take_job_def begin_job_def
  tested_job_def finish_record_def store_job_def fail_pending_def fail_running_def recover_panic_def

lemma extend_ok [simp]:
  "svc_ok (sp\<lparr>sp_queue := a\<rparr>) = svc_ok sp" "svc_ok (sp\<lparr>sp_worker := b\<rparr>) = svc_ok sp"
  by (simp_all add: svc_ok_def)

interpretation speedtest: lifecycle speedtest_start
proof
  fix sp :: speedtest and now i
  show "svc_ok sp \<Longrightarrow> sv_waiting sp = None \<Longrightarrow> svc_ok (snd (speedtest_start now sp))"
    by (cases "clear_closed sp") (simp_all add: speedtest_start_def cleared_ok Let_def)
  show "sv_current sp = Some i \<Longrightarrow> sv_phase sp i \<noteq> Closed \<Longrightarrow> \<exists>e. speedtest_start now sp = (Some e, sp)"
    by (simp add: speedtest_start_def clear_closed_busy)
  show "svc_ok sp \<Longrightarrow> sv_waiting sp = None \<Longrightarrow> sv_phase sp i \<le> sv_phase (snd (speedtest_start now sp)) i"
    by (cases "clear_closed sp") (simp_all add: speedtest_start_def cleared_forward Let_def)
  show "fst (speedtest_start now sp) = None \<Longrightarrow>
      sv_current (snd (speedtest_start now sp)) = Some (sv_next sp) \<and>
      sv_phase (snd (speedtest_start now sp)) (sv_next sp) = Working"
    by (cases "clear_closed sp") (simp_all add: speedtest_start_def launch_def clear_closed_next Let_def)
qed

text \<open>\<open>Stop\<close> and \<open>Restart\<close>; a run has a queue of its own, so that forgetting the run forgets the queue.\<close>

definition speedtest_stop :: "string option \<Rightarrow> (speedtest \<Rightarrow> speedtest) \<Rightarrow> speedtest \<Rightarrow> string option \<times> speedtest" where
  "speedtest_stop = service_stop ''speed-test service''"

definition speedtest_restart ::
  "string option \<Rightarrow> (speedtest \<Rightarrow> speedtest) \<Rightarrow> time \<Rightarrow> time \<Rightarrow> speedtest \<Rightarrow> string option \<times> speedtest" where
  "speedtest_restart ended meanwhile now later =
     service_restart ''speed-test service'' ended meanwhile now (speedtest_start later)"

text \<open>The jobs leave the life cycle alone: a step of the service is a step of the life cycle.\<close>

lemma job_steps_truncate:
  "service.truncate (snd (queue_manual ip sp)) = service.truncate sp"
  "service.truncate (snd (cancel_manual ip sp)) = service.truncate sp"
  "service.truncate (set_worker i w sp) = service.truncate sp"
  "service.truncate (finish_record q res sp) = service.truncate sp"
  "service.truncate (fail_running e sp) = service.truncate sp"
  "service.truncate (sp\<lparr>sp_queue := qs\<rparr>) = service.truncate sp"
  by (auto simp: sp_job_defs service.truncate_def Let_def split: option.split)

lemma sp_step_svc: "sp_step late sp sp' \<Longrightarrow> svc_step speedtest_start sp sp'"
proof (induction rule: sp_step.induct)
  case (PDrain sp i)
  then show ?case
    by (cases "sp_queue sp i") (simp_all add: fail_pending_def SOther job_steps_truncate)
qed (auto intro: svc_step.intros
    simp: job_steps_truncate take_job_def begin_job_def tested_job_def recover_panic_def store_job_def)

lemma sp_reach_svc: "(sp_step late)\<^sup>*\<^sup>* sp sp' \<Longrightarrow> (svc_step speedtest_start)\<^sup>*\<^sup>* sp sp'"
  by (induction rule: rtranclp_induct) (auto dest: sp_step_svc)

lemma new_speedtest_ok: "svc_ok (new_speedtest now)"
  using new_service_ok by (simp add: svc_ok_def new_speedtest_def service.defs speedtest.defs)

section \<open>No job is lost\<close>

definition holds_job :: "worker \<Rightarrow> queued_job \<Rightarrow> bool" where
  "holds_job w q = (case w of Taken q' \<Rightarrow> q' = q | Testing q' \<Rightarrow> q' = q | Storing q' _ \<Rightarrow> q' = q | _ \<Rightarrow> False)"

lemma holds_job_simps [simp]:
  "\<not> holds_job Selecting q" "\<not> holds_job Draining q" "\<not> holds_job (Exiting e) q"
  "holds_job (Taken q') q \<longleftrightarrow> q' = q" "holds_job (Testing q') q \<longleftrightarrow> q' = q" "holds_job (Storing q' res) q \<longleftrightarrow> q' = q"
  by (simp_all add: holds_job_def)

text \<open>The working goroutine \<open>i\<close> will come to the job that record \<open>r\<close> waits for.\<close>

definition tracked_by :: "nat \<Rightarrow> string \<Rightarrow> job_record \<Rightarrow> speedtest \<Rightarrow> bool" where
  "tracked_by i ip r sp \<longleftrightarrow> sv_phase sp i = Working \<and>
     (\<exists>q. q_ip q = ip \<and> q_id q = j_id r \<and> (q \<in> set (sp_queue sp i) \<or> holds_job (sp_worker sp i) q)) \<and>
     (\<forall>e. sp_worker sp i \<noteq> Exiting e)"

definition tracked :: "speedtest \<Rightarrow> bool" where
  "tracked sp \<longleftrightarrow> (\<forall>ip r. sp_jobs sp ip = Some r \<and> is_running r \<longrightarrow> (\<exists>i. tracked_by i ip r sp))"

definition final_result :: "test_result \<Rightarrow> bool" where
  "final_result res \<longleftrightarrow> r_state res \<in> {''complete'', ''failed'', ''canceled''}"

definition known_job :: "job_record \<Rightarrow> bool" where
  "known_job r \<longleftrightarrow> is_running r \<or> final_result (j_result r)"

definition well_placed :: "speedtest \<Rightarrow> bool" where
  "well_placed sp \<longleftrightarrow>
     (\<forall>i. length (sp_queue sp i) \<le> queue_capacity) \<and>
     (\<forall>i. sv_phase sp i = Reported \<longrightarrow> (\<exists>e. sp_worker sp i = Exiting e)) \<and>
     (\<forall>i q res. sp_worker sp i = Storing q res \<longrightarrow> final_result res) \<and>
     (\<forall>ip r. sp_jobs sp ip = Some r \<longrightarrow> known_job r)"

lemma result_states [simp]:
  "r_state running_result = ''running''" "final_result canceled_result" "final_result (failed_result e)"
  "final_result (job_outcome ended tested)" "final_result res \<Longrightarrow> r_state res \<noteq> ''running''"
  by (auto simp: running_result_def canceled_result_def failed_result_def job_outcome_def final_result_def
      split: option.split)

lemma known_job_simps [simp]:
  "known_job (r\<lparr>j_result := res, j_cancel := c\<rparr>) \<longleftrightarrow> r_state res = ''running'' \<or> final_result res"
  "known_job \<lparr>j_id = n, j_result = running_result, j_cancel = c\<rparr>"
  by (simp_all add: known_job_def is_running_def)

lemma well_placed_worker:
  "well_placed sp \<Longrightarrow> sv_phase sp i = Working \<Longrightarrow>
   (\<And>q res. w = Storing q res \<Longrightarrow> final_result res) \<Longrightarrow> well_placed (set_worker i w sp)"
  by (auto simp: well_placed_def set_worker_def)

lemma well_placed_finish:
  "well_placed sp \<Longrightarrow> final_result res \<Longrightarrow> well_placed (finish_record q res sp)"
  by (auto simp: well_placed_def finish_record_def)

lemma well_placed_dequeue: "well_placed sp \<Longrightarrow> length qs \<le> length (sp_queue sp i) \<Longrightarrow>
   well_placed (sp\<lparr>sp_queue := (sp_queue sp)(i := qs)\<rparr>)"
  by (auto simp: well_placed_def intro: order_trans)

lemma finish_phase [simp]: "sv_phase (finish_record q res sp) = sv_phase sp"
  by (simp add: finish_record_def)

lemma well_placed_start:
  assumes "well_placed sp" and "svc_ok sp"
  shows "well_placed (snd (speedtest_start now sp))"
proof (cases "clear_closed sp")
  case (Some sp1)
  then have "sp1 = sp \<or> sp1 = sp\<lparr>sv_current := None\<rparr>"
    by (auto simp: clear_closed_def split: option.splits if_splits)
  then show ?thesis using assms(1) Some
    by (auto simp: speedtest_start_def launch_def Let_def well_placed_def)
qed (simp add: speedtest_start_def assms)

lemma well_placed_queue:
  "well_placed sp \<Longrightarrow> well_placed (snd (queue_manual ip sp))"
  by (cases "sv_current sp") (auto simp: queue_manual_def well_placed_def Let_def)

lemma well_placed_cancel: "well_placed sp \<Longrightarrow> well_placed (snd (cancel_manual ip sp))"
  by (cases "sp_jobs sp ip"; cases "j_cancel (the (sp_jobs sp ip))")
    (auto simp: cancel_manual_def end_ctx_def well_placed_def)

lemma well_placed_fail_running: "well_placed sp \<Longrightarrow> well_placed (fail_running e sp)"
  by (auto simp: fail_running_def well_placed_def)

lemma well_placed_step: "sp_step late sp sp' \<Longrightarrow> well_placed sp \<Longrightarrow> svc_ok sp \<Longrightarrow> well_placed sp'"
proof (induction rule: sp_step.induct)
  case (PStart sp now)
  then show ?case by (simp add: well_placed_start)
next
  case (PStopBegin sp)
  then show ?case by (cases "sv_current sp") (auto simp: stop_begin_def well_placed_def)
next
  case (PQueue sp ip)
  then show ?case by (simp add: well_placed_queue)
next
  case (PCancel sp ip)
  then show ?case by (simp add: well_placed_cancel)
next
  case (PTake sp i)
  then show ?case
    unfolding take_job_def by (intro well_placed_worker well_placed_dequeue) auto
next
  case (PBegin sp i q)
  then show ?case unfolding begin_job_def by (intro well_placed_worker) (auto split: if_splits)
next
  case (PTested sp i q tested)
  then show ?case unfolding tested_job_def by (intro well_placed_worker) auto
next
  case (PPanic sp i q e)
  then show ?case unfolding recover_panic_def
    by (intro well_placed_worker well_placed_fail_running) (auto simp: fail_running_def)
next
  case (PStore sp i q res)
  then have "final_result res" by (simp add: well_placed_def)
  then show ?case using PStore unfolding store_job_def
    by (intro well_placed_worker well_placed_finish) auto
next
  case (PDone sp i)
  then show ?case by (intro well_placed_worker) auto
next
  case (PDrain sp i)
  show ?case
  proof (cases "sp_queue sp i")
    case Nil
    then show ?thesis using PDrain by (simp add: fail_pending_def) (rule well_placed_worker; simp)
  qed (use PDrain in \<open>simp add: fail_pending_def well_placed_finish well_placed_dequeue\<close>)
qed (auto simp: well_placed_def stop_end_def service_restarted_def run_report_def run_close_def)

lemma tracked_D:
  assumes "tracked sp" and "sp_jobs sp ip = Some r" and "is_running r"
  obtains i where "tracked_by i ip r sp"
  using assms unfolding tracked_def by blast

lemma working_unique:
  "svc_ok sp \<Longrightarrow> sv_phase sp i = Working \<Longrightarrow> sv_phase sp j = Working \<or> sv_phase sp j = Reported \<Longrightarrow> j = i"
  using svc_alive [of sp i] svc_alive [of sp j] by auto

text \<open>A step that keeps the records and what each goroutine has before it keeps the tracking.\<close>

lemma tracked_mono:
  assumes "tracked sp" and "\<And>ip r. sp_jobs sp' ip = Some r \<Longrightarrow> is_running r \<Longrightarrow> sp_jobs sp ip = Some r"
    and "\<And>i ip r. tracked_by i ip r sp \<Longrightarrow> sp_jobs sp' ip = Some r \<Longrightarrow> is_running r \<Longrightarrow> tracked_by i ip r sp'"
  shows "tracked sp'"
  using assms unfolding tracked_def by blast

lemma tracked_none:
  "(\<And>ip r. sp_jobs sp ip = Some r \<Longrightarrow> \<not> is_running r) \<Longrightarrow> tracked sp"
  unfolding tracked_def by blast

lemma finish_running:
  assumes "sp_jobs (finish_record q res sp) ip = Some r" and "is_running r" and "r_state res \<noteq> ''running''"
  shows "sp_jobs sp ip = Some r \<and> \<not> (q_ip q = ip \<and> q_id q = j_id r)"
proof (cases "wanted q sp")
  case True
  then show ?thesis using assms
    by (cases "ip = q_ip q") (auto simp: finish_record_def is_running_def)
next
  case False
  then show ?thesis using assms(1,2) by (auto simp: finish_record_def wanted_def)
qed

lemma tracked_start:
  assumes t: "tracked sp" and ok: "svc_ok sp"
  shows "tracked (snd (speedtest_start now sp))"
proof (cases "clear_closed sp")
  case (Some sp1)
  then consider "sp1 = sp" | "sp1 = sp\<lparr>sv_current := None\<rparr>"
    by (auto simp: clear_closed_def split: option.splits if_splits)
  then have same: "sp_jobs sp1 = sp_jobs sp" "sv_phase sp1 = sv_phase sp" "sp_queue sp1 = sp_queue sp"
    "sp_worker sp1 = sp_worker sp" "sv_next sp1 = sv_next sp"
    by (cases; simp)+
  have lt: "i \<noteq> sv_next sp" if "sv_phase sp i = Working" for i
  proof -
    have "sv_current sp = Some i" using svc_alive [OF ok, of i] that by simp
    then have "i < sv_next sp" using ok unfolding svc_ok_def by blast
    then show ?thesis by simp
  qed
  have sp': "snd (speedtest_start now sp) = (launch now sp1)\<lparr>sp_queue := (sp_queue sp)(sv_next sp := []),
      sp_worker := (sp_worker sp)(sv_next sp := Selecting)\<rparr>"
    using Some same by (simp add: speedtest_start_def Let_def)
  show ?thesis
  proof (rule tracked_mono [OF t])
    show "sp_jobs (snd (speedtest_start now sp)) ip = Some r \<Longrightarrow> is_running r \<Longrightarrow> sp_jobs sp ip = Some r" for ip r
      by (simp add: sp' launch_def same)
    show "tracked_by i ip r sp \<Longrightarrow> tracked_by i ip r (snd (speedtest_start now sp))" for i ip r
      using lt [of i] by (simp add: sp' launch_def same tracked_by_def)
  qed
qed (simp add: speedtest_start_def t)

lemma tracked_queue:
  assumes t: "tracked sp" and ok: "svc_ok sp" and wp: "well_placed sp" and ne: "\<not> exiting sp"
  shows "tracked (snd (queue_manual ip sp))"
proof (cases "\<exists>res. fst (queue_manual ip sp) = Inr res")
  case False
  then show ?thesis
    by (intro tracked_mono [OF t]; cases "sv_current sp")
      (auto simp: queue_manual_def tracked_by_def Let_def split: if_splits)
next
  case True
  then obtain i where i: "sv_current sp = Some i" "sv_phase sp i \<noteq> Closed"
    by (cases "sv_current sp") (auto simp: queue_manual_def split: if_splits)
  have "i < sv_next sp" using ok i(1) by (simp add: svc_ok_def)
  then have "sv_phase sp i \<noteq> Unstarted" using ok by (simp add: svc_ok_def)
  moreover have "sp_worker sp i \<noteq> Exiting e" for e
    using ne i(1) by (auto simp: exiting_def split: worker.splits)
  moreover have "sv_phase sp i \<noteq> Reported" using wp calculation(2) unfolding well_placed_def by blast
  ultimately have w: "sv_phase sp i = Working" "\<And>e. sp_worker sp i \<noteq> Exiting e"
    using i(2) by (cases "sv_phase sp i"; auto)+
  let ?sp' = "snd (queue_manual ip sp)"
  have old: "tracked_by j ip' r sp \<Longrightarrow> tracked_by j ip' r ?sp'" for j ip' r
    using True i by (auto simp: queue_manual_def tracked_by_def Let_def split: if_splits)
  have new: "sp_jobs ?sp' ip = Some r \<Longrightarrow> tracked_by i ip r ?sp'" for r
    using True i w
    by (auto simp: queue_manual_def tracked_by_def Let_def split: if_splits
        intro!: exI [of _ "\<lparr>q_ip = ip, q_id = sp_next_id sp + 1, q_ctx = sp_next_ctx sp\<rparr>"])
  have same: "ip' \<noteq> ip \<Longrightarrow> sp_jobs ?sp' ip' = sp_jobs sp ip'" for ip'
    using i by (auto simp: queue_manual_def Let_def)
  show ?thesis unfolding tracked_def
  proof (intro allI impI)
    fix ip' r
    assume r: "sp_jobs ?sp' ip' = Some r \<and> is_running r"
    show "\<exists>j. tracked_by j ip' r ?sp'"
    proof (cases "ip' = ip")
      case True
      then show ?thesis using new r by blast
    next
      case False
      then show ?thesis using same r t old by (metis tracked_D)
    qed
  qed
qed

lemma tracked_store:
  assumes t: "tracked sp" and ok: "svc_ok sp" and i: "sv_phase sp i = Working"
    and res: "r_state res \<noteq> ''running''"
    and cover: "\<And>q'. (q' \<in> set (sp_queue sp i) \<or> holds_job (sp_worker sp i) q') \<Longrightarrow>
      q' = q \<or> (q' \<in> set qs \<or> holds_job w q')"
    and w: "\<And>e. w \<noteq> Exiting e"
  shows "tracked (set_worker i w (finish_record q res (sp\<lparr>sp_queue := (sp_queue sp)(i := qs)\<rparr>)))"
    (is "tracked ?sp'")
  unfolding tracked_def
proof (intro allI impI)
  fix ip r
  assume r: "sp_jobs ?sp' ip = Some r \<and> is_running r"
  then have "sp_jobs (finish_record q res (sp\<lparr>sp_queue := (sp_queue sp)(i := qs)\<rparr>)) ip = Some r"
    by (simp add: set_worker_def)
  from finish_running [OF this _ res] r have j: "sp_jobs sp ip = Some r" "\<not> (q_ip q = ip \<and> q_id q = j_id r)"
    by simp_all
  obtain i' where i': "tracked_by i' ip r sp" using tracked_D [OF t j(1)] r by blast
  then have "i' = i" using working_unique [OF ok i, of i'] by (simp add: tracked_by_def)
  with i' obtain q' where "q_ip q' = ip" "q_id q' = j_id r"
    "q' \<in> set (sp_queue sp i) \<or> holds_job (sp_worker sp i) q'" by (auto simp: tracked_by_def)
  with cover [of q'] j(2) have "q' \<in> set qs \<or> holds_job w q'" by auto
  then have "tracked_by i ip r ?sp'"
    using i w \<open>q_ip q' = ip\<close> \<open>q_id q' = j_id r\<close>
    by (auto simp: tracked_by_def set_worker_def finish_record_def)
  then show "\<exists>i. tracked_by i ip r ?sp'" ..
qed

lemma tracked_unrecorded:
  assumes t: "tracked sp" and ok: "svc_ok sp" and i: "sv_phase sp i = Working"
    and cover: "\<And>q'. (q' \<in> set (sp_queue sp i) \<or> holds_job (sp_worker sp i) q') \<Longrightarrow>
      \<not> wanted q' sp \<or> (q' \<in> set qs \<or> holds_job w q')"
    and w: "\<And>e. w \<noteq> Exiting e"
  shows "tracked (set_worker i w (sp\<lparr>sp_queue := (sp_queue sp)(i := qs)\<rparr>))" (is "tracked ?sp'")
  unfolding tracked_def
proof (intro allI impI)
  fix ip r
  assume "sp_jobs ?sp' ip = Some r \<and> is_running r"
  then have j: "sp_jobs sp ip = Some r" "is_running r" by (simp_all add: set_worker_def)
  obtain i' where i': "tracked_by i' ip r sp" using tracked_D [OF t j] by blast
  then have "i' = i" using working_unique [OF ok i, of i'] by (simp add: tracked_by_def)
  with i' obtain q' where q': "q_ip q' = ip" "q_id q' = j_id r"
    "q' \<in> set (sp_queue sp i) \<or> holds_job (sp_worker sp i) q'" by (auto simp: tracked_by_def)
  then have "wanted q' sp" using j by (simp add: wanted_def)
  with cover [OF q'(3)] have "q' \<in> set qs \<or> holds_job w q'" by simp
  then have "tracked_by i ip r ?sp'"
    using i w q'(1,2) by (auto simp: tracked_by_def set_worker_def)
  then show "\<exists>i. tracked_by i ip r ?sp'" ..
qed

text \<open>A goroutine that is past its jobs leaves no record running.\<close>

lemma tracked_exiting:
  assumes t: "tracked sp" and ok: "svc_ok sp" and i: "sv_phase sp i = Working \<or> sv_phase sp i = Reported"
    and w: "sp_worker sp i = Exiting e \<or> (sp_worker sp i = Draining \<and> sp_queue sp i = [])"
  shows "sp_jobs sp ip = Some r \<Longrightarrow> \<not> is_running r"
proof
  assume r: "sp_jobs sp ip = Some r" "is_running r"
  obtain j where j: "tracked_by j ip r sp" using tracked_D [OF t r] by blast
  then have "i = j" using working_unique [OF ok, of j i] i by (simp add: tracked_by_def)
  then show False using j w by (auto simp: tracked_by_def)
qed

lemma fail_running_all: "sp_jobs (fail_running e sp) ip = Some r \<Longrightarrow> \<not> is_running r"
  by (cases "sp_jobs sp ip") (auto simp: fail_running_def is_running_def split: if_splits)

lemma queue_unchanged: "sp\<lparr>sp_queue := (sp_queue sp)(i := sp_queue sp i)\<rparr> = sp"
  by simp

lemma tracked_step:
  "sp_step False sp sp' \<Longrightarrow> tracked sp \<Longrightarrow> svc_ok sp \<Longrightarrow> well_placed sp \<Longrightarrow> tracked sp'"
proof (induction rule: sp_step.induct)
  case (PStart sp now)
  then show ?case by (simp add: tracked_start)
next
  case (PStopBegin sp)
  show ?case by (rule tracked_mono [OF PStopBegin(2)]; cases "sv_current sp")
      (simp_all add: stop_begin_def tracked_by_def)
next
  case (PStopDone sp i)
  show ?case by (rule tracked_mono [OF PStopDone(3)]) (simp_all add: stop_end_def tracked_by_def)
next
  case (PStopTimeout sp i e)
  show ?case by (rule tracked_mono [OF PStopTimeout(2)]) (simp_all add: stop_end_def tracked_by_def)
next
  case (PRestarted sp now)
  show ?case by (rule tracked_mono [OF PRestarted(1)]) (simp_all add: service_restarted_def tracked_by_def)
next
  case (PQueue sp ip)
  then show ?case by (simp add: tracked_queue)
next
  case (PCancel sp ip)
  show ?case
  proof (cases "sp_jobs sp ip")
    case None
    then show ?thesis using PCancel by (simp add: cancel_manual_def)
  next
    case (Some r)
    show ?thesis
      by (rule tracked_mono [OF PCancel(1)]; cases "j_cancel r")
        (auto simp: cancel_manual_def end_ctx_def tracked_by_def Some is_running_def split: if_splits)
  qed
next
  case (PTake sp i)
  have "set (sp_queue sp i) = insert (hd (sp_queue sp i)) (set (tl (sp_queue sp i)))"
    using PTake(3) by (metis list.set_sel(1) list.simps(15) list.collapse)
  then show ?case unfolding take_job_def using PTake by (intro tracked_unrecorded) auto
next
  case (PBegin sp i q)
  then have "tracked (set_worker i (if wanted q sp then Testing q else Selecting)
      (sp\<lparr>sp_queue := (sp_queue sp)(i := sp_queue sp i)\<rparr>))"
    by (intro tracked_unrecorded) auto
  then show ?case by (simp only: begin_job_def queue_unchanged)
next
  case (PTested sp i q tested)
  then have "tracked (set_worker i (Storing q (job_outcome (ctx_ended i q sp) tested))
      (sp\<lparr>sp_queue := (sp_queue sp)(i := sp_queue sp i)\<rparr>))"
    by (intro tracked_unrecorded) auto
  then show ?case by (simp only: tested_job_def queue_unchanged)
next
  case (PPanic sp i q e)
  show ?case
    by (rule tracked_none) (auto simp: recover_panic_def set_worker_def dest: fail_running_all)
next
  case (PStore sp i q res)
  then have "r_state res \<noteq> ''running''" using result_states(5) by (auto simp: well_placed_def)
  with PStore have "tracked (set_worker i Selecting (finish_record q res
      (sp\<lparr>sp_queue := (sp_queue sp)(i := sp_queue sp i)\<rparr>)))"
    by (intro tracked_store) auto
  then show ?case by (simp only: store_job_def queue_unchanged)
next
  case (PDone sp i)
  then have "tracked (set_worker i Draining (sp\<lparr>sp_queue := (sp_queue sp)(i := sp_queue sp i)\<rparr>))"
    by (intro tracked_unrecorded) auto
  then show ?case by (simp only: queue_unchanged)
next
  case (PDrain sp i)
  show ?case
  proof (cases "sp_queue sp i")
    case Nil
    then have "sp_jobs sp ip = Some r \<Longrightarrow> \<not> is_running r" for ip r
      using tracked_exiting [of sp i] PDrain by blast
    then show ?thesis using Nil by (intro tracked_none) (simp add: fail_pending_def set_worker_def)
  next
    case (Cons q qs)
    have "tracked (set_worker i Draining (finish_record q (failed_result ''context canceled'')
        (sp\<lparr>sp_queue := (sp_queue sp)(i := qs)\<rparr>)))"
      using PDrain Cons by (intro tracked_store) auto
    moreover have "set_worker i Draining (finish_record q (failed_result ''context canceled'')
        (sp\<lparr>sp_queue := (sp_queue sp)(i := qs)\<rparr>)) = fail_pending i ''context canceled'' sp"
      using PDrain(2) Cons by (simp add: fail_pending_def set_worker_def finish_record_def fun_upd_idem)
    ultimately show ?thesis by simp
  qed
next
  case (PReport sp i err now)
  then have "sp_jobs sp ip = Some r \<Longrightarrow> \<not> is_running r" for ip r
    using tracked_exiting [of sp i err] by blast
  then show ?case by (intro tracked_none) (simp add: run_report_def)
next
  case (PClose sp i)
  then obtain e where "sp_worker sp i = Exiting e" unfolding well_placed_def by blast
  then have "sp_jobs sp ip = Some r \<Longrightarrow> \<not> is_running r" for ip r
    using tracked_exiting [of sp i e] PClose by blast
  then show ?case by (intro tracked_none) (simp add: run_close_def)
qed

lemma sp_reach_ok:
  "(sp_step late)\<^sup>*\<^sup>* (new_speedtest now) sp \<Longrightarrow> svc_ok sp \<and> well_placed sp"
proof (induction rule: rtranclp_induct)
  case base
  show ?case using new_speedtest_ok
    by (simp add: well_placed_def new_speedtest_def service.defs speedtest.defs new_service_def)
next
  case (step sp sp')
  then show ?case using speedtest.step_ok [OF sp_step_svc [OF step(2)]] well_placed_step [OF step(2)] by blast
qed

lemma sp_reach_tracked: "(sp_step False)\<^sup>*\<^sup>* (new_speedtest now) sp \<Longrightarrow> tracked sp"
proof (induction rule: rtranclp_induct)
  case base
  show ?case by (simp add: tracked_def new_speedtest_def service.defs speedtest.defs)
next
  case (step sp sp')
  then show ?case using sp_reach_ok [OF step(1)] tracked_step [OF step(2)] by blast
qed


definition sample_speedtest :: speedtest where
  "sample_speedtest = snd (queue_manual ''1.2.3.4'' (snd (speedtest_start 1 (new_speedtest 0))))"

lemmas sample_speedtest_defs = speedtest_start_def clear_closed_def launch_def new_speedtest_def
  service.defs speedtest.defs new_service_def queue_manual_def Let_def queue_capacity_def exiting_def


text \<open>
  The moment excluded above exists: after a stop that gave up waiting, a test requested while
  the goroutine ends stays running for ever; a restarted service refuses the node.
\<close>

definition one_run :: "status \<Rightarrow> nat option \<Rightarrow> phase \<Rightarrow> nat set \<Rightarrow> (string \<rightharpoonup> job_record) \<Rightarrow> u64 \<Rightarrow> nat \<Rightarrow>
    queued_job list \<Rightarrow> worker \<Rightarrow> speedtest" where
  "one_run st waiting p cancelled jobs n c qs w =
     \<lparr>sv_status = st, sv_current = Some 0, sv_waiting = waiting, sv_phase = (\<lambda>_. Unstarted)(0 := p),
      sv_cancelled = cancelled, sv_next = 1, sp_jobs = jobs, sp_next_id = n, sp_next_ctx = c, sp_ended = {},
      sp_queue = (\<lambda>_. [])(0 := qs), sp_worker = (\<lambda>_. Selecting)(0 := w)\<rparr>"

lemma late_test_is_lost:
  "\<exists>sp. (sp_step True)\<^sup>*\<^sup>* (new_speedtest 0) sp \<and> (\<forall>i. sv_phase sp i \<noteq> Working) \<and>
     job_result ''1.2.3.4'' sp = Some running_result \<and>
     fst (queue_manual ''1.2.3.4'' (snd (speedtest_start now sp))) = Inl ''speed test is already running''"
proof -
  define st where "st = state_started 1 (new_state ''speedtest'' 0)"
  define jobs where "jobs = [''1.2.3.4'' \<mapsto> \<lparr>j_id = 1, j_result = running_result, j_cancel = Some 0\<rparr>]"
  define q where "q = \<lparr>q_ip = ''1.2.3.4'', q_id = 1, q_ctx = 0\<rparr>"
  note r = one_run_def stop_begin_def stop_end_def set_worker_def
  have "sp_step True (new_speedtest 0) (one_run st None Working {} Map.empty 0 0 [] Selecting)"
    using PStart [of "new_speedtest 0" True 1]
    by (simp add: one_run_def st_def sample_speedtest_defs)
  moreover have "sp_step True (one_run st None Working {} Map.empty 0 0 [] Selecting)
      (one_run st (Some 0) Working {0} Map.empty 0 0 [] Selecting)"
    using PStopBegin [of "one_run st None Working {} Map.empty 0 0 [] Selecting" True] by (simp add: r)
  moreover have "sp_step True (one_run st (Some 0) Working {0} Map.empty 0 0 [] Selecting)
      (one_run st None Working {0} Map.empty 0 0 [] Selecting)"
    using PStopTimeout [of "one_run st (Some 0) Working {0} Map.empty 0 0 [] Selecting" 0 True "''late''"]
    by (simp add: r)
  moreover have "sp_step True (one_run st None Working {0} Map.empty 0 0 [] Selecting)
      (one_run st None Working {0} Map.empty 0 0 [] Draining)"
    using PDone [of "one_run st None Working {0} Map.empty 0 0 [] Selecting" 0 True] by (simp add: r)
  moreover have "sp_step True (one_run st None Working {0} Map.empty 0 0 [] Draining)
      (one_run st None Working {0} Map.empty 0 0 [] (Exiting None))"
    using PDrain [of "one_run st None Working {0} Map.empty 0 0 [] Draining" 0 True]
    by (simp add: r fail_pending_def)
  moreover have "sp_step True (one_run st None Working {0} Map.empty 0 0 [] (Exiting None))
      (one_run st None Working {0} jobs 1 1 [q] (Exiting None))"
    using PQueue [of "one_run st None Working {0} Map.empty 0 0 [] (Exiting None)" True "''1.2.3.4''"]
    by (simp add: r queue_manual_def queue_capacity_def jobs_def q_def)
  moreover have "sp_step True (one_run st None Working {0} jobs 1 1 [q] (Exiting None))
      (one_run (state_stopped 2 None st) None Reported {0} jobs 1 1 [q] (Exiting None))"
    using PReport [of "one_run st None Working {0} jobs 1 1 [q] (Exiting None)" 0 None True 2]
    by (simp add: r run_report_def)
  moreover have "sp_step True (one_run (state_stopped 2 None st) None Reported {0} jobs 1 1 [q] (Exiting None))
      (one_run (state_stopped 2 None st) None Closed {0} jobs 1 1 [q] (Exiting None))" (is "sp_step True _ ?last")
    using PClose [of "one_run (state_stopped 2 None st) None Reported {0} jobs 1 1 [q] (Exiting None)" 0 True]
    by (simp add: r run_close_def)
  ultimately have "(sp_step True)\<^sup>*\<^sup>* (new_speedtest 0) ?last"
    by (meson converse_rtranclp_into_rtranclp rtranclp.rtrancl_refl)
  moreover have "\<forall>i. sv_phase ?last i \<noteq> Working" by (simp add: one_run_def)
  moreover have "job_result ''1.2.3.4'' ?last = Some running_result"
    by (simp add: one_run_def job_result_def jobs_def)
  moreover have "fst (queue_manual ''1.2.3.4'' (snd (speedtest_start now ?last))) =
      Inl ''speed test is already running''"
    by (simp add: one_run_def speedtest_start_def clear_closed_def launch_def queue_manual_def jobs_def is_running_def)
  ultimately show ?thesis by blast
qed

section \<open>What a caller sees of a test\<close>

text \<open>The specification: the states a node's test moves through.\<close>

definition job_state :: "string \<Rightarrow> speedtest \<Rightarrow> string option" where
  "job_state ip sp = map_option r_state (job_result ip sp)"

definition job_move :: "string option \<Rightarrow> string option \<Rightarrow> bool" where
  "job_move a b \<longleftrightarrow> b = a \<or>
     (if a = Some ''running'' then b \<in> {Some ''complete'', Some ''failed'', Some ''canceled''}
      else b = Some ''running'' \<or> b = None)"

lemma job_move_refl [simp]: "job_move a a"
  by (simp add: job_move_def)

lemma job_state_jobs: "sp_jobs sp' ip = sp_jobs sp ip \<Longrightarrow> job_state ip sp' = job_state ip sp"
  by (simp add: job_state_def job_result_def)

lemma set_worker_jobs [simp]: "sp_jobs (set_worker i w sp) = sp_jobs sp"
  by (simp add: set_worker_def)

lemma job_state_worker [simp]: "job_state ip (set_worker i w sp) = job_state ip sp"
  by (rule job_state_jobs) simp

lemma job_state_dequeue [simp]: "job_state ip (sp\<lparr>sp_queue := qs\<rparr>) = job_state ip sp"
  by (rule job_state_jobs) simp

lemma speedtest_start_jobs [simp]: "sp_jobs (snd (speedtest_start now sp)) = sp_jobs sp"
  by (auto simp: speedtest_start_def clear_closed_def launch_def Let_def split: option.split)

lemma move_finish:
  assumes res: "final_result res"
  shows "job_move (job_state ip sp) (job_state ip (finish_record q res sp))"
proof (cases "wanted q sp \<and> ip = q_ip q")
  case True
  then obtain r where r: "sp_jobs sp ip = Some r" "r_state (j_result r) = ''running''"
    by (cases "sp_jobs sp (q_ip q)") (auto simp: wanted_def is_running_def)
  have "job_state ip (finish_record q res sp) = Some (r_state res)"
    using True r by (simp add: job_state_def job_result_def finish_record_def)
  moreover have "job_state ip sp = Some ''running''" using r by (simp add: job_state_def job_result_def)
  ultimately show ?thesis using res by (simp add: job_move_def final_result_def)
next
  case False
  then have "job_state ip (finish_record q res sp) = job_state ip sp"
    by (intro job_state_jobs) (simp add: finish_record_def)
  then show ?thesis by simp
qed

lemma move_fail_running: "job_move (job_state ip sp) (job_state ip (fail_running e sp))"
  by (cases "sp_jobs sp ip") (auto simp: job_move_def job_state_def job_result_def fail_running_def is_running_def failed_result_def)

lemma move_cancel: "job_move (job_state ip sp) (job_state ip (snd (cancel_manual ip' sp)))"
proof (cases "sp_jobs sp ip'")
  case (Some r)
  then show ?thesis
    by (cases "j_cancel r"; cases "ip = ip'")
      (auto simp: job_move_def job_state_def job_result_def cancel_manual_def end_ctx_def is_running_def
        canceled_result_def)
qed (simp add: cancel_manual_def)

lemma move_queue: "job_move (job_state ip sp) (job_state ip (snd (queue_manual ip' sp)))"
  by (cases "sv_current sp"; cases "sp_jobs sp ip'"; cases "ip = ip'")
    (auto simp: job_move_def job_state_def job_result_def queue_manual_def Let_def is_running_def)

lemma move_same: "sp_jobs sp' = sp_jobs sp \<Longrightarrow> job_move (job_state ip sp) (job_state ip sp')"
  by (simp add: job_state_def job_result_def)

lemma sp_step_move:
  "sp_step late sp sp' \<Longrightarrow> well_placed sp \<Longrightarrow> job_move (job_state ip sp) (job_state ip sp')"
proof (induction rule: sp_step.induct)
  case (PStart sp now)
  show ?case by (rule move_same) simp
next
  case (PStopBegin sp)
  show ?case by (rule move_same) (simp add: stop_begin_def split: option.split)
next
  case (PStopDone sp i)
  show ?case by (rule move_same) (simp add: stop_end_def)
next
  case (PStopTimeout sp i e)
  show ?case by (rule move_same) (simp add: stop_end_def)
next
  case (PRestarted sp now)
  show ?case by (rule move_same) (simp add: service_restarted_def)
next
  case (PStore sp i q res)
  then have "final_result res" by (simp add: well_placed_def)
  then show ?case by (simp add: store_job_def move_finish)
next
  case (PDrain sp i)
  show ?case
  proof (cases "sp_queue sp i")
    case (Cons q qs)
    then show ?thesis
      using move_finish [of "failed_result ''context canceled''" ip "sp\<lparr>sp_queue := (sp_queue sp)(i := qs)\<rparr>" q]
      by (simp add: fail_pending_def)
  qed (simp add: fail_pending_def)
next
  case (PReport sp i err now)
  show ?case by (rule move_same) (simp add: run_report_def)
next
  case (PClose sp i)
  show ?case by (rule move_same) (simp add: run_close_def)
next
  case (PTake sp i)
  then show ?case by (simp add: take_job_def)
next
  case (PBegin sp i q)
  then show ?case by (simp add: begin_job_def)
next
  case (PTested sp i q tested)
  then show ?case by (simp add: tested_job_def)
next
  case (PPanic sp i q e)
  then show ?case by (simp add: recover_panic_def move_fail_running)
qed (simp_all add: move_queue move_cancel)

text \<open>
  C13: seen from the API, each node's test follows a small state machine: a running test ends
  complete, failed or cancelled, exactly once; only a test that is not running can be started,
  or dropped when the queue is full. The queue never holds more than 128 jobs.
\<close>

theorem speedtest_refines:
  assumes "(sp_step True)\<^sup>*\<^sup>* (new_speedtest now) sp" and "sp_step True sp sp'"
  shows "job_move (job_state ip sp) (job_state ip sp') \<and> length (sp_queue sp' i) \<le> 128"
proof -
  have wp: "svc_ok sp \<and> well_placed sp" by (rule sp_reach_ok [OF assms(1)])
  then have "well_placed sp'" using well_placed_step [OF assms(2)] by blast
  then have "length (sp_queue sp' i) \<le> 128" by (simp add: well_placed_def queue_capacity_def)
  then show ?thesis using sp_step_move [OF assms(2)] wp by blast
qed

lemma speedtest_refines_witness:
  "job_move (job_state ''1.2.3.4'' (snd (speedtest_start 1 (new_speedtest 0))))
     (job_state ''1.2.3.4'' sample_speedtest) \<and> length (sp_queue sample_speedtest 0) \<le> 128"
proof (rule speedtest_refines [of 0])
  have "sp_step True (new_speedtest 0) (snd (speedtest_start 1 (new_speedtest 0)))"
    by (rule PStart) (simp add: sample_speedtest_defs)
  then show "(sp_step True)\<^sup>*\<^sup>* (new_speedtest 0) (snd (speedtest_start 1 (new_speedtest 0)))" by blast
  show "sp_step True (snd (speedtest_start 1 (new_speedtest 0))) sample_speedtest"
    unfolding sample_speedtest_def by (rule PQueue) (simp_all add: sample_speedtest_defs)
qed

end
