(* ===== verification/GoDuration.thy ===== *)
theory GoDuration
  imports GoStrings
begin

text \<open>
  Go's \<open>time.ParseDuration\<close>: an optional sign and a sequence of decimal numbers with
  units, in nanoseconds, with the 64-bit overflow checks of the library and the rounding
  of the double-precision arithmetic it uses for fractions.
\<close>

section \<open>Double-precision arithmetic on positive numbers\<close>

text \<open>
  A positive double is a fraction. \<open>float64 n d\<close> is the double nearest to \<open>n / d\<close>, ties to
  even; the numbers that occur here are far from the subnormal and infinite ones.
\<close>

fun bit_len :: "nat \<Rightarrow> nat" where
  "bit_len n = (if n = 0 then 0 else Suc (bit_len (n div 2)))"

declare bit_len.simps [simp del]

definition round_half_even :: "nat \<Rightarrow> nat \<Rightarrow> nat" where
  "round_half_even n d =
     (let q = n div d; r = n mod d
      in if 2 * r < d \<or> (2 * r = d \<and> even q) then q else Suc q)"

definition scaled :: "nat \<Rightarrow> nat \<Rightarrow> int \<Rightarrow> nat \<times> nat" where
  "scaled n d e = (n * 2 ^ nat (- e), d * 2 ^ nat e)"

definition float64 :: "nat \<Rightarrow> nat \<Rightarrow> nat \<times> nat" where
  "float64 n d =
     (if n = 0 then (0, 1)
      else let e = int (bit_len n) - int (bit_len d) - 53;
               (p, q) = scaled n d e;
               e' = (if p div q \<ge> 2 ^ 53 then e + 1 else e);
               (p', q') = scaled n d e'
           in (round_half_even p' q' * 2 ^ nat e', 2 ^ nat (- e')))"

text \<open>\<open>uint64(float64(f) * (float64(unit) / scale))\<close>\<close>

definition fraction_of :: "nat \<Rightarrow> nat \<Rightarrow> nat \<Rightarrow> nat" where
  "fraction_of f unit scale =
     (let (a, b) = float64 f 1; (c, d) = float64 unit scale; (p, q) = float64 (a * c) (b * d)
      in p div q)"

section \<open>Parsing\<close>

definition two63 :: nat where "two63 = 9223372036854775808"
definition two64 :: nat where "two64 = 18446744073709551616"

fun leading_int :: "nat \<Rightarrow> string \<Rightarrow> (nat \<times> string) option" where
  "leading_int x [] = Some (x, [])"
| "leading_int x (c # cs) =
     (if \<not> is_digit c then Some (x, c # cs)
      else if x > two63 div 10 then None
      else if 10 * x + digit_value c > two63 then None
      else leading_int (10 * x + digit_value c) cs)"

fun leading_fraction :: "nat \<Rightarrow> nat \<Rightarrow> bool \<Rightarrow> string \<Rightarrow> nat \<times> nat \<times> string" where
  "leading_fraction x scale overflow [] = (x, scale, [])"
| "leading_fraction x scale overflow (c # cs) =
     (if \<not> is_digit c then (x, scale, c # cs)
      else if overflow \<or> x > (two63 - 1) div 10 \<or> 10 * x + digit_value c > two63
      then leading_fraction x scale True cs
      else leading_fraction (10 * x + digit_value c) (10 * scale) False cs)"

definition unit_map :: "(string \<times> nat) list" where
  "unit_map = [(''ns'', 1), (''us'', 1000), ([CHR 0xC2, CHR 0xB5, CHR ''s''], 1000),
     ([CHR 0xCE, CHR 0xBC, CHR ''s''], 1000), (''ms'', 1000000), (''s'', 1000000000),
     (''m'', 60000000000), (''h'', 3600000000000)]"

text \<open>The \<open>quote\<close> of package \<open>time\<close>.\<close>

definition time_quote :: "string \<Rightarrow> string" where
  "time_quote s = [CHR 0x22] @
     concat (map (\<lambda>c. let n = of_char c :: nat in
       if n < 32 \<or> 128 \<le> n then [CHR 0x5C, CHR ''x'', hex_digit (n div 16), hex_digit (n mod 16)]
       else if n = 34 \<or> n = 92 then [CHR 0x5C, c] else [c]) s) @ [CHR 0x22]"

definition invalid_duration :: "string \<Rightarrow> string" where
  "invalid_duration orig = ''time: invalid duration '' @ time_quote orig"

definition unit_char :: "char \<Rightarrow> bool" where
  "unit_char c = (c \<noteq> CHR ''.'' \<and> \<not> is_digit c)"

text \<open>One number with its unit, as nanoseconds, and what follows it.\<close>

definition duration_part :: "string \<Rightarrow> string \<Rightarrow> (nat \<times> string) result" where
  "duration_part orig s =
     (if \<not> (hd s = CHR ''.'' \<or> is_digit (hd s)) then Inl (invalid_duration orig)
      else case leading_int 0 s of None \<Rightarrow> Inl (invalid_duration orig)
      | Some (v, s1) \<Rightarrow>
          let pre = (length s1 \<noteq> length s);
              dot = (s1 \<noteq> [] \<and> hd s1 = CHR ''.'');
              (f, scale, s2) = (if dot then leading_fraction 0 1 False (tl s1) else (0, 1, s1));
              post = (dot \<and> length s2 \<noteq> length (tl s1));
              u = takeWhile unit_char s2;
              s3 = dropWhile unit_char s2
          in if \<not> pre \<and> \<not> post then Inl (invalid_duration orig)
             else if u = [] then Inl (''time: missing unit in duration '' @ time_quote orig)
             else case map_of unit_map u of
               None \<Rightarrow> Inl (''time: unknown unit '' @ time_quote u @ '' in duration '' @ time_quote orig)
             | Some unit \<Rightarrow>
                 if v > two63 div unit then Inl (invalid_duration orig)
                 else let v' = v * unit + (if f > 0 then fraction_of f unit scale else 0)
                      in if v' > two63 then Inl (invalid_duration orig) else Inr (v', s3))"

lemma leading_int_length: "leading_int x s = Some (v, r) \<Longrightarrow> length r \<le> length s"
  by (induction x s rule: leading_int.induct) (auto split: if_splits)

lemma leading_fraction_length: "leading_fraction x sc ov s = (f, sc', r) \<Longrightarrow> length r \<le> length s"
  by (induction x sc ov s rule: leading_fraction.induct) (auto split: if_splits)

lemma dropWhile_shorter: "takeWhile P s \<noteq> [] \<Longrightarrow> length (dropWhile P s) < length s"
  by (cases s) (auto simp: le_imp_less_Suc length_dropWhile_le split: if_splits)

lemma duration_part_shorter:
  assumes "duration_part orig s = Inr (v, r)"
  shows "length r < length s"
proof -
  obtain x s1 where i: "leading_int 0 s = Some (x, s1)"
    using assms by (cases "leading_int 0 s") (auto simp: duration_part_def split: if_splits)
  obtain f sc s2 where f: "(if s1 \<noteq> [] \<and> hd s1 = CHR ''.'' then leading_fraction 0 1 False (tl s1) else (0, 1, s1)) = (f, sc, s2)"
    by (metis prod_cases3)
  have "length s2 \<le> length s1"
    using leading_fraction_length [of 0 1 False "tl s1" f sc s2] f by (auto split: if_splits)
  moreover have "takeWhile unit_char s2 \<noteq> [] \<and> r = dropWhile unit_char s2"
    using assms i f by (auto simp: duration_part_def Let_def split: if_splits option.splits)
  ultimately show ?thesis
    using dropWhile_shorter [of unit_char s2] leading_int_length [OF i] by auto
qed

text \<open>The accumulator is a 64-bit number, and the addition wraps.\<close>

function duration_loop :: "string \<Rightarrow> nat \<Rightarrow> string \<Rightarrow> nat result" where
  "duration_loop orig d s =
     (if s = [] then Inr d
      else case duration_part orig s of Inl e \<Rightarrow> Inl e
      | Inr (v, r) \<Rightarrow>
          if (d + v) mod two64 > two63 then Inl (invalid_duration orig)
          else duration_loop orig ((d + v) mod two64) r)"
  by pat_completeness auto
termination
  by (relation "measure (\<lambda>(_, _, s). length s)") (auto dest: duration_part_shorter)

declare duration_loop.simps [simp del]

definition parse_duration :: "string \<Rightarrow> int result" where
  "parse_duration orig =
     (let neg = (orig \<noteq> [] \<and> hd orig = CHR ''-'');
          s = (if orig \<noteq> [] \<and> (neg \<or> hd orig = CHR ''+'') then tl orig else orig)
      in if s = ''0'' then Inr 0
         else if s = [] then Inl (invalid_duration orig)
         else bind_result (duration_loop orig 0 s) (\<lambda>d.
           if neg then Inr (- int d)
           else if d > two63 - 1 then Inl (invalid_duration orig)
           else Inr (int d)))"

section \<open>Range and reading back\<close>

lemma duration_loop_bound: "d \<le> two63 \<Longrightarrow> duration_loop orig d s = Inr r \<Longrightarrow> r \<le> two63"
proof (induction orig d s rule: duration_loop.induct)
  case (1 orig d s)
  show ?case
  proof (cases "s = [] \<or> (\<exists>e. duration_part orig s = Inl e)")
    case True
    then show ?thesis using "1.prems" by (auto simp: duration_loop.simps [of orig d s] split: if_splits)
  next
    case False
    then obtain v q where "duration_part orig s = Inr (v, q)" by (cases "duration_part orig s") auto
    then show ?thesis using "1.prems" "1.IH" False
      by (auto simp: duration_loop.simps [of orig d s] split: if_splits)
  qed
qed

lemma parse_duration_range:
  assumes "parse_duration s = Inr d"
  shows "min_int64 \<le> d" and "d \<le> max_int64"
proof -
  have "min_int64 \<le> d \<and> d \<le> max_int64"
    using assms duration_loop_bound [of 0]
    by (fastforce simp: parse_duration_def Let_def bind_result_Inr_iff min_int64_def max_int64_def two63_def
        split: if_splits)
  then show "min_int64 \<le> d" "d \<le> max_int64" by simp_all
qed

lemma leading_int_digits:
  "\<forall>c \<in> set s. is_digit c \<Longrightarrow> dec_value x s \<le> two63 \<Longrightarrow> (r \<noteq> [] \<Longrightarrow> \<not> is_digit (hd r)) \<Longrightarrow>
   leading_int x (s @ r) = Some (dec_value x s, r)"
proof (induction s arbitrary: x)
  case Nil
  then show ?case by (cases r) auto
next
  case (Cons c s)
  have "10 * x + digit_value c \<le> two63"
    using Cons.prems(2) dec_value_ge [of "10 * x + digit_value c" s] by simp
  moreover have "\<not> x > two63 div 10" using calculation by (simp add: two63_def)
  ultimately show ?case using Cons by simp
qed

text \<open>A whole number with a unit reads as that many units.\<close>

lemma parse_duration_whole:
  assumes u: "map_of unit_map u = Some unit" and fits: "n * unit < two63"
  shows "parse_duration (show_nat n @ u) = Inr (int (n * unit))"
proof -
  have ue: "u \<noteq> []" "\<forall>c \<in> set u. unit_char c" "0 < unit"
    using u by (auto simp: unit_map_def unit_char_def is_digit_def split: if_splits)
  have hd: "is_digit (hd (show_nat n))" using show_nat_digits [of "hd (show_nat n)" n] by simp
  have dv: "n \<le> n * unit" using ue(3) by simp
  have li: "leading_int 0 (show_nat n @ u) = Some (n, u)"
    using leading_int_digits [of "show_nat n" 0 u] show_nat_digits [of _ n] dv fits ue
    by (auto simp: dec_value_show_nat unit_char_def)
  have tw: "takeWhile unit_char u = u" "dropWhile unit_char u = []"
    using ue(2) by simp_all
  have nd: "hd u \<noteq> CHR ''.''" using ue(1,2) by (cases u) (auto simp: unit_char_def)
  have le: "\<not> n > two63 div unit"
    using fits ue(3) by (simp add: less_eq_div_iff_mult_less_eq not_less)
  have part: "duration_part orig (show_nat n @ u) = Inr (n * unit, [])" for orig
    unfolding duration_part_def using hd li nd le fits u ue(1) by (simp add: Let_def tw del: takeWhile_eq_all_conv dropWhile_eq_Nil_conv)
  have "n * unit mod two64 = n * unit" using fits by (simp add: two63_def two64_def)
  then have loop: "duration_loop orig 0 (show_nat n @ u) = Inr (n * unit)" for orig
    using fits by (simp add: duration_loop.simps [of orig 0] duration_loop.simps [of orig "n * unit"] part)
  have sgn: "hd (show_nat n @ u) \<noteq> CHR ''-''" "hd (show_nat n @ u) \<noteq> CHR ''+''"
    using hd by (auto simp: is_digit_def)
  have "show_nat n @ u \<noteq> ''0''"
    using ue(1) by (cases "show_nat n") (auto simp: append_eq_Cons_conv)
  then show ?thesis
    using loop sgn fits by (simp add: parse_duration_def Let_def two63_def)
qed

end
