(* ===== verification/GoUrl.thy ===== *)
theory GoUrl
  imports GoNet
begin

text \<open>
  Go's \<open>url.ParseRequestURI\<close> (\<open>net/url\<close> of Go 1.26), as far as the configuration uses
  it: whether the text parses, its scheme and its host. Errors are not told apart.
  The library's exception for the scheme \<open>postgres\<close> is left out: only HTTP URLs are
  accepted by the caller.
\<close>

section \<open>Escapes\<close>

datatype escape_mode = EncodePath | EncodeUser | EncodeHost | EncodeZone

definition is_alnum :: "char \<Rightarrow> bool" where
  "is_alnum c = (is_digit c \<or> (let n = of_char (lower_char c) :: nat in 97 \<le> n \<and> n \<le> 122))"

definition should_escape_host :: "char \<Rightarrow> bool" where
  "should_escape_host c = (\<not> is_alnum c \<and>
     c \<notin> set (CHR 0x27 # CHR 0x22 # ''!$&()*+,;=:[]<>-_.~''))"

definition escaped_char :: "escape_mode \<Rightarrow> char \<Rightarrow> char \<Rightarrow> char option" where
  "escaped_char mode a b =
     (case (hex_value a, hex_value b) of
        (Some h, Some l) \<Rightarrow>
          let v = char_of (16 * h + l) :: char
          in if mode = EncodeHost \<and> h < 8 \<and> [a, b] \<noteq> ''25'' then None
             else if mode = EncodeZone \<and> [a, b] \<noteq> ''25'' \<and> v \<noteq> CHR '' '' \<and> should_escape_host v then None
             else Some v
      | _ \<Rightarrow> None)"

fun unescape :: "escape_mode \<Rightarrow> string \<Rightarrow> string option" where
  "unescape mode [] = Some []"
| "unescape mode (c # cs) =
     (if c = CHR ''%'' then
        (case cs of a # b # ds \<Rightarrow>
           (case escaped_char mode a b of None \<Rightarrow> None
            | Some v \<Rightarrow> map_option (Cons v) (unescape mode ds))
         | _ \<Rightarrow> None)
      else if (mode = EncodeHost \<or> mode = EncodeZone) \<and> of_char c < (128 :: nat) \<and> should_escape_host c
      then None
      else map_option (Cons c) (unescape mode cs))"

section \<open>Authority\<close>

definition valid_optional_port :: "string \<Rightarrow> bool" where
  "valid_optional_port p = (p = [] \<or> (hd p = CHR '':'' \<and> list_all is_digit (tl p)))"

definition valid_userinfo :: "string \<Rightarrow> bool" where
  "valid_userinfo s = list_all (\<lambda>c. is_alnum c \<or> c \<in> set (CHR 0x27 # ''-._:~!$&()*+,;=%@'')) s"

text \<open>\<open>netip.ParseAddr\<close> accepts the text, and not as an IPv4 address.\<close>

definition ipv6_literal :: "string \<Rightarrow> bool" where
  "ipv6_literal s =
     (first_mark s = Some CHR '':'' \<and>
      (case char_index CHR ''%'' s of
         None \<Rightarrow> parse_v6 s \<noteq> None
       | Some i \<Rightarrow> Suc i < length s \<and> parse_v6 (take i s) \<noteq> None))"

definition parse_bracket_host :: "string \<Rightarrow> string option" where
  "parse_bracket_host host =
     Option.bind (last_char_index CHR '']'' host) (\<lambda>i.
       let colon_port = drop (Suc i) host; hostname = take (i - 1) (drop 1 host)
       in if \<not> valid_optional_port colon_port then None
          else Option.bind (unescape EncodeHost colon_port) (\<lambda>port.
            Option.bind
              (case index_of ''%25'' hostname of
                 None \<Rightarrow> unescape EncodeHost hostname
               | Some z \<Rightarrow> Option.bind (unescape EncodeHost (take z hostname)) (\<lambda>h.
                   map_option (\<lambda>zone. h @ zone) (unescape EncodeZone (drop z hostname))))
              (\<lambda>name. if ipv6_literal name then Some (''['' @ name @ '']'' @ port) else None)))"

definition parse_host :: "string \<Rightarrow> string option" where
  "parse_host host =
     (case last_char_index CHR ''['' host of
        Some 0 \<Rightarrow> parse_bracket_host host
      | Some (Suc _) \<Rightarrow> None
      | None \<Rightarrow>
          (case char_index CHR '':'' host of
             None \<Rightarrow> unescape EncodeHost host
           | Some i \<Rightarrow> if valid_optional_port (drop i host) then unescape EncodeHost host else None))"

definition parse_authority :: "string \<Rightarrow> string option" where
  "parse_authority authority =
     (case last_char_index CHR ''@'' authority of
        None \<Rightarrow> parse_host authority
      | Some i \<Rightarrow>
          Option.bind (parse_host (drop (Suc i) authority)) (\<lambda>host.
            let user = take i authority
            in if valid_userinfo user \<and>
                 list_all (\<lambda>part. unescape EncodeUser part \<noteq> None)
                   (case char_index CHR '':'' user of None \<Rightarrow> [user]
                    | Some j \<Rightarrow> [take j user, drop (Suc j) user])
               then Some host else None))"

section \<open>The URL\<close>

fun get_scheme :: "string \<Rightarrow> string \<Rightarrow> string \<Rightarrow> (string \<times> string) option" where
  "get_scheme raw seen [] = Some ([], raw)"
| "get_scheme raw seen (c # cs) =
     (if is_alnum c \<and> \<not> is_digit c then get_scheme raw (seen @ [c]) cs
      else if is_digit c \<or> c \<in> set ''+-.'' then
        (if seen = [] then Some ([], raw) else get_scheme raw (seen @ [c]) cs)
      else if c = CHR '':'' then (if seen = [] then None else Some (seen, cs))
      else Some ([], raw))"

definition parse_request_uri :: "string \<Rightarrow> (string \<times> string) option" where
  "parse_request_uri raw =
     (if (\<exists>c \<in> set raw. of_char c < (32 :: nat) \<or> of_char c = (127 :: nat)) then None
      else if raw = [] then None
      else if raw = ''*'' then Some ([], [])
      else Option.bind (get_scheme raw [] raw) (\<lambda>(scheme0, rest0).
        let scheme = to_lower scheme0; rest = takeWhile (\<lambda>c. c \<noteq> CHR ''?'') rest0
        in if \<not> has_prefix ''/'' rest then (if scheme \<noteq> [] then Some (scheme, []) else None)
           else
             let (host, path) =
               (if scheme \<noteq> [] \<and> has_prefix ''//'' rest then
                  (parse_authority (takeWhile (\<lambda>c. c \<noteq> CHR ''/'') (drop 2 rest)),
                   dropWhile (\<lambda>c. c \<noteq> CHR ''/'') (drop 2 rest))
                else (Some [], rest))
             in Option.bind host (\<lambda>h.
               if unescape EncodePath path = None then None else Some (scheme, h))))"

definition http_scheme :: "string \<Rightarrow> bool" where
  "http_scheme s = (s = ''http'' \<or> s = ''https'')"


end
