(* ===== verification/ConfigValidate.thy ===== *)
theory ConfigValidate
  imports Config GoDuration GoUrl
begin

text \<open>
  The checks and the derived durations of a configuration,
  \<open>src/internal/config/config.go\<close>: \<open>Config.Validate\<close> as the list of its checks in the
  code's order, the first failing one giving the error.
\<close>

section \<open>Durations\<close>

definition minute :: int where "minute = 60000000000"

definition positive_duration :: "string \<Rightarrow> int result" where
  "positive_duration value =
     bind_result (parse_duration value)
       (\<lambda>d. if d \<le> 0 then Inl ''must be greater than zero'' else Inr d)"

definition idle_timeout_duration :: "socks5_config \<Rightarrow> int result" where
  "idle_timeout_duration s =
     (if s_idle_timeout s = [] then Inr (5 * minute) else positive_duration (s_idle_timeout s))"

definition half_close_timeout_duration :: "socks5_config \<Rightarrow> int result" where
  "half_close_timeout_duration s =
     (if s_half_close_timeout s = [] then Inr minute else positive_duration (s_half_close_timeout s))"

definition refresh_duration :: "config \<Rightarrow> int result" where
  "refresh_duration c = positive_duration (refresh_interval c)"

definition monitor_interval :: "config \<Rightarrow> int result" where
  "monitor_interval c = positive_duration (mon_interval (monitor c))"

definition monitor_timeout :: "config \<Rightarrow> int result" where
  "monitor_timeout c = positive_duration (mon_timeout (monitor c))"

definition speed_test_timeout_duration :: "config \<Rightarrow> int result" where
  "speed_test_timeout_duration c = positive_duration (speed_test_timeout c)"

definition connect_timeout_duration :: "config \<Rightarrow> int result" where
  "connect_timeout_duration c = positive_duration (connect_timeout c)"

section \<open>The checks\<close>

fun first_error :: "string option list \<Rightarrow> string option" where
  "first_error [] = None"
| "first_error (None # es) = first_error es"
| "first_error (Some e # es) = Some e"

definition fail_if :: "bool \<Rightarrow> string \<Rightarrow> string option" where
  "fail_if b e = (if b then Some e else None)"

definition wrap_error :: "string \<Rightarrow> 'a result \<Rightarrow> string option" where
  "wrap_error field r = (case r of Inl e \<Rightarrow> Some (field @ '': '' @ e) | Inr _ \<Rightarrow> None)"

definition validate_address :: "string \<Rightarrow> string \<Rightarrow> string option" where
  "validate_address field value = wrap_error field (split_host_port value)"

definition not_http_url :: "string \<Rightarrow> bool" where
  "not_http_url url =
     (case parse_request_uri url of None \<Rightarrow> True
      | Some (scheme, _) \<Rightarrow> scheme \<noteq> ''http'' \<and> scheme \<noteq> ''https'')"

text \<open>The loop over \<open>DNSServers\<close>; \<open>seen\<close> is the map \<open>seenDNS\<close>.\<close>

fun validate_dns :: "string list \<Rightarrow> string list \<Rightarrow> string option" where
  "validate_dns seen [] = None"
| "validate_dns seen (server # rest) =
     (case split_host_port server of
        Inl e \<Rightarrow> Some (''dnsServers contains invalid address '' @ go_quote server @ '': '' @ e)
      | Inr (host, port_text) \<Rightarrow>
          if (case parse_ip host of None \<Rightarrow> True | Some a \<Rightarrow> to4 a = None)
          then Some (''dnsServers entry '' @ go_quote server @ '' must use a literal IPv4 address'')
          else if (case atoi port_text of None \<Rightarrow> True | Some port \<Rightarrow> port < 1 \<or> port > 65535)
          then Some (''dnsServers entry '' @ go_quote server @ '' has an invalid port'')
          else if server \<in> set seen
          then Some (''dnsServers contains duplicate address '' @ go_quote server)
          else validate_dns (server # seen) rest)"

definition valid_protocols :: "string list" where
  "valid_protocols = [protocol_softether_tls, protocol_openvpn_tcp, protocol_openvpn_udp,
     protocol_sstp, protocol_l2tp]"

fun validate_protocols :: "string list \<Rightarrow> string list \<Rightarrow> string option" where
  "validate_protocols seen [] = None"
| "validate_protocols seen (p # ps) =
     (if p \<notin> set valid_protocols \<or> p \<in> set seen
      then Some (''invalid or duplicate protocol '' @ go_quote p)
      else validate_protocols (p # seen) ps)"

definition has_newline :: "string \<Rightarrow> bool" where
  "has_newline s = (CHR 0x0D \<in> set s \<or> CHR 0x0A \<in> set s)"

definition validate :: "config \<Rightarrow> string option" where
  "validate c = first_error
     [fail_if (not_http_url (source_url c)) ''sourceUrl must be an HTTP or HTTPS URL'',
      wrap_error ''refreshInterval'' (refresh_duration c),
      fail_if (selection_mode c \<noteq> ''speed'' \<and> selection_mode c \<noteq> ''ping'' \<and> selection_mode c \<noteq> ''score'')
        ''selectionMode must be speed, ping, or score'',
      validate_address ''socks5.listenAddress'' (s_listen_address (socks5 c)),
      fail_if ((s_username (socks5 c) = []) \<noteq> (s_password (socks5 c) = []))
        ''socks5 username and password must both be set or both be empty'',
      fail_if (length (s_username (socks5 c)) > 255 \<or> length (s_password (socks5 c)) > 255)
        ''socks5 username and password must not exceed 255 bytes'',
      wrap_error ''socks5.idleTimeout'' (idle_timeout_duration (socks5 c)),
      wrap_error ''socks5.halfCloseTimeout'' (half_close_timeout_duration (socks5 c)),
      validate_address ''web.listenAddress'' (web_listen_address (web c)),
      fail_if (web_username (web c) = [] \<or> web_password_hash (web c) = [] \<or> web_session_secret (web c) = [])
        ''web username, passwordHash, and sessionSecret are required'',
      fail_if (not_http_url (mon_url (monitor c))) ''monitor.url must be an HTTP or HTTPS URL'',
      wrap_error ''monitor.interval'' (monitor_interval c),
      wrap_error ''monitor.timeout'' (monitor_timeout c),
      wrap_error ''connectTimeout'' (connect_timeout_duration c),
      fail_if (trim_space (database_path c) = []) ''databasePath is required'',
      fail_if (dns_servers c = []) ''dnsServers must not be empty'',
      validate_dns [] (dns_servers c),
      fail_if (case parse_request_uri (speed_test_url c) of None \<Rightarrow> True
               | Some (scheme, host) \<Rightarrow> host = [] \<or> (scheme \<noteq> ''http'' \<and> scheme \<noteq> ''https''))
        ''speedTestUrl must be an HTTP or HTTPS URL'',
      wrap_error ''speedTestTimeout'' (speed_test_timeout_duration c),
      fail_if (protocol_priority c = []) ''protocolPriority must not be empty'',
      validate_protocols [] (protocol_priority c),
      fail_if (vpn_gate_username c = [] \<or> vpn_gate_password c = [] \<or> vpn_gate_pre_shared_key c = [])
        ''VPN Gate username, password, and pre-shared key are required'',
      fail_if (has_newline (vpn_gate_username c) \<or> has_newline (vpn_gate_password c))
        ''VPN Gate username and password must not contain newlines'']"

section \<open>What a valid configuration is\<close>

definition dns_endpoint :: "string \<Rightarrow> bool" where
  "dns_endpoint server \<longleftrightarrow>
     (\<exists>host port a n. split_host_port server = Inr (host, port) \<and> parse_ip host = Some a \<and> to4 a \<noteq> None \<and>
        atoi port = Some n \<and> 1 \<le> n \<and> n \<le> 65535)"

definition positive_text :: "string \<Rightarrow> bool" where
  "positive_text s \<longleftrightarrow> (\<exists>d. parse_duration s = Inr d \<and> 0 < d)"

definition http_url :: "string \<Rightarrow> bool" where
  "http_url s \<longleftrightarrow> (\<exists>scheme host. parse_request_uri s = Some (scheme, host) \<and> scheme \<in> {''http'', ''https''})"

definition host_port :: "string \<Rightarrow> bool" where
  "host_port s \<longleftrightarrow> (\<exists>host port. split_host_port s = Inr (host, port))"

definition valid_config :: "config \<Rightarrow> bool" where
  "valid_config c \<longleftrightarrow>
     http_url (source_url c) \<and> http_url (mon_url (monitor c)) \<and> http_url (speed_test_url c) \<and>
     snd (the (parse_request_uri (speed_test_url c))) \<noteq> [] \<and>
     positive_text (refresh_interval c) \<and> positive_text (mon_interval (monitor c)) \<and>
     positive_text (mon_timeout (monitor c)) \<and> positive_text (connect_timeout c) \<and>
     positive_text (speed_test_timeout c) \<and>
     (s_idle_timeout (socks5 c) = [] \<or> positive_text (s_idle_timeout (socks5 c))) \<and>
     (s_half_close_timeout (socks5 c) = [] \<or> positive_text (s_half_close_timeout (socks5 c))) \<and>
     selection_mode c \<in> {''speed'', ''ping'', ''score''} \<and>
     host_port (s_listen_address (socks5 c)) \<and> host_port (web_listen_address (web c)) \<and>
     (s_username (socks5 c) = [] \<longleftrightarrow> s_password (socks5 c) = []) \<and>
     length (s_username (socks5 c)) \<le> 255 \<and> length (s_password (socks5 c)) \<le> 255 \<and>
     web_username (web c) \<noteq> [] \<and> web_password_hash (web c) \<noteq> [] \<and> web_session_secret (web c) \<noteq> [] \<and>
     trim_space (database_path c) \<noteq> [] \<and>
     dns_servers c \<noteq> [] \<and> distinct (dns_servers c) \<and> (\<forall>s \<in> set (dns_servers c). dns_endpoint s) \<and>
     protocol_priority c \<noteq> [] \<and> distinct (protocol_priority c) \<and>
     set (protocol_priority c) \<subseteq> set valid_protocols \<and>
     vpn_gate_username c \<noteq> [] \<and> vpn_gate_password c \<noteq> [] \<and> vpn_gate_pre_shared_key c \<noteq> [] \<and>
     \<not> has_newline (vpn_gate_username c) \<and> \<not> has_newline (vpn_gate_password c)"

lemma first_error_None: "first_error es = None \<longleftrightarrow> (\<forall>e \<in> set es. e = None)"
  by (induction es rule: first_error.induct) auto

lemma fail_if_None [simp]: "fail_if b e = None \<longleftrightarrow> \<not> b"
  by (simp add: fail_if_def)

lemma wrap_error_None: "wrap_error f r = None \<longleftrightarrow> (\<exists>x. r = Inr x)"
  by (cases r) (simp_all add: wrap_error_def)

lemma positive_duration_ok: "(\<exists>d. positive_duration s = Inr d) \<longleftrightarrow> positive_text s"
  by (auto simp: positive_duration_def positive_text_def bind_result_Inr_iff not_le)

lemma validate_address_None: "validate_address f s = None \<longleftrightarrow> host_port s"
  by (auto simp: validate_address_def wrap_error_None host_port_def)

lemma not_http_url_iff: "not_http_url s \<longleftrightarrow> \<not> http_url s"
  by (auto simp: not_http_url_def http_url_def split: option.splits)

lemma validate_dns_Cons:
  "validate_dns seen (s # servers) = None \<longleftrightarrow>
   dns_endpoint s \<and> s \<notin> set seen \<and> validate_dns (s # seen) servers = None"
proof (cases "split_host_port s")
  case (Inr hp)
  obtain host port where hp: "split_host_port s = Inr (host, port)" using Inr by (cases hp) auto
  show ?thesis
    by (cases "parse_ip host"; cases "atoi port") (auto simp: hp dns_endpoint_def)
qed (simp add: dns_endpoint_def)

lemma validate_dns_None:
  "validate_dns seen servers = None \<longleftrightarrow>
   distinct servers \<and> set servers \<inter> set seen = {} \<and> (\<forall>s \<in> set servers. dns_endpoint s)"
  by (induction servers arbitrary: seen) (auto simp: validate_dns_Cons simp del: validate_dns.simps(2))

lemma validate_protocols_None:
  "validate_protocols seen ps = None \<longleftrightarrow>
   distinct ps \<and> set ps \<inter> set seen = {} \<and> set ps \<subseteq> set valid_protocols"
  by (induction ps arbitrary: seen) auto

lemma validate_iff: "validate c = None \<longleftrightarrow> valid_config c"
proof -
  have idle: "(\<exists>d. idle_timeout_duration s = Inr d) \<longleftrightarrow> s_idle_timeout s = [] \<or> positive_text (s_idle_timeout s)"
    "(\<exists>d. half_close_timeout_duration s = Inr d) \<longleftrightarrow>
     s_half_close_timeout s = [] \<or> positive_text (s_half_close_timeout s)" for s
    by (auto simp: idle_timeout_duration_def half_close_timeout_duration_def positive_duration_ok)
  have speed: "(case parse_request_uri u of None \<Rightarrow> True
      | Some (scheme, host) \<Rightarrow> host = [] \<or> (scheme \<noteq> ''http'' \<and> scheme \<noteq> ''https'')) \<longleftrightarrow>
      \<not> (http_url u \<and> snd (the (parse_request_uri u)) \<noteq> [])" for u
    by (auto simp: http_url_def split: option.splits)
  show ?thesis
    unfolding validate_def valid_config_def first_error_None
    by (simp add: wrap_error_None idle speed refresh_duration_def monitor_interval_def monitor_timeout_def
        speed_test_timeout_duration_def connect_timeout_duration_def positive_duration_ok
        validate_address_None not_http_url_iff validate_dns_None validate_protocols_None not_less)
      (rule iffI; (elim conjE)?; intro conjI; (assumption | simp))
qed

text \<open>
  C37: \<open>Validate\<close> accepts exactly the configurations the rest of the program can rely on:
  every duration parses and is positive, the URLs are HTTP URLs, the listen addresses split,
  the DNS servers are distinct literal IPv4 endpoints, the protocols distinct known ones,
  the SOCKS5 credentials set together and short enough for the wire format.
\<close>

theorem validate_exact: "validate c = None \<longleftrightarrow> valid_config c"
  by (rule validate_iff)

section \<open>The defaults are valid\<close>

lemmas url_eval = parse_request_uri_def is_alnum_def is_digit_def lower_char_def to_lower_def
  parse_authority_def last_char_index_def parse_host_def should_escape_host_def char_of_def bit_0

lemma default_urls:
  "parse_request_uri default_source_url = Some (''http'', ''www.vpngate.net'')"
  "parse_request_uri default_speed_test_url = Some (''http'', ''storage.googleapis.com'')"
  "parse_request_uri ''https://www.google.com/generate_204'' = Some (''https'', ''www.google.com'')"
  by (simp_all add: url_eval default_source_url_def default_speed_test_url_def)

lemmas duration_eval = parse_duration_def duration_loop.simps duration_part_def unit_map_def unit_char_def
  is_digit_def digit_value_def two63_def two64_def

lemma default_durations:
  "parse_duration ''30m'' = Inr (30 * minute)" "parse_duration ''5m'' = Inr (5 * minute)"
  "parse_duration ''1m'' = Inr minute" "parse_duration ''30s'' = Inr 30000000000"
  "parse_duration ''10s'' = Inr 10000000000" "parse_duration ''15s'' = Inr 15000000000"
  "parse_duration ''45s'' = Inr 45000000000"
  by (simp_all add: duration_eval minute_def)

lemma default_addresses:
  "split_host_port ''127.0.0.1:1080'' = Inr (''127.0.0.1'', ''1080'')"
  "split_host_port ''127.0.0.1:8080'' = Inr (''127.0.0.1'', ''8080'')"
  "split_host_port ''1.1.1.1:53'' = Inr (''1.1.1.1'', ''53'')"
  "split_host_port ''8.8.8.8:53'' = Inr (''8.8.8.8'', ''53'')"
  by (simp_all add: split_host_port_def last_char_index_def)

lemma default_dns:
  "parse_ip ''1.1.1.1'' = Some (ipv4 1 1 1 1)" "parse_ip ''8.8.8.8'' = Some (ipv4 8 8 8 8)" "atoi ''53'' = Some 53"
  by (simp_all add: parse_ip_def parse_v4_def is_digit_def digit_value_def ipv4_def atoi_def parse_int_def
      parse_uint_def max_uint64_def max_int64_def)

lemma default_valid:
  assumes "password_hash \<noteq> []" and "session_secret \<noteq> []"
  shows "validate (default_config password_hash session_secret) = None"
proof -
  have "dns_endpoint ''1.1.1.1:53''" "dns_endpoint ''8.8.8.8:53''"
    by (simp_all add: dns_endpoint_def default_addresses default_dns)
  moreover have "trim_space ''data/proxygate.db'' \<noteq> []"
    by (simp add: trim_space_def trim_right_def trim_left.simps space_len_def space_runes_def)
  ultimately show ?thesis
    unfolding validate_iff valid_config_def default_config_def
    using assms
    by (simp add: default_urls default_durations default_addresses http_url_def host_port_def
        positive_text_def minute_def default_dns_servers_def valid_protocols_def has_newline_def
        protocol_openvpn_udp_def protocol_openvpn_tcp_def protocol_softether_tls_def protocol_sstp_def
        protocol_l2tp_def)
qed

text \<open>
  The configuration written on a first run is valid, whatever password hash and session
  secret were generated for it.
\<close>

theorem default_config_valid:
  assumes "password_hash \<noteq> []" and "session_secret \<noteq> []"
  shows "validate (default_config password_hash session_secret) = None"
  using assms by (rule default_valid)

lemma default_config_valid_witness: "validate (default_config ''$2a$10$hash'' ''secret'') = None"
  by (rule default_config_valid) simp_all

end
