(* ===== verification/GoPath.thy ===== *)
theory GoPath
  imports GoStrings
begin

text \<open>
  Go's \<open>path/filepath\<close> on Unix, as the configuration uses it: a cleaned path is the flag
  whether it is rooted and its elements.
\<close>

section \<open>Clean, Join, Dir, Rel\<close>

definition is_abs :: "string \<Rightarrow> bool" where
  "is_abs path = has_prefix ''/'' path"

fun clean_step :: "bool \<Rightarrow> string list \<Rightarrow> string \<Rightarrow> string list" where
  "clean_step rooted stack p =
     (if p = [] \<or> p = ''.'' then stack
      else if p = ''..'' then
        (case stack of
           [] \<Rightarrow> if rooted then [] else [''..'']
         | q # qs \<Rightarrow> if q = ''..'' then ''..'' # stack else qs)
      else p # stack)"

definition elements :: "string \<Rightarrow> string list" where
  "elements path = rev (foldl (clean_step (is_abs path)) [] (split_on CHR ''/'' path))"

definition clean :: "string \<Rightarrow> string" where
  "clean path =
     (if is_abs path then ''/'' @ join ''/'' (elements path)
      else if elements path = [] then ''.'' else join ''/'' (elements path))"

definition path_join :: "string \<Rightarrow> string \<Rightarrow> string" where
  "path_join a b =
     (if a \<noteq> [] then clean (a @ ''/'' @ b) else if b \<noteq> [] then clean b else [])"

definition dir :: "string \<Rightarrow> string" where
  "dir path = clean (rev (dropWhile (\<lambda>c. c \<noteq> CHR ''/'') (rev path)))"

text \<open>\<open>Abs\<close>; \<open>cwd\<close> is what \<open>os.Getwd\<close> returns.\<close>

definition path_abs :: "string result \<Rightarrow> string \<Rightarrow> string result" where
  "path_abs cwd path =
     (if is_abs path then Inr (clean path) else bind_result cwd (\<lambda>wd. Inr (path_join wd path)))"

fun drop_common :: "string list \<Rightarrow> string list \<Rightarrow> string list \<times> string list" where
  "drop_common (b # bs) (t # ts) = (if b = t then drop_common bs ts else (b # bs, t # ts))"
| "drop_common bs ts = (bs, ts)"

definition rel :: "string \<Rightarrow> string \<Rightarrow> string result" where
  "rel base targ =
     (if clean base = clean targ then Inr ''.''
      else if is_abs (clean base) \<noteq> is_abs (clean targ)
      then Inl (''Rel: can't make '' @ targ @ '' relative to '' @ base)
      else case drop_common (elements base) (elements targ) of (bs, ts) \<Rightarrow>
        if bs \<noteq> [] \<and> hd bs = ''..''
        then Inl (''Rel: can't make '' @ targ @ '' relative to '' @ base)
        else Inr (join ''/'' (map (\<lambda>_. ''..'') bs @ ts)))"

section \<open>Normal paths\<close>

text \<open>An element that cleaning keeps.\<close>

definition plain :: "string \<Rightarrow> bool" where
  "plain p \<longleftrightarrow> p \<noteq> [] \<and> p \<noteq> ''.'' \<and> p \<noteq> ''..'' \<and> CHR ''/'' \<notin> set p"

lemma clean_step_plain: "plain p \<Longrightarrow> clean_step r stack p = p # stack"
  by (auto simp: plain_def)

lemma foldl_clean_plain:
  "list_all plain ps \<Longrightarrow> foldl (clean_step r) stack ps = rev ps @ stack"
  by (induction ps arbitrary: stack) (auto simp: clean_step_plain simp del: clean_step.simps)

lemma clean_step_rooted:
  "list_all plain stack \<Longrightarrow> CHR ''/'' \<notin> set p \<Longrightarrow> list_all plain (clean_step True stack p)"
  by (cases stack) (auto simp: plain_def)

lemma elements_plain: "is_abs path \<Longrightarrow> list_all plain (elements path)"
proof -
  assume a: "is_abs path"
  have "list_all plain (foldl (clean_step True) stack ps)"
    if "list_all plain stack" "\<forall>p \<in> set ps. CHR ''/'' \<notin> set p" for stack ps
    using that by (induction ps arbitrary: stack) (auto simp: clean_step_rooted simp del: clean_step.simps)
  from this [of "[]" "split_on CHR ''/'' path"] a show ?thesis
    by (auto simp: elements_def list_all_iff dest: split_on_parts)
qed

lemma split_on_snoc: "split_on d (s @ d # t) = split_on d s @ split_on d t"
proof (induction s)
  case (Cons c s)
  then show ?case using split_on_nonempty [of d s]
    by (cases "split_on d s") (auto split: list.splits)
qed simp

lemma split_on_join:
  "\<forall>p \<in> set ps. CHR ''/'' \<notin> set p \<Longrightarrow> split_on CHR ''/'' (join ''/'' ps) = (if ps = [] then [[]] else ps)"
proof (induction "''/''" ps rule: join.induct)
  case (3 p q ps)
  then have "split_on CHR ''/'' (p @ CHR ''/'' # join ''/'' (q # ps)) = p # (q # ps)"
    by (subst split_on_append) auto
  then show ?case by simp
qed (auto simp: split_on_none)

lemma elements_rooted:
  assumes "list_all plain ps"
  shows "elements (CHR ''/'' # join ''/'' ps) = ps"
proof -
  have "\<forall>p \<in> set ps. CHR ''/'' \<notin> set p" using assms by (auto simp: list_all_iff plain_def)
  then show ?thesis
    using foldl_clean_plain [OF assms, of True "[]"]
    by (simp add: elements_def is_abs_def split_on_join del: clean_step.simps) (simp add: clean_step.simps)
qed

lemma clean_step_names:
  "\<forall>q \<in> set stack. q \<noteq> [] \<and> CHR ''/'' \<notin> set q \<Longrightarrow> CHR ''/'' \<notin> set p \<Longrightarrow>
   q \<in> set (clean_step r stack p) \<Longrightarrow> q \<noteq> [] \<and> CHR ''/'' \<notin> set q"
  by (cases stack) (auto split: if_splits)

lemma elements_names: "q \<in> set (elements path) \<Longrightarrow> q \<noteq> [] \<and> CHR ''/'' \<notin> set q"
proof -
  have inv: "\<forall>q \<in> set (foldl (clean_step r) stack ps). q \<noteq> [] \<and> CHR ''/'' \<notin> set q"
    if "\<forall>q \<in> set stack. q \<noteq> [] \<and> CHR ''/'' \<notin> set q" "\<forall>p \<in> set ps. CHR ''/'' \<notin> set p" for r stack ps
    using that
  proof (induction ps arbitrary: stack)
    case (Cons p ps)
    have p: "CHR ''/'' \<notin> set p" "\<forall>p \<in> set ps. CHR ''/'' \<notin> set p" using Cons.prems(2) by simp_all
    have "\<forall>q \<in> set (clean_step r stack p). q \<noteq> [] \<and> CHR ''/'' \<notin> set q"
      by (rule ballI) (rule clean_step_names [OF Cons.prems(1) p(1)])
    from Cons.IH [OF this p(2)] show ?case by (simp only: foldl_Cons)
  qed simp
  assume "q \<in> set (elements path)"
  then show ?thesis
    using inv [of "[]" "split_on CHR ''/'' path" "is_abs path"] split_on_parts [of _ "CHR ''/''" path]
    by (simp add: elements_def)
qed

lemma is_abs_clean [simp]: "is_abs (clean path) = is_abs path"
proof (cases "is_abs path")
  case False
  note elements_names [of "hd (elements path)" path]
  then have "\<not> has_prefix ''/'' (join ''/'' (elements path))" if "elements path \<noteq> []"
    using that by (cases "elements path"; cases "tl (elements path)"; cases "hd (elements path)") auto
  with False show ?thesis by (simp add: clean_def is_abs_def)
qed (simp add: clean_def is_abs_def)

lemma elements_clean: "is_abs path \<Longrightarrow> elements (clean path) = elements path"
  by (simp add: clean_def elements_rooted elements_plain)

lemma clean_abs: "is_abs path \<Longrightarrow> clean path = CHR ''/'' # join ''/'' (elements path)"
  by (simp add: clean_def)

lemma clean_clean: "is_abs path \<Longrightarrow> clean (clean path) = clean path"
  by (subst clean_abs) (simp_all add: elements_clean, simp add: clean_abs)

lemma elements_join:
  assumes "is_abs a" and "list_all plain ps"
  shows "elements (a @ ''/'' @ join ''/'' ps) = elements a @ ps"
proof -
  have ps: "\<forall>p \<in> set ps. CHR ''/'' \<notin> set p" using assms(2) by (auto simp: list_all_iff plain_def)
  have r: "is_abs (a @ t)" for t using assms(1) by (auto simp: is_abs_def has_prefix_iff)
  show ?thesis
  proof (cases "ps = []")
    case True
    then show ?thesis using assms r [of "''/''"]
      by (simp add: elements_def split_on_snoc clean_step.simps)
  next
    case False
    then show ?thesis
      using assms r foldl_clean_plain [OF assms(2), of True]
      by (simp add: elements_def split_on_snoc split_on_join [OF ps] del: clean_step.simps)
  qed
qed

lemma path_join_plain:
  "is_abs a \<Longrightarrow> list_all plain ps \<Longrightarrow> path_join a (join ''/'' ps) = CHR ''/'' # join ''/'' (elements a @ ps)"
proof -
  assume a: "is_abs a" and ps: "list_all plain ps"
  have "a \<noteq> []" "is_abs (a @ ''/'' @ join ''/'' ps)" using a by (auto simp: is_abs_def has_prefix_iff)
  then show ?thesis using a ps by (simp only: path_join_def clean_abs elements_join if_True) simp
qed

lemma drop_common_spec:
  "drop_common bs ts = (bs', ts') \<Longrightarrow> \<exists>c. bs = c @ bs' \<and> ts = c @ ts'"
proof (induction bs ts rule: drop_common.induct)
  case (1 b bs t ts)
  then show ?case by (cases "b = t") (auto intro: exI [of _ "_ # _"] exI [of _ "[]"])
qed auto

end
