(* ===== verification/Json.thy ===== *)
theory Json
  imports GoStrings
begin

text \<open>
  JSON documents as \<open>encoding/json\<close> reads them, and its decoding of an object into a
  struct: members in order, the key matched exactly or else ignoring case, unknown keys
  refused (\<open>DisallowUnknownFields\<close>), \<open>null\<close> leaving a field as it is. The decoder goes on
  after a member it cannot decode but reports the first such error in the end, which is
  what stopping at it gives.
\<close>

datatype json =
    JNull
  | JBool bool
  | JNumber string
  | JString string
  | JArray "json list"
  | JObject "(string \<times> json) list"

definition type_error :: "json \<Rightarrow> string \<Rightarrow> string" where
  "type_error j target = ''json: cannot unmarshal '' @
     (case j of JNull \<Rightarrow> ''null'' | JBool _ \<Rightarrow> ''bool'' | JNumber _ \<Rightarrow> ''number'' | JString _ \<Rightarrow> ''string''
      | JArray _ \<Rightarrow> ''array'' | JObject _ \<Rightarrow> ''object'') @ '' into Go '' @ target"

definition decode_string :: "string \<Rightarrow> json \<Rightarrow> string \<Rightarrow> string result" where
  "decode_string field j old =
     (case j of JNull \<Rightarrow> Inr old | JString s \<Rightarrow> Inr s
      | _ \<Rightarrow> Inl (type_error j (''struct field Config.'' @ field @ '' of type string'')))"

definition decode_bool :: "string \<Rightarrow> json \<Rightarrow> bool \<Rightarrow> bool result" where
  "decode_bool field j old =
     (case j of JNull \<Rightarrow> Inr old | JBool b \<Rightarrow> Inr b
      | _ \<Rightarrow> Inl (type_error j (''struct field Config.'' @ field @ '' of type bool'')))"

fun decode_elements :: "string \<Rightarrow> json list \<Rightarrow> string list result" where
  "decode_elements field [] = Inr []"
| "decode_elements field (j # js) =
     bind_result (decode_string field j []) (\<lambda>s.
       bind_result (decode_elements field js) (\<lambda>ss. Inr (s # ss)))"

definition decode_strings :: "string \<Rightarrow> json \<Rightarrow> string list result" where
  "decode_strings field j =
     (case j of JNull \<Rightarrow> Inr [] | JArray js \<Rightarrow> decode_elements field js
      | _ \<Rightarrow> Inl (type_error j (''struct field Config.'' @ field @ '' of type []string'')))"

type_synonym 'c field = "string \<times> (json \<Rightarrow> 'c \<Rightarrow> 'c result)"

definition find_field :: "'c field list \<Rightarrow> string \<Rightarrow> (json \<Rightarrow> 'c \<Rightarrow> 'c result) option" where
  "find_field fs k =
     (case map_of fs k of Some d \<Rightarrow> Some d
      | None \<Rightarrow> map_of (map (\<lambda>(n, d). (to_lower n, d)) fs) (to_lower k))"

fun decode_members :: "'c field list \<Rightarrow> (string \<times> json) list \<Rightarrow> 'c \<Rightarrow> 'c result" where
  "decode_members fs [] c = Inr c"
| "decode_members fs ((k, j) # ms) c =
     (case find_field fs k of
        None \<Rightarrow> Inl (''json: unknown field '' @ go_quote k)
      | Some d \<Rightarrow> bind_result (d j c) (decode_members fs ms))"

definition decode_struct :: "string \<Rightarrow> 'c field list \<Rightarrow> json \<Rightarrow> 'c \<Rightarrow> 'c result" where
  "decode_struct target fs j c =
     (case j of JNull \<Rightarrow> Inr c | JObject ms \<Rightarrow> decode_members fs ms c
      | _ \<Rightarrow> Inl (type_error j target))"

text \<open>\<open>json.Unmarshal\<close> into a map: the last of several members with one key stays.\<close>

definition decode_map :: "json \<Rightarrow> (string \<times> json) list result" where
  "decode_map j =
     (case j of JNull \<Rightarrow> Inr [] | JObject ms \<Rightarrow> Inr (rev ms)
      | _ \<Rightarrow> Inl (type_error j ''value of type map[string]json.RawMessage''))"

lemma decode_scalars [simp]:
  "decode_string f (JString s) old = Inr s" "decode_bool f (JBool b) old' = Inr b"
  by (simp_all add: decode_string_def decode_bool_def)

lemma decode_elements_strings [simp]: "decode_elements f (map JString ss) = Inr ss"
  by (induction ss) simp_all

lemma decode_strings_array [simp]: "decode_strings f (JArray (map JString ss)) = Inr ss"
  by (simp add: decode_strings_def)

lemma find_field_exact: "map_of fs k = Some d \<Longrightarrow> find_field fs k = Some d"
  by (simp add: find_field_def)

end
