(* ===== verification/ConfigStore.thy ===== *)
theory ConfigStore
  imports ConfigValidate GoPath Json
begin

text \<open>
  Loading and saving the configuration, \<open>src/internal/config/config.go\<close>. A file holds what
  \<open>encoding/json\<close> makes of its bytes, a document or the error it reports; the disk maps
  paths to files. The outcomes of the system calls are arguments.
\<close>

section \<open>The document\<close>

definition zero_config :: config where
  "zero_config =
     \<lparr>source_url = [], refresh_interval = [], filter_expression = [], selection_mode = [],
      follow_ranking_on_refresh = False, fallback_to_direct = False,
      socks5 = \<lparr>s_listen_address = [], s_username = [], s_password = [], s_idle_timeout = [],
        s_half_close_timeout = []\<rparr>,
      monitor = \<lparr>mon_url = [], mon_interval = [], mon_timeout = []\<rparr>,
      web = \<lparr>web_listen_address = [], web_username = [], web_password_hash = [], web_session_secret = []\<rparr>,
      database_path = [], dns_servers = [], speed_test_url = [], speed_test_timeout = [],
      protocol_priority = [], connect_timeout = [], vpn_gate_username = [], vpn_gate_password = [],
      vpn_gate_pre_shared_key = []\<rparr>"

definition text_field ::
  "string \<Rightarrow> string \<Rightarrow> ('c \<Rightarrow> string) \<Rightarrow> (string \<Rightarrow> 'c \<Rightarrow> 'c) \<Rightarrow> 'c field" where
  "text_field prefix name get put =
     (name, \<lambda>j c. bind_result (decode_string (prefix @ name) j (get c)) (\<lambda>s. Inr (put s c)))"

definition bool_field :: "string \<Rightarrow> ('c \<Rightarrow> bool) \<Rightarrow> (bool \<Rightarrow> 'c \<Rightarrow> 'c) \<Rightarrow> 'c field" where
  "bool_field name get put = (name, \<lambda>j c. bind_result (decode_bool name j (get c)) (\<lambda>b. Inr (put b c)))"

definition list_field :: "string \<Rightarrow> (string list \<Rightarrow> 'c \<Rightarrow> 'c) \<Rightarrow> 'c field" where
  "list_field name put = (name, \<lambda>j c. bind_result (decode_strings name j) (\<lambda>ss. Inr (put ss c)))"

definition struct_field :: "string \<Rightarrow> string \<Rightarrow> 'd field list \<Rightarrow> ('c \<Rightarrow> 'd) \<Rightarrow> ('d \<Rightarrow> 'c \<Rightarrow> 'c) \<Rightarrow> 'c field" where
  "struct_field name type fs get put =
     (name, \<lambda>j c. bind_result
       (decode_struct (''struct field Config.'' @ name @ '' of type config.'' @ type) fs j (get c))
       (\<lambda>d. Inr (put d c)))"

definition socks5_fields :: "socks5_config field list" where
  "socks5_fields =
     [text_field ''socks5.'' ''listenAddress'' s_listen_address (\<lambda>s c. c\<lparr>s_listen_address := s\<rparr>),
      text_field ''socks5.'' ''username'' s_username (\<lambda>s c. c\<lparr>s_username := s\<rparr>),
      text_field ''socks5.'' ''password'' s_password (\<lambda>s c. c\<lparr>s_password := s\<rparr>),
      text_field ''socks5.'' ''idleTimeout'' s_idle_timeout (\<lambda>s c. c\<lparr>s_idle_timeout := s\<rparr>),
      text_field ''socks5.'' ''halfCloseTimeout'' s_half_close_timeout (\<lambda>s c. c\<lparr>s_half_close_timeout := s\<rparr>)]"

definition monitor_fields :: "monitor_config field list" where
  "monitor_fields =
     [text_field ''monitor.'' ''url'' mon_url (\<lambda>s c. c\<lparr>mon_url := s\<rparr>),
      text_field ''monitor.'' ''interval'' mon_interval (\<lambda>s c. c\<lparr>mon_interval := s\<rparr>),
      text_field ''monitor.'' ''timeout'' mon_timeout (\<lambda>s c. c\<lparr>mon_timeout := s\<rparr>)]"

definition web_fields :: "web_config field list" where
  "web_fields =
     [text_field ''web.'' ''listenAddress'' web_listen_address (\<lambda>s c. c\<lparr>web_listen_address := s\<rparr>),
      text_field ''web.'' ''username'' web_username (\<lambda>s c. c\<lparr>web_username := s\<rparr>),
      text_field ''web.'' ''passwordHash'' web_password_hash (\<lambda>s c. c\<lparr>web_password_hash := s\<rparr>),
      text_field ''web.'' ''sessionSecret'' web_session_secret (\<lambda>s c. c\<lparr>web_session_secret := s\<rparr>)]"

definition config_fields :: "config field list" where
  "config_fields =
     [text_field [] ''sourceUrl'' source_url (\<lambda>s c. c\<lparr>source_url := s\<rparr>),
      text_field [] ''refreshInterval'' refresh_interval (\<lambda>s c. c\<lparr>refresh_interval := s\<rparr>),
      text_field [] ''filterExpression'' filter_expression (\<lambda>s c. c\<lparr>filter_expression := s\<rparr>),
      text_field [] ''selectionMode'' selection_mode (\<lambda>s c. c\<lparr>selection_mode := s\<rparr>),
      bool_field ''followRankingOnRefresh'' follow_ranking_on_refresh (\<lambda>b c. c\<lparr>follow_ranking_on_refresh := b\<rparr>),
      bool_field ''fallbackToDirect'' fallback_to_direct (\<lambda>b c. c\<lparr>fallback_to_direct := b\<rparr>),
      struct_field ''socks5'' ''SOCKS5'' socks5_fields socks5 (\<lambda>d c. c\<lparr>socks5 := d\<rparr>),
      struct_field ''monitor'' ''Monitor'' monitor_fields monitor (\<lambda>d c. c\<lparr>monitor := d\<rparr>),
      struct_field ''web'' ''Web'' web_fields web (\<lambda>d c. c\<lparr>web := d\<rparr>),
      text_field [] ''databasePath'' database_path (\<lambda>s c. c\<lparr>database_path := s\<rparr>),
      list_field ''dnsServers'' (\<lambda>ss c. c\<lparr>dns_servers := ss\<rparr>),
      text_field [] ''speedTestUrl'' speed_test_url (\<lambda>s c. c\<lparr>speed_test_url := s\<rparr>),
      text_field [] ''speedTestTimeout'' speed_test_timeout (\<lambda>s c. c\<lparr>speed_test_timeout := s\<rparr>),
      list_field ''protocolPriority'' (\<lambda>ss c. c\<lparr>protocol_priority := ss\<rparr>),
      text_field [] ''connectTimeout'' connect_timeout (\<lambda>s c. c\<lparr>connect_timeout := s\<rparr>),
      text_field [] ''vpnGateUsername'' vpn_gate_username (\<lambda>s c. c\<lparr>vpn_gate_username := s\<rparr>),
      text_field [] ''vpnGatePassword'' vpn_gate_password (\<lambda>s c. c\<lparr>vpn_gate_password := s\<rparr>),
      text_field [] ''vpnGatePreSharedKey'' vpn_gate_pre_shared_key (\<lambda>s c. c\<lparr>vpn_gate_pre_shared_key := s\<rparr>)]"

definition decode_config :: "json \<Rightarrow> config result" where
  "decode_config j = decode_struct ''value of type config.Config'' config_fields j zero_config"

definition encode_socks5 :: "socks5_config \<Rightarrow> json" where
  "encode_socks5 s = JObject
     [(''listenAddress'', JString (s_listen_address s)), (''username'', JString (s_username s)),
      (''password'', JString (s_password s)), (''idleTimeout'', JString (s_idle_timeout s)),
      (''halfCloseTimeout'', JString (s_half_close_timeout s))]"

definition encode_monitor :: "monitor_config \<Rightarrow> json" where
  "encode_monitor m = JObject
     [(''url'', JString (mon_url m)), (''interval'', JString (mon_interval m)),
      (''timeout'', JString (mon_timeout m))]"

definition encode_web :: "web_config \<Rightarrow> json" where
  "encode_web w = JObject
     [(''listenAddress'', JString (web_listen_address w)), (''username'', JString (web_username w)),
      (''passwordHash'', JString (web_password_hash w)), (''sessionSecret'', JString (web_session_secret w))]"

definition encode_config :: "config \<Rightarrow> json" where
  "encode_config c = JObject
     [(''sourceUrl'', JString (source_url c)), (''refreshInterval'', JString (refresh_interval c)),
      (''filterExpression'', JString (filter_expression c)), (''selectionMode'', JString (selection_mode c)),
      (''followRankingOnRefresh'', JBool (follow_ranking_on_refresh c)),
      (''fallbackToDirect'', JBool (fallback_to_direct c)),
      (''socks5'', encode_socks5 (socks5 c)), (''monitor'', encode_monitor (monitor c)),
      (''web'', encode_web (web c)),
      (''databasePath'', JString (database_path c)),
      (''dnsServers'', JArray (map JString (dns_servers c))),
      (''speedTestUrl'', JString (speed_test_url c)), (''speedTestTimeout'', JString (speed_test_timeout c)),
      (''protocolPriority'', JArray (map JString (protocol_priority c))),
      (''connectTimeout'', JString (connect_timeout c)),
      (''vpnGateUsername'', JString (vpn_gate_username c)), (''vpnGatePassword'', JString (vpn_gate_password c)),
      (''vpnGatePreSharedKey'', JString (vpn_gate_pre_shared_key c))]"

lemmas field_defs = text_field_def bool_field_def list_field_def struct_field_def

text \<open>Decoding a complete object of string members sets exactly the members.\<close>

lemma decode_encode_socks5: "decode_struct t socks5_fields (encode_socks5 s) old = Inr s"
  by (simp add: decode_struct_def encode_socks5_def find_field_def socks5_fields_def field_defs)

lemma decode_encode_monitor: "decode_struct t monitor_fields (encode_monitor m) old = Inr m"
  by (simp add: decode_struct_def encode_monitor_def find_field_def monitor_fields_def field_defs)

lemma decode_encode_web: "decode_struct t web_fields (encode_web w) old = Inr w"
  by (simp add: decode_struct_def encode_web_def find_field_def web_fields_def field_defs)

lemma decode_encode_config: "decode_config (encode_config c) = Inr c"
proof -
  define ms where "ms = (case encode_config c of JObject ms \<Rightarrow> ms | _ \<Rightarrow> [])"
  have ms: "encode_config c = JObject ms" by (simp add: ms_def encode_config_def)
  have "decode_members config_fields ms zero_config = Inr c"
    unfolding ms_def encode_config_def config_fields_def field_defs
    by (simp add: find_field_def decode_encode_socks5 decode_encode_monitor decode_encode_web zero_config_def)
  then show ?thesis by (simp add: decode_config_def ms decode_struct_def)
qed

section \<open>Loading\<close>

text \<open>The fields a file must have; the order only decides which missing one is reported.\<close>

fun require_json_fields :: "(string \<times> json) list \<Rightarrow> string \<Rightarrow> string list \<Rightarrow> string option" where
  "require_json_fields present obj [] = None"
| "require_json_fields present obj (name # names) =
     (if map_of present name = None then Some (obj @ '' is missing required field '' @ go_quote name)
      else require_json_fields present obj names)"

definition top_required :: "string list" where
  "top_required =
     [''sourceUrl'', ''refreshInterval'', ''filterExpression'', ''selectionMode'', ''followRankingOnRefresh'',
      ''socks5'', ''monitor'', ''web'', ''databasePath'', ''dnsServers'', ''speedTestUrl'', ''speedTestTimeout'',
      ''protocolPriority'', ''connectTimeout'', ''vpnGateUsername'', ''vpnGatePassword'', ''vpnGatePreSharedKey'']"

definition nested_required :: "(string \<times> string list) list" where
  "nested_required =
     [(''socks5'', [''listenAddress'', ''username'', ''password'']),
      (''monitor'', [''url'', ''interval'', ''timeout'']),
      (''web'', [''listenAddress'', ''username'', ''passwordHash'', ''sessionSecret''])]"

fun require_nested :: "(string \<times> json) list \<Rightarrow> (string \<times> string list) list \<Rightarrow> string option" where
  "require_nested present [] = None"
| "require_nested present ((name, required) # rest) =
     (case map_of present name of None \<Rightarrow> Some (name @ '' must be an object'')
      | Some j \<Rightarrow>
          (case decode_map j of Inl _ \<Rightarrow> Some (name @ '' must be an object'')
           | Inr nested \<Rightarrow>
               (case require_json_fields nested name required of Some e \<Rightarrow> Some e
                | None \<Rightarrow> require_nested present rest)))"

definition require_current_config_fields :: "json \<Rightarrow> string option" where
  "require_current_config_fields j =
     (case decode_map j of Inl e \<Rightarrow> Some e
      | Inr present \<Rightarrow>
          (case require_json_fields present ''config'' top_required of Some e \<Rightarrow> Some e
           | None \<Rightarrow> require_nested present nested_required))"

record environment =
  env_web :: string
  env_socks5 :: string
  env_database :: string

definition apply_environment_overrides :: "environment \<Rightarrow> config \<Rightarrow> config" where
  "apply_environment_overrides env c =
     (let c1 = (if trim_space (env_web env) \<noteq> []
                then c\<lparr>web := (web c)\<lparr>web_listen_address := trim_space (env_web env)\<rparr>\<rparr> else c);
          c2 = (if trim_space (env_socks5 env) \<noteq> []
                then c1\<lparr>socks5 := (socks5 c1)\<lparr>s_listen_address := trim_space (env_socks5 env)\<rparr>\<rparr> else c1)
      in if trim_space (env_database env) \<noteq> []
         then c2\<lparr>database_path := trim_space (env_database env)\<rparr> else c2)"

section \<open>The store\<close>

type_synonym document = "json result"
type_synonym disk = "string \<rightharpoonup> document"

record cstore =
  cs_path :: string
  cs_config :: config

definition get_config :: "cstore \<Rightarrow> config" where
  "get_config s = cs_config s"

text \<open>
  The outcomes of \<open>MkdirAll\<close>, of \<open>WriteFile\<close> (with what a failed write leaves), of \<open>Rename\<close>
  and of the \<open>Remove\<close> after a failed rename.
\<close>

record save_io =
  io_mkdir :: "string option"
  io_write :: "(string \<times> document option) option"
  io_rename :: "string option"
  io_remove :: bool

definition absolute_database :: "string \<Rightarrow> config \<Rightarrow> config" where
  "absolute_database path c =
     (if is_abs (database_path c) then c
      else c\<lparr>database_path := path_join (dir path) (database_path c)\<rparr>)"

definition encoded_value :: "string \<Rightarrow> config \<Rightarrow> config" where
  "encoded_value path value =
     (case rel (dir path) (database_path value) of
        Inl _ \<Rightarrow> value
      | Inr relative \<Rightarrow>
          if relative \<noteq> ''..'' \<and> \<not> has_prefix ''../'' relative
          then value\<lparr>database_path := relative\<rparr> else value)"

definition write_config :: "save_io \<Rightarrow> string \<Rightarrow> document \<Rightarrow> disk \<Rightarrow> string option \<times> disk" where
  "write_config io path data files =
     (let temporary = path @ ''.tmp''
      in case io_write io of
           Some (e, left) \<Rightarrow> (Some e, files(temporary := left))
         | None \<Rightarrow>
             (case io_rename io of
                Some e \<Rightarrow>
                  (Some e, if io_remove io then files(temporary := None) else files(temporary \<mapsto> data))
              | None \<Rightarrow> (None, files(temporary := None, path \<mapsto> data))))"

text \<open>\<open>MarshalIndent\<close> cannot fail on this struct.\<close>

definition save_config ::
  "save_io \<Rightarrow> config \<Rightarrow> cstore \<times> disk \<Rightarrow> string option \<times> cstore \<times> disk" where
  "save_config io value0 st =
     (let s = fst st; files = snd st; value = absolute_database (cs_path s) value0
      in case validate value of Some e \<Rightarrow> (Some e, st)
      | None \<Rightarrow>
         (case io_mkdir io of Some e \<Rightarrow> (Some e, st)
          | None \<Rightarrow>
             (case write_config io (cs_path s) (Inr (encode_config (encoded_value (cs_path s) value))) files of
                (Some e, files') \<Rightarrow> (Some e, s, files')
              | (None, files') \<Rightarrow> (None, s\<lparr>cs_config := value\<rparr>, files'))))"

text \<open>What the first run generates: the password, its hash and the session secret.\<close>

record first_run =
  f_password :: string
  f_hash :: string
  f_secret :: string

definition read_config :: "document \<Rightarrow> config result" where
  "read_config data =
     (case data of Inl e \<Rightarrow> Inl (''decode config: '' @ e)
      | Inr j \<Rightarrow>
          (case require_current_config_fields j of Some e \<Rightarrow> Inl (''decode config: '' @ e)
           | None \<Rightarrow>
               (case decode_config j of Inl e \<Rightarrow> Inl (''decode config: '' @ e) | Inr c \<Rightarrow> Inr c)))"

text \<open>\<open>load\<close>: \<open>read_error\<close> is a failure of \<open>ReadFile\<close> other than a missing file.\<close>

definition load ::
  "string result \<Rightarrow> string option \<Rightarrow> environment \<Rightarrow> first_run \<Rightarrow> save_io \<Rightarrow> bool \<Rightarrow> string \<Rightarrow> disk \<Rightarrow>
   cstore result \<times> disk \<times> string list" where
  "load cwd read_error env run io logger path files =
     (case path_abs cwd path of Inl e \<Rightarrow> (Inl e, files, [])
      | Inr absolute \<Rightarrow>
          if read_error \<noteq> None then (Inl (''read config: '' @ the read_error), files, [])
          else
            (case (case files absolute of Some data \<Rightarrow> read_config data
                   | None \<Rightarrow> Inr (default_config (f_hash run) (f_secret run))) of
               Inl e \<Rightarrow> (Inl e, files, [])
             | Inr c \<Rightarrow>
                 let value = absolute_database absolute (apply_environment_overrides env c)
                 in case validate value of Some e \<Rightarrow> (Inl (''validate config: '' @ e), files, [])
                 | None \<Rightarrow>
                     let s = \<lparr>cs_path = absolute, cs_config = value\<rparr>
                     in if files absolute \<noteq> None then (Inr s, files, [])
                        else (case save_config io value (s, files) of
                            (Some e, _, files') \<Rightarrow> (Inl e, files', [])
                          | (None, s', files') \<Rightarrow>
                              (Inr s', files',
                               if logger then [''[config] generated first-run web password for '' @
                                 web_username (web value) @ '': '' @ f_password run] else []))))"

section \<open>Saving is all or nothing\<close>

lemma write_config_effect:
  "write_config io path data files = (r, files') \<Longrightarrow>
   (\<forall>p. p \<noteq> path \<and> p \<noteq> path @ ''.tmp'' \<longrightarrow> files' p = files p) \<and>
   files' path = (if r = None then Some data else files path)"
  by (cases "io_write io"; cases "io_rename io") (auto simp: write_config_def Let_def split: if_splits)

lemma save_effect:
  assumes "save_config io value (s, files) = (r, s', files')"
  shows "(\<forall>p. p \<noteq> cs_path s \<and> p \<noteq> cs_path s @ ''.tmp'' \<longrightarrow> files' p = files p) \<and>
    (case r of
       Some e \<Rightarrow> s' = s \<and> files' (cs_path s) = files (cs_path s)
     | None \<Rightarrow> valid_config (cs_config s') \<and> cs_path s' = cs_path s \<and>
         cs_config s' = absolute_database (cs_path s) value \<and>
         files' (cs_path s) = Some (Inr (encode_config (encoded_value (cs_path s) (cs_config s')))))"
proof (cases "validate (absolute_database (cs_path s) value) = None \<and> io_mkdir io = None")
  case True
  define value' where "value' = absolute_database (cs_path s) value"
  define data where "data = (Inr (encode_config (encoded_value (cs_path s) value')) :: document)"
  obtain w files1 where w: "write_config io (cs_path s) data files = (w, files1)" by fastforce
  have "r = w \<and> files' = files1 \<and> s' = (if w = None then s\<lparr>cs_config := value'\<rparr> else s)"
    using assms True w unfolding save_config_def fst_conv snd_conv Let_def value'_def [symmetric] data_def [symmetric]
    by (cases w) auto
  moreover have "valid_config value'" using True by (simp add: validate_iff value'_def)
  ultimately show ?thesis
    using write_config_effect [OF w] by (cases w) (auto simp: data_def value'_def)
next
  case False
  then have "s' = s \<and> files' = files \<and> r \<noteq> None"
    using assms
    by (cases "validate (absolute_database (cs_path s) value)"; cases "io_mkdir io")
      (simp_all add: save_config_def Let_def, metis option.distinct(1))
  then show ?thesis by auto
qed

text \<open>
  C14: a save that fails leaves the configuration in use and the file as they were; one that
  succeeds has validated what it now uses and replaced the file by its encoding, and touches
  no other file.
\<close>

theorem save_all_or_nothing:
  assumes "save_config io value (s, files) = (r, s', files')"
  shows "(\<forall>p. p \<noteq> cs_path s \<and> p \<noteq> cs_path s @ ''.tmp'' \<longrightarrow> files' p = files p) \<and>
    (case r of
       Some e \<Rightarrow> s' = s \<and> files' (cs_path s) = files (cs_path s)
     | None \<Rightarrow> valid_config (cs_config s') \<and> cs_path s' = cs_path s \<and>
         cs_config s' = absolute_database (cs_path s) value \<and>
         files' (cs_path s) = Some (Inr (encode_config (encoded_value (cs_path s) (cs_config s')))))"
  using assms by (rule save_effect)

section \<open>What is saved is what is loaded\<close>

lemma require_encode: "require_current_config_fields (encode_config c) = None"
proof -
  define ms where "ms = rev (case encode_config c of JObject ms \<Rightarrow> ms | _ \<Rightarrow> [])"
  have d: "decode_map (encode_config c) = Inr ms" by (simp add: ms_def encode_config_def decode_map_def)
  have "require_json_fields ms ''config'' top_required = None"
    by (simp add: ms_def encode_config_def top_required_def)
  moreover have "map_of ms ''socks5'' = Some (encode_socks5 (socks5 c))"
    "map_of ms ''monitor'' = Some (encode_monitor (monitor c))" "map_of ms ''web'' = Some (encode_web (web c))"
    by (simp_all add: ms_def encode_config_def)
  ultimately show ?thesis
    by (simp add: require_current_config_fields_def d nested_required_def)
      (simp add: decode_map_def encode_socks5_def encode_monitor_def encode_web_def)
qed

lemma read_encode: "read_config (Inr (encode_config c)) = Inr c"
  by (simp add: read_config_def require_encode decode_encode_config)

lemma trim_left_keeps:
  "c \<in> set s \<Longrightarrow> \<forall>r \<in> set rs. c \<notin> set r \<Longrightarrow> c \<in> set (trim_left rs s)"
proof (induction rs s rule: trim_left.induct)
  case (1 rs s)
  show ?case
  proof (cases "space_len rs s = 0")
    case False
    then obtain r where r: "r \<in> set rs" "has_prefix r s" "space_len rs s = length r"
      by (auto simp: space_len_def find_Some_iff split: option.splits dest: nth_mem)
    then obtain t where t: "s = r @ t" by (auto simp: has_prefix_iff)
    have "c \<in> set t" using "1.prems" r(1) t by auto
    then have "c \<in> set (trim_left rs (drop (space_len rs s) s))"
      using "1.IH" [OF False] "1.prems"(2) r(3) t by simp
    then show ?thesis using False by (simp add: trim_left.simps [of rs s])
  qed (use "1.prems" in \<open>simp add: trim_left.simps [of rs s]\<close>)
qed

lemma trim_space_abs: "is_abs p \<Longrightarrow> trim_space p \<noteq> []"
proof -
  assume "is_abs p"
  then have "CHR ''/'' \<in> set p" by (auto simp: is_abs_def has_prefix_iff)
  then have "CHR ''/'' \<in> set (rev (trim_left space_runes p))"
    by (simp add: trim_left_keeps space_runes_def)
  then have "CHR ''/'' \<in> set (trim_left (map rev space_runes) (rev (trim_left space_runes p)))"
    by (rule trim_left_keeps) (simp add: space_runes_def)
  then show ?thesis by (auto simp: trim_space_def trim_right_def)
qed

lemma valid_other_database:
  "valid_config c \<Longrightarrow> trim_space p \<noteq> [] \<Longrightarrow> valid_config (c\<lparr>database_path := p\<rparr>)"
  by (simp add: valid_config_def)

lemma dropWhile_last: "\<not> P c \<Longrightarrow> \<exists>z. dropWhile P (xs @ [c]) = z @ [c]"
  by (induction xs) auto

lemma is_abs_append: "is_abs a \<Longrightarrow> is_abs (a @ t)"
  by (auto simp: is_abs_def has_prefix_iff)

lemma is_abs_dir: "is_abs path \<Longrightarrow> is_abs (dir path)"
  unfolding dir_def is_abs_clean
proof -
  assume "is_abs path"
  then obtain t where "rev path = rev t @ [CHR ''/'']" by (auto simp: is_abs_def has_prefix_iff)
  moreover obtain z where "dropWhile (\<lambda>c. c \<noteq> CHR ''/'') (rev t @ [CHR ''/'']) = z @ [CHR ''/'']"
    using dropWhile_last [of "\<lambda>c. c \<noteq> CHR ''/''" "CHR ''/''" "rev t"] by auto
  ultimately show "is_abs (rev (dropWhile (\<lambda>c. c \<noteq> CHR ''/'') (rev path)))"
    by (simp add: is_abs_def)
qed

lemma join_updirs: "bs \<noteq> [] \<Longrightarrow> join ''/'' (map (\<lambda>_. ''..'') bs @ ts) = ''..'' \<or>
    has_prefix ''../'' (join ''/'' (map (\<lambda>_. ''..'') bs @ ts))"
  by (cases bs; cases "map (\<lambda>_. ''..'') (tl bs) @ ts") auto

text \<open>A relative path written for a database below the directory names the database again.\<close>

lemma rel_join:
  assumes base: "is_abs base" and targ: "is_abs targ" and r: "rel base targ = Inr relative"
    and below: "relative \<noteq> ''..''" "\<not> has_prefix ''../'' relative"
  shows "path_join base relative = clean targ" and "\<not> is_abs relative"
proof -
  have "path_join base relative = clean targ \<and> \<not> is_abs relative"
  proof (cases "clean base = clean targ")
    case True
    with r have rr: "relative = ''.''" by (simp add: rel_def)
    have "base \<noteq> []" "is_abs (base @ ''/.'')" using base by (auto simp: is_abs_def has_prefix_iff)
    moreover have "elements (base @ ''/.'') = elements base"
      using base \<open>is_abs (base @ ''/.'')\<close> split_on_snoc [of "CHR ''/''" base "''.''"]
      by (simp add: elements_def)
    ultimately have "path_join base ''.'' = clean base"
      using base by (simp add: path_join_def clean_abs)
    then show ?thesis using True rr by (simp add: is_abs_def)
  next
    case False
    obtain bs ts where d: "drop_common (elements base) (elements targ) = (bs, ts)" by fastforce
    have rr: "relative = join ''/'' (map (\<lambda>_. ''..'') bs @ ts)"
      using r False base targ d by (auto simp: rel_def split: if_splits)
    have "bs = []" using join_updirs [of bs ts] below rr by blast
    with rr have rts: "relative = join ''/'' ts" by simp
    have e: "elements targ = elements base @ ts" using drop_common_spec [OF d] \<open>bs = []\<close> by auto
    then have pl: "list_all plain ts" using elements_plain [OF targ] by simp
    have "path_join base relative = clean targ"
      unfolding rts path_join_plain [OF base pl] clean_abs [OF targ] e ..
    moreover have "\<not> is_abs relative"
      unfolding rts using pl
      by (cases ts; cases "tl ts"; cases "hd ts") (auto simp: is_abs_def plain_def)
    ultimately show ?thesis by simp
  qed
  then show "path_join base relative = clean targ" "\<not> is_abs relative" by simp_all
qed

lemma absolute_database_abs:
  assumes "is_abs path"
  shows "is_abs (database_path (absolute_database path c))"
proof -
  note d = is_abs_dir [OF assms]
  then have "dir path \<noteq> []" by (auto simp: is_abs_def)
  then show ?thesis
    using is_abs_append [OF d] by (simp add: absolute_database_def path_join_def)
qed

lemma reload_database:
  assumes path: "is_abs path" and db: "is_abs (database_path v)"
  shows "\<exists>p. absolute_database path (encoded_value path v) = v\<lparr>database_path := p\<rparr> \<and>
    clean p = clean (database_path v) \<and> is_abs p"
proof (cases "\<exists>relative. rel (dir path) (database_path v) = Inr relative \<and> relative \<noteq> ''..'' \<and>
    \<not> has_prefix ''../'' relative")
  case True
  then obtain relative where r: "rel (dir path) (database_path v) = Inr relative"
    "relative \<noteq> ''..''" "\<not> has_prefix ''../'' relative" by blast
  note j = rel_join [OF is_abs_dir [OF path] db r]
  have "absolute_database path (encoded_value path v) = v\<lparr>database_path := clean (database_path v)\<rparr>"
    using r j by (simp add: encoded_value_def absolute_database_def)
  then show ?thesis using db clean_clean by (intro exI [of _ "clean (database_path v)"]) simp
next
  case False
  then have "encoded_value path v = v"
    by (cases "rel (dir path) (database_path v)") (auto simp: encoded_value_def)
  then show ?thesis using db by (intro exI [of _ "database_path v"]) (simp add: absolute_database_def)
qed

definition no_overrides :: "environment \<Rightarrow> bool" where
  "no_overrides env \<longleftrightarrow> trim_space (env_web env) = [] \<and> trim_space (env_socks5 env) = [] \<and>
     trim_space (env_database env) = []"

text \<open>
  after a successful save, loading the file again (without environment overrides) gives
  the configuration in use, with the same database file, and leaves the disk as it is.
\<close>

theorem save_then_load:
  assumes path: "is_abs (cs_path s)" "clean (cs_path s) = cs_path s"
    and save: "save_config io value (s, files) = (None, s', files')"
    and env: "no_overrides env"
  shows "\<exists>p. load cwd None env run io' logger (cs_path s) files' =
      (Inr (s'\<lparr>cs_config := (cs_config s')\<lparr>database_path := p\<rparr>\<rparr>), files', []) \<and>
    clean p = clean (database_path (cs_config s'))"
proof -
  let ?v = "cs_config s'" and ?path = "cs_path s"
  have s: "valid_config ?v" "cs_path s' = ?path" "?v = absolute_database ?path value"
    "files' ?path = Some (Inr (encode_config (encoded_value ?path ?v)))"
    using save_effect [OF save, unfolded option.case, THEN conjunct2] by blast+
  have "is_abs (database_path ?v)" using absolute_database_abs [OF path(1)] s(3) by simp
  from reload_database [OF path(1) this] obtain p where
    p: "absolute_database ?path (encoded_value ?path ?v) = ?v\<lparr>database_path := p\<rparr>"
      "clean p = clean (database_path ?v)" "is_abs p" by blast
  have "validate (?v\<lparr>database_path := p\<rparr>) = None"
    using valid_other_database [OF s(1) trim_space_abs [OF p(3)]] by (simp add: validate_iff)
  then have "load cwd None env run io' logger ?path files' =
      (Inr (s'\<lparr>cs_config := ?v\<lparr>database_path := p\<rparr>\<rparr>), files', [])"
    using path env s p(1)
    by (simp add: load_def path_abs_def read_encode apply_environment_overrides_def no_overrides_def)
  then show ?thesis using p(2) by blast
qed

section \<open>A sample\<close>

definition sample_io :: save_io where
  "sample_io = \<lparr>io_mkdir = None, io_write = None, io_rename = None, io_remove = True\<rparr>"

definition sample_cstore :: cstore where
  "sample_cstore = \<lparr>cs_path = ''/c/config.json'', cs_config = zero_config\<rparr>"

definition sample_saved :: "string option \<times> cstore \<times> disk" where
  "sample_saved = save_config sample_io (default_config ''h'' ''s'') (sample_cstore, Map.empty)"

definition sample_environment :: environment where
  "sample_environment = \<lparr>env_web = '' '', env_socks5 = [], env_database = []\<rparr>"

definition sample_first_run :: first_run where
  "sample_first_run = \<lparr>f_password = ''p'', f_hash = ''h'', f_secret = ''s''\<rparr>"

lemma sample_saved_ok:
  "save_config sample_io (default_config ''h'' ''s'') (sample_cstore, Map.empty) =
   (None, fst (snd sample_saved), snd (snd sample_saved))"
proof -
  let ?c = "default_config ''h'' ''s''" and ?path = "''/c/config.json''"
  have a: "is_abs ?path" by (simp add: is_abs_def)
  have "valid_config ?c" using default_valid [of "''h''" "''s''"] by (simp add: validate_iff)
  moreover have "absolute_database ?path ?c = ?c\<lparr>database_path := database_path (absolute_database ?path ?c)\<rparr>"
    by (simp add: absolute_database_def)
  ultimately have "validate (absolute_database ?path ?c) = None"
    using valid_other_database [OF _ trim_space_abs [OF absolute_database_abs [OF a, of ?c]], of ?c]
    by (metis validate_iff)
  then have "fst sample_saved = None"
    by (simp add: sample_saved_def save_config_def sample_io_def sample_cstore_def write_config_def Let_def)
  then show ?thesis by (simp add: sample_saved_def [symmetric] prod_eq_iff)
qed

lemma save_all_or_nothing_witness:
  "snd (snd sample_saved) ''/c/other.json'' = None \<and> valid_config (cs_config (fst (snd sample_saved)))"
proof -
  have "''/c/other.json'' \<noteq> cs_path sample_cstore" "''/c/other.json'' \<noteq> cs_path sample_cstore @ ''.tmp''"
    by (simp_all add: sample_cstore_def)
  then show ?thesis
    using save_all_or_nothing [OF sample_saved_ok, unfolded option.case] by (metis empty_iff)
qed

lemma save_then_load_witness:
  "\<exists>p. load (Inl ''no working directory'') None sample_environment sample_first_run sample_io True
      (cs_path sample_cstore) (snd (snd sample_saved)) =
      (Inr ((fst (snd sample_saved))\<lparr>cs_config := (cs_config (fst (snd sample_saved)))\<lparr>database_path := p\<rparr>\<rparr>),
       snd (snd sample_saved), []) \<and>
    clean p = clean (database_path (cs_config (fst (snd sample_saved))))"
proof (rule save_then_load [OF _ _ sample_saved_ok])
  show "is_abs (cs_path sample_cstore)" "clean (cs_path sample_cstore) = cs_path sample_cstore"
    by (simp_all add: sample_cstore_def is_abs_def clean_def elements_def)
  show "no_overrides sample_environment"
    by (simp add: no_overrides_def sample_environment_def trim_space_def trim_right_def trim_left.simps
        space_len_def space_runes_def)
qed

end
