(* ===== verification/GoBase64.thy ===== *)
theory GoBase64
  imports GoStrings
begin

text \<open>
  Go's \<open>encoding/base64\<close>: the standard and the URL alphabet, with and without padding. The
  decoder skips line breaks anywhere and does not insist on zero trailing bits.
\<close>

section \<open>Alphabets\<close>

definition std_alphabet :: string where
  "std_alphabet = ''ABCDEFGHIJKLMNOPQRSTUVWXYZabcdefghijklmnopqrstuvwxyz0123456789+/''"

definition url_alphabet :: string where
  "url_alphabet = ''ABCDEFGHIJKLMNOPQRSTUVWXYZabcdefghijklmnopqrstuvwxyz0123456789-_''"

definition sextet :: "string \<Rightarrow> char \<Rightarrow> nat option" where
  "sextet alphabet c = map_of (zip alphabet [0..<64]) c"

definition usable :: "string \<Rightarrow> bool" where
  "usable alphabet \<longleftrightarrow> length alphabet = 64 \<and> distinct alphabet \<and>
     set alphabet \<inter> {CHR 0x0A, CHR 0x0D, CHR ''='', CHR ''.''} = {}"

lemma usable_std: "usable std_alphabet" and usable_url: "usable url_alphabet"
  by (simp_all add: usable_def std_alphabet_def url_alphabet_def)

lemma sextet_nth: "usable alphabet \<Longrightarrow> n < 64 \<Longrightarrow> sextet alphabet (alphabet ! n) = Some n"
  by (simp add: sextet_def usable_def map_of_zip_nth)

section \<open>Encoding\<close>

text \<open>The six-bit digits of a 24-bit number.\<close>

definition sixbits :: "nat \<Rightarrow> nat \<Rightarrow> nat" where
  "sixbits n k = n div 64 ^ k mod 64"

definition digit64 :: "string \<Rightarrow> nat \<Rightarrow> nat \<Rightarrow> char" where
  "digit64 alphabet n k = alphabet ! sixbits n k"

fun encode64 :: "string \<Rightarrow> bool \<Rightarrow> bytes \<Rightarrow> string" where
  "encode64 al pad [] = []"
| "encode64 al pad [a] =
     (let n = unat a * 65536 in [digit64 al n 3, digit64 al n 2] @ (if pad then ''=='' else []))"
| "encode64 al pad [a, b] =
     (let n = unat a * 65536 + unat b * 256
      in [digit64 al n 3, digit64 al n 2, digit64 al n 1] @ (if pad then ''='' else []))"
| "encode64 al pad (a # b # c # bs) =
     (let n = unat a * 65536 + unat b * 256 + unat c
      in [digit64 al n 3, digit64 al n 2, digit64 al n 1, digit64 al n 0] @ encode64 al pad bs)"

section \<open>Decoding\<close>

definition bytes_of_quantum :: "nat \<Rightarrow> nat \<Rightarrow> nat \<Rightarrow> nat \<Rightarrow> bytes" where
  "bytes_of_quantum w x y z =
     (let n = w * 262144 + x * 4096 + y * 64 + z
      in [of_nat (n div 65536), of_nat (n div 256), of_nat n])"

text \<open>The decoder on text without line breaks; \<open>v\<close> gives the digits' values.\<close>

fun decode_quanta :: "bool \<Rightarrow> (char \<Rightarrow> nat option) \<Rightarrow> string \<Rightarrow> bytes option" where
  "decode_quanta pad v [] = Some []"
| "decode_quanta pad v [a] = None"
| "decode_quanta pad v [a, b] =
     (case (v a, v b) of
        (Some w, Some x) \<Rightarrow> if pad then None else Some (take 1 (bytes_of_quantum w x 0 0))
      | _ \<Rightarrow> None)"
| "decode_quanta pad v [a, b, c] =
     (case (v a, v b, v c) of
        (Some w, Some x, Some y) \<Rightarrow> if pad then None else Some (take 2 (bytes_of_quantum w x y 0))
      | _ \<Rightarrow> None)"
| "decode_quanta pad v (a # b # c # d # s) =
     (case (v a, v b) of
        (Some w, Some x) \<Rightarrow>
          (case v c of
             Some y \<Rightarrow>
               (case v d of
                  Some z \<Rightarrow> map_option (\<lambda>bs. bytes_of_quantum w x y z @ bs) (decode_quanta pad v s)
                | None \<Rightarrow>
                    if pad \<and> d = CHR ''='' \<and> s = [] then Some (take 2 (bytes_of_quantum w x y 0)) else None)
           | None \<Rightarrow>
               if pad \<and> c = CHR ''='' \<and> d = CHR ''='' \<and> s = []
               then Some (take 1 (bytes_of_quantum w x 0 0)) else None)
      | _ \<Rightarrow> None)"

definition decode64 :: "string \<Rightarrow> bool \<Rightarrow> string \<Rightarrow> bytes option" where
  "decode64 alphabet pad s =
     decode_quanta pad (sextet alphabet) (filter (\<lambda>c. c \<noteq> CHR 0x0A \<and> c \<noteq> CHR 0x0D) s)"

section \<open>Round trip\<close>

lemma sixbits_less: "sixbits n k < 64"
  by (simp add: sixbits_def)

lemma digit64_value [simp]: "usable al \<Longrightarrow> sextet al (digit64 al n k) = Some (sixbits n k)"
  by (simp add: digit64_def sextet_nth sixbits_less)

lemma digit64_member: "usable al \<Longrightarrow> digit64 al n k \<in> set al"
  by (simp add: digit64_def usable_def sixbits_less)

lemma pad_value: "usable al \<Longrightarrow> sextet al CHR ''='' = None"
  by (auto simp: sextet_def usable_def map_of_eq_None_iff dest: set_zip_leftD)

lemma join_digits:
  assumes "n < 16777216"
  shows "sixbits n 3 * 262144 + sixbits n 2 * 4096 + sixbits n 1 * 64 + sixbits n 0 = n"
proof -
  define p q r where "p = n div 64" and "q = p div 64" and "r = q div 64"
  have e: "n div 64 ^ 2 = q" "n div 64 ^ 3 = r"
    by (simp_all add: p_def q_def r_def div_mult2_eq [symmetric])
  have n: "n = 64 * p + n mod 64" and p: "p = 64 * q + p mod 64" and q: "q = 64 * r + q mod 64"
    by (simp_all add: p_def q_def r_def)
  have "r < 64" using assms n p q by linarith
  then have "sixbits n 3 = r" using e(2) by (simp only: sixbits_def mod_less)
  moreover have "sixbits n 2 = q mod 64" using e(1) by (simp only: sixbits_def)
  moreover have "sixbits n 1 = p mod 64" "sixbits n 0 = n mod 64" by (simp_all add: sixbits_def p_def)
  ultimately show ?thesis using n p q by linarith
qed

definition triple :: "byte \<Rightarrow> byte \<Rightarrow> byte \<Rightarrow> nat" where
  "triple a b c = unat a * 65536 + unat b * 256 + unat c"

lemma div_add_small: "(r :: nat) < m \<Longrightarrow> (m * x + r) div m = x"
  by simp

lemma triple_bytes:
  shows "triple a b c < 16777216" and "(of_nat (triple a b c div 65536) :: byte) = a"
    and "(of_nat (triple a b c div 256) :: byte) = b" and "(of_nat (triple a b c) :: byte) = c"
proof -
  have l: "unat a < 256" "unat b < 256" "unat c < 256" by simp_all
  show "triple a b c < 16777216" unfolding triple_def using l by linarith
  have w: "of_nat (256 * m + unat x) = (x :: byte)" for m x
  proof -
    have z: "(256 :: byte) = 0" by simp
    have "of_nat (256 * m) = (256 :: byte) * of_nat m" by simp
    also have "\<dots> = 0" by (simp only: z mult_zero_left)
    finally show ?thesis by (simp only: of_nat_add add_0_left of_nat_unat ucast_id)
  qed
  have "triple a b c = 65536 * unat a + (256 * unat b + unat c)" by (simp add: triple_def)
  moreover have "256 * unat b + unat c < 65536" using l by linarith
  ultimately have "triple a b c div 65536 = unat a" by (simp only: div_add_small)
  then show "(of_nat (triple a b c div 65536) :: byte) = a" by simp
  have "triple a b c = 256 * (256 * unat a + unat b) + unat c" by (simp add: triple_def)
  then have "triple a b c div 256 = 256 * unat a + unat b" using l(3) by (simp only: div_add_small)
  then show "(of_nat (triple a b c div 256) :: byte) = b" by (simp only: w)
  have "triple a b c = 256 * (256 * unat a + unat b) + unat c" by (simp add: triple_def)
  then show "(of_nat (triple a b c) :: byte) = c" by (simp only: w)
qed

lemma quantum_bytes:
  "bytes_of_quantum (sixbits (triple a b c) 3) (sixbits (triple a b c) 2) (sixbits (triple a b c) 1)
     (sixbits (triple a b c) 0) = [a, b, c]"
  unfolding bytes_of_quantum_def join_digits [OF triple_bytes(1)] Let_def triple_bytes(2-4) ..

lemma sixbits_zero: "sixbits (triple a b 0) 0 = 0" "sixbits (triple a 0 0) 1 = 0"
proof -
  have "triple a b 0 = 64 * (unat a * 1024 + unat b * 4)" by (simp add: triple_def)
  then show "sixbits (triple a b 0) 0 = 0" by (simp add: sixbits_def)
  have "triple a 0 0 = 64 * (64 * (unat a * 16))" by (simp add: triple_def)
  then show "sixbits (triple a 0 0) 1 = 0" by (simp add: sixbits_def)
qed

lemma encode64_triples:
  "encode64 al pad [a] = [digit64 al (triple a 0 0) 3, digit64 al (triple a 0 0) 2] @ (if pad then ''=='' else [])"
  "encode64 al pad [a, b] = [digit64 al (triple a b 0) 3, digit64 al (triple a b 0) 2, digit64 al (triple a b 0) 1] @
     (if pad then ''='' else [])"
  "encode64 al pad (a # b # c # bs) = [digit64 al (triple a b c) 3, digit64 al (triple a b c) 2,
     digit64 al (triple a b c) 1, digit64 al (triple a b c) 0] @ encode64 al pad bs"
  by (simp_all add: triple_def Let_def)

lemma decode_encode_quanta:
  "usable al \<Longrightarrow> decode_quanta pad (sextet al) (encode64 al pad bs) = Some bs"
proof (induction al pad bs rule: encode64.induct)
  case (2 al pad a)
  have "take 1 (bytes_of_quantum (sixbits (triple a 0 0) 3) (sixbits (triple a 0 0) 2) 0 0) = [a]"
    using quantum_bytes [of a 0 0] sixbits_zero(1) [of a 0] sixbits_zero(2) [of a] by simp
  then show ?case using 2 by (simp add: encode64_triples(1) pad_value del: encode64.simps)
next
  case (3 al pad a b)
  have "take 2 (bytes_of_quantum (sixbits (triple a b 0) 3) (sixbits (triple a b 0) 2)
      (sixbits (triple a b 0) 1) 0) = [a, b]"
    using quantum_bytes [of a b 0] sixbits_zero(1) [of a b] by simp
  then show ?case using 3 by (simp add: encode64_triples(2) pad_value del: encode64.simps)
next
  case (4 al pad a b c bs)
  then show ?case using quantum_bytes [of a b c] by (simp add: encode64_triples(3) del: encode64.simps)
qed simp

lemma encode64_chars: "usable al \<Longrightarrow> set (encode64 al pad bs) \<subseteq> set al \<union> (if pad then {CHR ''=''} else {})"
  by (induction al pad bs rule: encode64.induct) (auto simp: Let_def digit64_member)

lemma decode_encode64:
  assumes "usable al"
  shows "decode64 al pad (encode64 al pad bs) = Some bs"
proof -
  have "filter (\<lambda>c. c \<noteq> CHR 0x0A \<and> c \<noteq> CHR 0x0D) (encode64 al pad bs) = encode64 al pad bs"
    using encode64_chars [OF assms, of pad bs] assms
    by (intro filter_True) (auto simp: usable_def split: if_splits)
  then show ?thesis by (simp add: decode64_def decode_encode_quanta [OF assms])
qed

lemma encode64_no_dot: "usable al \<Longrightarrow> CHR ''.'' \<notin> set (encode64 al pad bs)"
  using encode64_chars [of al pad bs] by (auto simp: usable_def split: if_splits)

lemma encode64_inject: "usable al \<Longrightarrow> encode64 al pad a = encode64 al pad b \<longleftrightarrow> a = b"
  by (metis decode_encode64 option.inject)

end
