(* ===== verification/WebAuth.thy ===== *)
theory WebAuth
  imports ConfigStore GoBase64 GoTime
begin

text \<open>
  Sessions of the web interface, \<open>src/internal/server/auth.go\<close>. \<open>mac\<close> is HMAC-SHA-256 as a
  function of the key and the message, \<open>compare\<close> bcrypt's comparison of a hash and a
  password. A response is its status and either an error message or a body.
\<close>

section \<open>Responses\<close>

record 'b response =
  resp_status :: nat
  resp_body :: "string + 'b"

definition write_json :: "nat \<Rightarrow> 'b \<Rightarrow> 'b response" where
  "write_json status value = \<lparr>resp_status = status, resp_body = Inr value\<rparr>"

definition write_error :: "nat \<Rightarrow> string \<Rightarrow> 'b response" where
  "write_error status message = \<lparr>resp_status = status, resp_body = Inl message\<rparr>"

text \<open>\<open>decodeJSON\<close>: the input decoded from the body, or the answer that was written.\<close>

definition decode_json :: "'a result \<Rightarrow> ('a \<Rightarrow> 'b response) \<Rightarrow> 'b response" where
  "decode_json input k =
     (case input of Inl e \<Rightarrow> write_error 400 (''invalid JSON: '' @ e) | Inr x \<Rightarrow> k x)"

section \<open>Tokens\<close>

definition unix_seconds :: "time \<Rightarrow> int" where
  "unix_seconds t = t div 1000000000"

type_synonym mac = "bytes \<Rightarrow> bytes \<Rightarrow> bytes"

definition raw_url :: "bytes \<Rightarrow> string" where
  "raw_url = encode64 url_alphabet False"

definition session_payload :: "web_config \<Rightarrow> time \<Rightarrow> bytes" where
  "session_payload settings expires =
     bytes_of_string (web_username settings @ ''|'' @ show_int (unix_seconds expires))"

definition sign_session :: "mac \<Rightarrow> web_config \<Rightarrow> time \<Rightarrow> string" where
  "sign_session mac settings expires =
     (let payload = session_payload settings expires
      in raw_url payload @ ''.'' @ raw_url (mac (bytes_of_string (web_session_secret settings)) payload))"

definition verify_session :: "mac \<Rightarrow> time \<Rightarrow> web_config \<Rightarrow> string \<Rightarrow> bool" where
  "verify_session mac now settings token =
     (case split_on CHR ''.'' token of
        [p1, p2] \<Rightarrow>
          (case (decode64 url_alphabet False p1, decode64 url_alphabet False p2) of
             (Some payload_bytes, Some signature) \<Rightarrow>
               if signature \<noteq> mac (bytes_of_string (web_session_secret settings)) payload_bytes then False
               else
                 (case split_on CHR ''|'' (string_of_bytes payload_bytes) of
                    [user, expiry] \<Rightarrow>
                      if user \<noteq> web_username settings then False
                      else (case parse_int expiry of (expires, err) \<Rightarrow>
                        err = None \<and> unix_seconds now < expires)
                  | _ \<Rightarrow> False)
           | _ \<Rightarrow> False)
      | _ \<Rightarrow> False)"

record cookie =
  ck_value :: string
  ck_expires :: time
  ck_deleted :: bool
  ck_secure :: bool

definition session_duration :: int where
  "session_duration = 43200000000000"

definition session_cookie :: "mac \<Rightarrow> time \<Rightarrow> bool \<Rightarrow> web_config \<Rightarrow> cookie" where
  "session_cookie mac now secure settings =
     (let expires = now + session_duration
      in \<lparr>ck_value = sign_session mac settings expires, ck_expires = expires, ck_deleted = False,
          ck_secure = secure\<rparr>)"

record credentials =
  c_username :: string
  c_password :: string

definition login ::
  "mac \<Rightarrow> (string \<Rightarrow> string \<Rightarrow> bool) \<Rightarrow> time \<Rightarrow> bool \<Rightarrow> web_config \<Rightarrow> credentials result \<Rightarrow>
   bool response \<times> cookie option" where
  "login mac compare now secure settings input =
     (case input of
        Inl e \<Rightarrow> (write_error 400 (''invalid JSON: '' @ e), None)
      | Inr c \<Rightarrow>
          if c_username c \<noteq> web_username settings \<or>
             \<not> compare (web_password_hash settings) (c_password c)
          then (write_error 401 ''invalid username or password'', None)
          else (write_json 200 True, Some (session_cookie mac now secure settings)))"

definition logout :: "bool response \<times> cookie option" where
  "logout = (write_json 200 True,
     Some \<lparr>ck_value = [], ck_expires = 1000000000, ck_deleted = True, ck_secure = False\<rparr>)"

text \<open>The middleware before every other route of the API.\<close>

definition auth :: "mac \<Rightarrow> time \<Rightarrow> web_config \<Rightarrow> string \<Rightarrow> 'b response \<Rightarrow> 'b response" where
  "auth mac now settings token next =
     (if \<not> verify_session mac now settings token then write_error 401 ''authentication required'' else next)"

section \<open>What a token proves\<close>

lemma show_int_no_bar: "CHR ''|'' \<notin> set (show_int i)"
  by (auto simp: show_int_def show_nat_no_char)

lemma raw_url_decode [simp]: "decode64 url_alphabet False (raw_url bs) = Some bs"
  by (simp add: raw_url_def decode_encode64 usable_url)

lemma split_two: "d \<notin> set p \<Longrightarrow> d \<notin> set q \<Longrightarrow> split_on d (p @ d # q) = [p, q]"
  by (simp add: split_on_append split_on_none)

lemma raw_url_no_dot: "CHR ''.'' \<notin> set (raw_url bs)"
  by (simp add: raw_url_def encode64_no_dot usable_url)

lemma verify_signed:
  assumes "CHR ''|'' \<notin> set (web_username settings)"
    and "min_int64 \<le> unix_seconds expires" "unix_seconds expires \<le> max_int64"
  shows "verify_session mac now settings (sign_session mac settings expires) \<longleftrightarrow>
    unix_seconds now < unix_seconds expires"
proof -
  have "split_on CHR ''|'' (web_username settings @ CHR ''|'' # show_int (unix_seconds expires)) =
      [web_username settings, show_int (unix_seconds expires)]"
    by (rule split_two [OF assms(1) show_int_no_bar])
  then show ?thesis
    by (simp add: verify_session_def sign_session_def Let_def session_payload_def split_two raw_url_no_dot
        parse_int_show_int [OF assms(2,3)])
qed

lemma split_pair: "split_on d s = [p, q] \<Longrightarrow> s = p @ d # q"
  using join_split_on [of d s] by simp

lemma verify_session_D:
  assumes "verify_session mac now settings token"
  obtains p1 p2 payload expiry expires where "token = p1 @ CHR ''.'' # p2"
    "decode64 url_alphabet False p1 = Some payload"
    "decode64 url_alphabet False p2 = Some (mac (bytes_of_string (web_session_secret settings)) payload)"
    "split_on CHR ''|'' (string_of_bytes payload) = [web_username settings, expiry]"
    "parse_int expiry = (expires, None)" "unix_seconds now < expires"
proof -
  obtain p1 p2 where sp: "split_on CHR ''.'' token = [p1, p2]"
    using assms by (auto simp: verify_session_def split: list.splits)
  obtain payload sig where d: "decode64 url_alphabet False p1 = Some payload" "decode64 url_alphabet False p2 = Some sig"
    using assms sp by (auto simp: verify_session_def split: option.splits)
  obtain user expiry where e: "split_on CHR ''|'' (string_of_bytes payload) = [user, expiry]"
    using assms sp d by (auto simp: verify_session_def split: list.splits if_splits)
  obtain expires err where pi: "parse_int expiry = (expires, err)" by fastforce
  show ?thesis
    by (rule that [OF split_pair [OF sp] d(1), of expiry expires])
      (use assms sp d e pi in \<open>auto simp: verify_session_def split: if_splits\<close>)
qed

text \<open>
  C22: an accepted session token carries the configured user name and an expiry that has not
  passed, and its signature is the keyed hash of exactly that payload under the session
  secret: without the secret's hash function no token is accepted, nor one of another user or
  past its time.
\<close>

theorem session_unforgeable:
  assumes "verify_session mac now settings token"
  shows "\<exists>p1 p2 expiry expires.
    token = p1 @ ''.'' @ p2 \<and>
    decode64 url_alphabet False p1 = Some (bytes_of_string (web_username settings @ ''|'' @ expiry)) \<and>
    decode64 url_alphabet False p2 =
      Some (mac (bytes_of_string (web_session_secret settings))
             (bytes_of_string (web_username settings @ ''|'' @ expiry))) \<and>
    parse_int expiry = (expires, None) \<and> unix_seconds now < expires"
proof -
  from assms obtain p1 p2 payload expiry expires where t: "token = p1 @ CHR ''.'' # p2"
    "decode64 url_alphabet False p1 = Some payload"
    "decode64 url_alphabet False p2 = Some (mac (bytes_of_string (web_session_secret settings)) payload)"
    "split_on CHR ''|'' (string_of_bytes payload) = [web_username settings, expiry]"
    "parse_int expiry = (expires, None)" "unix_seconds now < expires"
    by (rule verify_session_D)
  have "string_of_bytes payload = web_username settings @ CHR ''|'' # expiry" using split_pair [OF t(4)] .
  then have "payload = bytes_of_string (web_username settings @ ''|'' @ expiry)"
    by (simp add: string_of_bytes_eq_iff)
  then show ?thesis using t by auto
qed

text \<open>
  A log-in with the configured user name and password opens a session that is accepted
  for twelve hours and no longer; any other log-in gets no cookie.
\<close>

theorem login_opens_session:
  assumes user: "CHR ''|'' \<notin> set (web_username settings)"
    and range: "min_int64 \<le> unix_seconds now" "unix_seconds now + 43200 \<le> max_int64"
  shows "case login mac compare now secure settings (Inr c) of (r, ck) \<Rightarrow>
    (if c_username c = web_username settings \<and> compare (web_password_hash settings) (c_password c)
     then resp_status r = 200 \<and> (\<exists>k. ck = Some k \<and>
       (\<forall>later. verify_session mac later settings (ck_value k) \<longleftrightarrow>
          unix_seconds later < unix_seconds now + 43200))
     else resp_status r = 401 \<and> ck = None)"
proof -
  have e: "unix_seconds (now + session_duration) = unix_seconds now + 43200"
    by (simp add: unix_seconds_def session_duration_def)
  have "verify_session mac later settings (sign_session mac settings (now + session_duration)) \<longleftrightarrow>
      unix_seconds later < unix_seconds now + 43200" for later
    using verify_signed [OF user, of "now + session_duration"] range by (simp add: e)
  then show ?thesis
    by (simp add: login_def write_json_def write_error_def session_cookie_def Let_def)
qed

text \<open>
  A user name with a bar can be configured but never used: no token is accepted, so whoever
  sets it is locked out of the API after logging in.
\<close>

lemma bar_locks_out: "CHR ''|'' \<in> set (web_username settings) \<Longrightarrow> \<not> verify_session mac now settings token"
proof
  assume bar: "CHR ''|'' \<in> set (web_username settings)" and v: "verify_session mac now settings token"
  from v obtain payload expiry where
    "split_on CHR ''|'' (string_of_bytes payload) = [web_username settings, expiry]"
    by (rule verify_session_D)
  then show False using split_on_parts [of "web_username settings" "CHR ''|''" "string_of_bytes payload"] bar
    by simp
qed

section \<open>A sample\<close>

definition sample_web :: web_config where
  "sample_web = web (default_config ''hash'' ''secret'')"

definition sample_mac :: mac where
  "sample_mac key message = rev key @ message"

lemma session_unforgeable_witness:
  "\<exists>p1 p2 expiry expires.
    sign_session sample_mac sample_web 5000000000 = p1 @ ''.'' @ p2 \<and>
    decode64 url_alphabet False p1 = Some (bytes_of_string (web_username sample_web @ ''|'' @ expiry)) \<and>
    decode64 url_alphabet False p2 =
      Some (sample_mac (bytes_of_string (web_session_secret sample_web))
             (bytes_of_string (web_username sample_web @ ''|'' @ expiry))) \<and>
    parse_int expiry = (expires, None) \<and> unix_seconds 4999999999 < expires"
proof (rule session_unforgeable)
  show "verify_session sample_mac 4999999999 sample_web (sign_session sample_mac sample_web 5000000000)"
    using verify_signed [of sample_web 5000000000 sample_mac 4999999999]
    by (simp add: sample_web_def default_config_def unix_seconds_def min_int64_def max_int64_def)
qed

lemma login_opens_session_witness:
  "case login sample_mac (\<lambda>h p. p = ''pw'') 1000000000 True sample_web
      (Inr \<lparr>c_username = ''admin'', c_password = ''pw''\<rparr>) of (r, ck) \<Rightarrow>
    (if c_username \<lparr>c_username = ''admin'', c_password = ''pw''\<rparr> = web_username sample_web \<and>
        (\<lambda>h p. p = ''pw'') (web_password_hash sample_web)
          (c_password \<lparr>c_username = ''admin'', c_password = ''pw''\<rparr>)
     then resp_status r = 200 \<and> (\<exists>k. ck = Some k \<and>
       (\<forall>later. verify_session sample_mac later sample_web (ck_value k) \<longleftrightarrow>
          unix_seconds later < unix_seconds 1000000000 + 43200))
     else resp_status r = 401 \<and> ck = None)"
  by (rule login_opens_session)
    (simp_all add: sample_web_def default_config_def unix_seconds_def min_int64_def max_int64_def)

end
