(* ===== verification/GoCsv.thy ===== *)
theory GoCsv
  imports GoNet
begin

text \<open>
  Go's \<open>encoding/csv\<close> reader with commas, \<open>LazyQuotes\<close> and any number of fields per record,
  on a text: with these options only the end of the text is an error.
\<close>

section \<open>Lines\<close>

text \<open>
  \<open>readLine\<close>: lines keep their line feed; a carriage return before it, or before the end of
  the text, is dropped.
\<close>

definition newline :: char where "newline = CHR 0x0A"
definition creturn :: char where "creturn = CHR 0x0D"

definition drop_cr :: "string \<Rightarrow> string" where
  "drop_cr line = (if line \<noteq> [] \<and> last line = creturn then butlast line else line)"

fun csv_lines :: "string \<Rightarrow> string \<Rightarrow> string list" where
  "csv_lines line [] = (if line = [] then [] else [drop_cr line])"
| "csv_lines line (c # cs) =
     (if c = newline then (drop_cr line @ [newline]) # csv_lines [] cs else csv_lines (line @ [c]) cs)"

section \<open>Fields\<close>

definition strip_newline :: "string \<Rightarrow> string" where
  "strip_newline line = (if line \<noteq> [] \<and> last line = newline then butlast line else line)"

definition next_line :: "string list \<Rightarrow> string \<times> string list" where
  "next_line ls = (case ls of [] \<Rightarrow> ([], []) | l # ls' \<Rightarrow> (l, ls'))"

text \<open>
  The loops of \<open>readRecord\<close>: at the start of a field (\<open>None\<close>), or inside quotes with what was
  read of the field so far. A quoted field may go over several lines.
\<close>

function csv_fields ::
  "string option \<Rightarrow> string list \<Rightarrow> string \<Rightarrow> string list \<Rightarrow> string list \<times> string list" where
  "csv_fields None acc line ls =
     (if line = [] \<or> hd line \<noteq> CHR 0x22 then
        (case char_index CHR '','' line of
           Some i \<Rightarrow> csv_fields None (acc @ [take i line]) (drop (Suc i) line) ls
         | None \<Rightarrow> (acc @ [strip_newline line], ls))
      else csv_fields (Some []) acc (tl line) ls)"
| "csv_fields (Some buf) acc line ls =
     (case char_index CHR 0x22 line of
        Some i \<Rightarrow>
          (let buf' = buf @ take i line; rest = drop (Suc i) line
           in if rest \<noteq> [] \<and> hd rest = CHR 0x22 then csv_fields (Some (buf' @ [CHR 0x22])) acc (tl rest) ls
              else if rest \<noteq> [] \<and> hd rest = CHR '','' then csv_fields None (acc @ [buf']) (tl rest) ls
              else if rest = [] \<or> rest = [newline] then (acc @ [buf'], ls)
              else csv_fields (Some (buf' @ [CHR 0x22])) acc rest ls)
      | None \<Rightarrow>
          if line \<noteq> []
          then csv_fields (Some (buf @ line)) acc (fst (next_line ls)) (snd (next_line ls))
          else (acc @ [buf], ls))"
  by pat_completeness auto

definition text_size :: "string \<Rightarrow> string list \<Rightarrow> nat" where
  "text_size line ls = length line + sum_list (map length ls)"

lemma text_size_next: "line \<noteq> [] \<Longrightarrow> text_size (fst (next_line ls)) (snd (next_line ls)) < text_size line ls"
  by (cases ls) (auto simp: next_line_def text_size_def)

lemma text_size_next_pair:
  "line \<noteq> [] \<Longrightarrow> (case next_line ls of (l, ls') \<Rightarrow> text_size l ls') < text_size line ls"
  using text_size_next [of line ls] by (simp add: case_prod_beta)

lemma char_index_less: "char_index d s = Some i \<Longrightarrow> i < length s"
  by (induction s arbitrary: i) (auto split: if_splits)

lemma text_size_drop: "char_index d s = Some i \<Longrightarrow> text_size (drop (Suc i) s) ls < text_size s ls"
  using char_index_less [of d s i] by (simp add: text_size_def)

lemma text_size_tl_drop: "char_index d s = Some i \<Longrightarrow> text_size (tl (drop (Suc i) s)) ls < text_size s ls"
  using char_index_less [of d s i] by (simp add: text_size_def)

lemma text_size_tl: "line \<noteq> [] \<Longrightarrow> text_size (tl line) ls < text_size line ls"
  by (cases line) (simp_all add: text_size_def)

termination csv_fields
  by (relation "measure (\<lambda>(m, acc, line, ls). text_size line ls)")
    (auto simp: text_size_next_pair text_size_drop text_size_tl_drop text_size_tl)

declare csv_fields.simps [simp del]

section \<open>Records\<close>

lemma length_next_line: "length (snd (next_line ls)) \<le> length ls"
  by (cases ls) (simp_all add: next_line_def)

lemma csv_fields_rest: "length (snd (csv_fields m acc line ls)) \<le> length ls"
proof (induction m acc line ls rule: csv_fields.induct)
  case (1 acc line ls)
  then show ?case by (subst csv_fields.simps) (auto split: option.splits)
next
  case (2 buf acc line ls)
  have n: "length (snd (next_line ls)) \<le> length ls" by (rule length_next_line)
  with 2 show ?case
    by (subst csv_fields.simps) (auto simp: Let_def split: option.splits intro: order_trans [OF _ n])
qed

text \<open>\<open>Read\<close> skips empty lines; \<open>None\<close> is the end of the text.\<close>

fun csv_read :: "string list \<Rightarrow> (string list \<times> string list) option" where
  "csv_read [] = None"
| "csv_read (l # ls) =
     (if l = [] \<or> l = [newline] then csv_read ls else Some (csv_fields None [] l ls))"

lemma csv_read_shorter: "csv_read ls = Some (r, ls') \<Longrightarrow> length ls' < length ls"
proof (induction ls)
  case (Cons l ls)
  then show ?case using csv_fields_rest [of None "[]" l ls] by (auto split: if_splits)
qed simp

function csv_records :: "string list \<Rightarrow> string list list" where
  "csv_records ls = (case csv_read ls of None \<Rightarrow> [] | Some (r, ls') \<Rightarrow> r # csv_records ls')"
  by pat_completeness auto
termination by (relation "measure length") (auto dest: csv_read_shorter)

declare csv_records.simps [simp del]

end
