(* ===== verification/VpnGate.thy ===== *)
theory VpnGate
  imports NodeModel GoBase64 GoCsv "HOL-Library.AList" "HOL-Library.Multiset" "HOL-Library.Sublist"
begin

text \<open>
  The VPN Gate client, \<open>src/internal/vpngate/client.go\<close>: downloading the node list, parsing its
  rows, and the filter expression. The HTTP client and the JavaScript engine (goja) are
  parameters; the CSV reader, base64 and address parsing are those of Go's library. The node map
  of \<open>ParseCSV\<close> is an association list, whose order of iteration is a parameter.
\<close>

section \<open>One row\<close>

definition decode_openvpn_config :: "string \<Rightarrow> string" where
  "decode_openvpn_config value =
     (let encoded = trim_space value
      in if encoded = [] then []
         else case decode64 std_alphabet True encoded of
             Some bs \<Rightarrow> string_of_bytes bs
           | None \<Rightarrow> (case decode64 std_alphabet False encoded of Some bs \<Rightarrow> string_of_bytes bs | None \<Rightarrow> []))"

definition parse_integer :: "string \<Rightarrow> int" where
  "parse_integer value = fst (parse_int (trim_space value))"

definition line_fields :: "string \<Rightarrow> string list" where
  "line_fields line = GoStrings.fields (trim_space line)"

definition config_lines :: "string \<Rightarrow> string list list" where
  "config_lines profile = map line_fields (split_on newline profile)"

definition port_value :: "string \<Rightarrow> int option" where
  "port_value s = (case atoi s of Some p \<Rightarrow> if 0 < p \<and> p \<le> 65535 then Some p else None | None \<Rightarrow> None)"

fun port_loop :: "int \<Rightarrow> string list list \<Rightarrow> int" where
  "port_loop port [] = port"
| "port_loop port (fs # rest) =
     (if length fs < 2 then port_loop port rest
      else case (if fs ! 0 = ''port'' then port_value (fs ! 1) else None) of
          Some p \<Rightarrow> p
        | None \<Rightarrow>
            port_loop
              (case (if fs ! 0 = ''remote'' \<and> length fs \<ge> 3 then port_value (fs ! 2) else None) of
                 Some p \<Rightarrow> p | None \<Rightarrow> port) rest)"

definition detect_port :: "string \<Rightarrow> int" where
  "detect_port profile = port_loop 443 (config_lines profile)"

definition transport_word :: "string list \<Rightarrow> string option" where
  "transport_word fs =
     (if length fs < 2 \<or> (fs ! 0 \<noteq> ''proto'' \<and> fs ! 0 \<noteq> ''remote'') then None
      else Some (to_lower (if fs ! 0 = ''remote'' \<and> length fs \<ge> 4 then fs ! 3 else fs ! 1)))"

fun seen_loop :: "bool \<times> bool \<Rightarrow> string list list \<Rightarrow> bool \<times> bool" where
  "seen_loop seen [] = seen"
| "seen_loop (udp, tcp) (fs # rest) =
     (case transport_word fs of
        None \<Rightarrow> seen_loop (udp, tcp) rest
      | Some w \<Rightarrow> seen_loop (udp \<or> has_prefix ''udp'' w, tcp \<or> has_prefix ''tcp'' w) rest)"

definition native_protocols :: "string list" where
  "native_protocols = [protocol_softether_tls, protocol_sstp, protocol_l2tp]"

definition detect_protocols :: "string \<Rightarrow> string list" where
  "detect_protocols profile =
     (let (udp, tcp) = seen_loop (False, False) (config_lines profile)
      in (if udp then [protocol_openvpn_udp] else []) @ native_protocols
         @ (if tcp then [protocol_openvpn_tcp] else []))"

definition parse_record :: "string list \<Rightarrow> time \<Rightarrow> node result" where
  "parse_record rec refreshed_at =
     (case parse_ip (trim_space (rec ! 1)) of
        None \<Rightarrow> Inl ''invalid IPv4 address''
      | Some a \<Rightarrow>
          if to4 a = None then Inl ''invalid IPv4 address''
          else
            let profile = (if length rec > 14 then decode_openvpn_config (rec ! 14) else [])
            in Inr (zero_node
                 \<lparr>n_host_name := trim_space (rec ! 0), n_ip := trim_space (rec ! 1),
                  n_port := detect_port profile, n_score := parse_integer (rec ! 2),
                  n_ping_ms := parse_integer (rec ! 3), n_speed_bps := parse_integer (rec ! 4),
                  n_country_long := rec ! 5, n_country_short := rec ! 6,
                  n_sessions := parse_integer (rec ! 7), n_uptime_ms := parse_integer (rec ! 8),
                  n_total_users := parse_integer (rec ! 9), n_total_traffic := parse_integer (rec ! 10),
                  n_log_type := rec ! 11, n_operator := rec ! 12, n_message := rec ! 13,
                  n_openvpn_config := profile, n_refreshed_at := refreshed_at,
                  n_protocols := detect_protocols profile\<rparr>))"

section \<open>The node list\<close>

type_synonym node_table = "(string \<times> node) list"

text \<open>One turn of the loop of \<open>ParseCSV\<close>.\<close>

definition keep_row :: "time \<Rightarrow> node_table \<Rightarrow> string list \<Rightarrow> node_table" where
  "keep_row refreshed_at table rec =
     (if length rec < 14 \<or> has_prefix ''*'' (rec ! 0) then table
      else case parse_record rec refreshed_at of
          Inl e \<Rightarrow> table
        | Inr n \<Rightarrow>
            if n_protocols n = [] then table
            else case map_of table (n_ip n) of
                None \<Rightarrow> AList.update (n_ip n) n table
              | Some current \<Rightarrow>
                  if n_score n > n_score current then AList.update (n_ip n) n table else table)"

definition csv_payload :: "string \<Rightarrow> string option" where
  "csv_payload input =
     (case (case index_of ''#HostName,'' input of None \<Rightarrow> index_of ''HostName,'' input | Some i \<Rightarrow> Some i) of
        None \<Rightarrow> None
      | Some i \<Rightarrow>
          if i \<ge> length input then None
          else (let payload = drop i input in Some (if has_prefix ''#'' payload then tl payload else payload)))"

definition parse_csv :: "(node_table \<Rightarrow> node_table) \<Rightarrow> string \<Rightarrow> time \<Rightarrow> node list result" where
  "parse_csv order input refreshed_at =
     (case csv_payload input of
        None \<Rightarrow> Inl ''VPN Gate CSV header was not found''
      | Some payload \<Rightarrow>
          (case csv_records (csv_lines [] payload) of
             [] \<Rightarrow> Inl ''read VPN Gate CSV header: EOF''
           | header # records \<Rightarrow>
               let nodes = map snd (order (foldl (keep_row refreshed_at) [] records))
               in if nodes = [] then Inl ''VPN Gate CSV contains no valid nodes'' else Inr nodes))"

section \<open>The filter expression\<close>

text \<open>
  \<open>netip.ParseAddr\<close> and \<open>netip.ParsePrefix\<close>. A prefix may not have a zone and an address with one
  is in no prefix, so a text with a zone is refused here altogether.
\<close>

definition parse_addr :: "string \<Rightarrow> bytes option" where
  "parse_addr s =
     (if CHR ''%'' \<in> set s then None
      else case first_mark s of
          None \<Rightarrow> None
        | Some c \<Rightarrow> if c = CHR ''.'' then parse_v4 s else parse_v6 s)"

definition parse_prefix :: "string \<Rightarrow> (bytes \<times> nat) option" where
  "parse_prefix s =
     (case last_char_index CHR ''/'' s of
        None \<Rightarrow> None
      | Some i \<Rightarrow>
          (case parse_addr (take i s) of
             None \<Rightarrow> None
           | Some a \<Rightarrow>
               let digits = drop (Suc i) s
               in if length digits > 1 \<and> (\<not> is_digit (hd digits) \<or> hd digits = CHR ''0'') then None
                  else case atoi digits of
                      None \<Rightarrow> None
                    | Some k \<Rightarrow> if k < 0 \<or> k > 8 * int (length a) then None else Some (a, nat k)))"

text \<open>The leading bits of an address, most significant first.\<close>

definition address_bits :: "bytes \<Rightarrow> bool list" where
  "address_bits a = concat (map (\<lambda>b. map (\<lambda>i. bit b (7 - i)) [0..<8]) a)"

definition cidr_contains :: "string \<Rightarrow> string \<Rightarrow> bool" where
  "cidr_contains cidr ip =
     (case (parse_prefix cidr, parse_addr ip) of
        (Some (p, k), Some a) \<Rightarrow>
          length p = length a \<and> take k (address_bits p) = take k (address_bits a)
      | _ \<Rightarrow> False)"

definition includes_ignore_case :: "string \<Rightarrow> string \<Rightarrow> bool" where
  "includes_ignore_case value search = contains (to_lower value) (to_lower search)"

datatype js_value = JsString string | JsInt int | JsStrings "string list"

type_synonym js_object = "(string \<times> js_value) list"

text \<open>
  The JavaScript engine: binding the two helper functions in a new runtime, compiling and running
  a program, taking its value as a function, and calling that with the node object within 100 ms.
  A call may change the runtime.
\<close>

record ('vm, 'p, 'v, 'fn) goja =
  gj_set :: "string \<Rightarrow> (string \<Rightarrow> string \<Rightarrow> bool) \<Rightarrow> 'vm \<Rightarrow> 'vm result"
  gj_new :: 'vm
  gj_compile :: "string \<Rightarrow> 'p result"
  gj_run :: "'p \<Rightarrow> 'vm \<Rightarrow> ('v \<times> 'vm) result"
  gj_function :: "'v \<Rightarrow> 'fn option"
  gj_call :: "'fn \<Rightarrow> js_object \<Rightarrow> 'vm \<Rightarrow> bool result \<times> 'vm"

record ('vm, 'fn) js_filter =
  jf_vm :: 'vm
  jf_function :: 'fn

definition filter_program :: "string \<Rightarrow> string" where
  "filter_program expression =
     ''(function(node) { 'use strict'; return Boolean('' @ expression @ ''); })''"

definition compile_filter ::
  "('vm, 'p, 'v, 'fn) goja \<Rightarrow> string \<Rightarrow> ('vm, 'fn) js_filter result" where
  "compile_filter js expression =
     (let expr = (if trim_space expression = [] then ''true'' else expression)
      in bind_result (gj_set js ''cidrContains'' cidr_contains (gj_new js)) (\<lambda>vm1.
         bind_result (gj_set js ''includesIgnoreCase'' includes_ignore_case vm1) (\<lambda>vm2.
           case gj_compile js (filter_program expr) of
             Inl e \<Rightarrow> Inl (''compile filter expression: '' @ e)
           | Inr program \<Rightarrow>
               (case gj_run js program vm2 of
                  Inl e \<Rightarrow> Inl (''initialize filter expression: '' @ e)
                | Inr (v, vm3) \<Rightarrow>
                    (case gj_function js v of
                       None \<Rightarrow> Inl ''filter expression did not create a function''
                     | Some fn \<Rightarrow> Inr \<lparr>jf_vm = vm3, jf_function = fn\<rparr>)))))"

definition filter_object :: "node \<Rightarrow> js_object" where
  "filter_object n =
     [(''hostName'', JsString (n_host_name n)), (''ip'', JsString (n_ip n)), (''score'', JsInt (n_score n)),
      (''pingMs'', JsInt (n_ping_ms n)), (''speedBps'', JsInt (n_speed_bps n)),
      (''countryLong'', JsString (n_country_long n)), (''countryShort'', JsString (n_country_short n)),
      (''sessions'', JsInt (n_sessions n)), (''uptimeMs'', JsInt (n_uptime_ms n)),
      (''totalUsers'', JsInt (n_total_users n)), (''totalTraffic'', JsInt (n_total_traffic n)),
      (''logType'', JsString (n_log_type n)), (''operator'', JsString (n_operator n)),
      (''operatorMessage'', JsString (n_message n)), (''protocols'', JsStrings (n_protocols n))]"

definition filter_match ::
  "('vm, 'p, 'v, 'fn) goja \<Rightarrow> ('vm, 'fn) js_filter \<Rightarrow> node \<Rightarrow> bool result \<times> ('vm, 'fn) js_filter" where
  "filter_match js f n =
     (let (answer, vm) = gj_call js (jf_function f) (filter_object n) (jf_vm f) in (answer, f\<lparr>jf_vm := vm\<rparr>))"

section \<open>Fetch\<close>

record http_response =
  hr_status :: nat
  hr_status_text :: string
  hr_body :: string
  hr_body_error :: "string option"

definition max_response_size :: nat where "max_response_size = 33554432"

text \<open>\<open>io.ReadAll\<close> of a limited reader: a failure of the body after the limit is not seen.\<close>

definition read_limited :: "nat \<Rightarrow> http_response \<Rightarrow> string result" where
  "read_limited n r =
     (if length (hr_body r) \<ge> n then Inr (take n (hr_body r))
      else case hr_body_error r of Some e \<Rightarrow> Inl e | None \<Rightarrow> Inr (hr_body r))"

fun filter_loop ::
  "('vm, 'p, 'v, 'fn) goja \<Rightarrow> ('vm, 'fn) js_filter \<Rightarrow> node list \<Rightarrow> node list \<Rightarrow> node list result" where
  "filter_loop js f kept [] = Inr kept"
| "filter_loop js f kept (n # ns) =
     (case filter_match js f n of
        (Inl e, f') \<Rightarrow> Inl (''filter node '' @ n_ip n @ '': '' @ e)
      | (Inr keep, f') \<Rightarrow> filter_loop js f' (if keep then kept @ [n] else kept) ns)"

definition fetch ::
  "(string \<Rightarrow> string option) \<Rightarrow> (string \<Rightarrow> http_response result) \<Rightarrow> ('vm, 'p, 'v, 'fn) goja \<Rightarrow>
   (node_table \<Rightarrow> node_table) \<Rightarrow> time \<Rightarrow> string \<Rightarrow> string \<Rightarrow> node list result" where
  "fetch bad_request get js order now source_url expression =
     (case bad_request source_url of
        Some e \<Rightarrow> Inl e
      | None \<Rightarrow>
          (case get source_url of
             Inl e \<Rightarrow> Inl (''download VPN Gate CSV: '' @ e)
           | Inr r \<Rightarrow>
               if hr_status r \<noteq> 200
               then Inl (''download VPN Gate CSV: unexpected HTTP status '' @ hr_status_text r)
               else case read_limited (max_response_size + 1) r of
                   Inl e \<Rightarrow> Inl (''read VPN Gate CSV: '' @ e)
                 | Inr input \<Rightarrow>
                     if length input > max_response_size then Inl ''VPN Gate CSV exceeds 32 MiB''
                     else bind_result (parse_csv order input now) (\<lambda>nodes.
                          bind_result (compile_filter js expression) (\<lambda>f. filter_loop js f [] nodes))))"

section \<open>The best row of an address\<close>

text \<open>The nodes of the rows that are not skipped, in file order.\<close>

definition row_node :: "time \<Rightarrow> string list \<Rightarrow> node option" where
  "row_node t rec =
     (if length rec < 14 \<or> has_prefix ''*'' (rec ! 0) then None
      else case parse_record rec t of Inl e \<Rightarrow> None | Inr n \<Rightarrow> Some n)"

definition row_nodes :: "time \<Rightarrow> string list list \<Rightarrow> node list" where
  "row_nodes t records = List.map_filter (row_node t) records"

text \<open>The first of the best scored nodes of its address.\<close>

definition best_row :: "node list \<Rightarrow> node \<Rightarrow> bool" where
  "best_row ns n \<longleftrightarrow> (\<exists>us vs. ns = us @ n # vs \<and>
     (\<forall>m \<in> set us. n_ip m = n_ip n \<longrightarrow> n_score m < n_score n) \<and>
     (\<forall>m \<in> set vs. n_ip m = n_ip n \<longrightarrow> n_score m \<le> n_score n))"

lemma best_row_Nil [simp]: "\<not> best_row [] n"
  by (simp add: best_row_def)

lemma best_row_last:
  assumes "\<forall>m \<in> set ns. n_ip m = n_ip n \<longrightarrow> n_score m < n_score n"
  shows "best_row (ns @ [n]) n"
  unfolding best_row_def using assms by (intro exI [of _ ns] exI [of _ "[]"]) simp

lemma best_row_keep:
  assumes "best_row ns n" and "n_ip m = n_ip n \<Longrightarrow> n_score m \<le> n_score n"
  shows "best_row (ns @ [m]) n"
proof -
  obtain us vs where "ns = us @ n # vs" "\<forall>m \<in> set us. n_ip m = n_ip n \<longrightarrow> n_score m < n_score n"
    "\<forall>m \<in> set vs. n_ip m = n_ip n \<longrightarrow> n_score m \<le> n_score n"
    using assms(1) unfolding best_row_def by blast
  then show ?thesis
    unfolding best_row_def using assms(2) by (intro exI [of _ us] exI [of _ "vs @ [m]"]) auto
qed

lemma best_row_member: "best_row ns n \<Longrightarrow> n \<in> set ns"
  unfolding best_row_def by auto

lemma best_row_top: "best_row ns n \<Longrightarrow> m \<in> set ns \<Longrightarrow> n_ip m = n_ip n \<Longrightarrow> n_score m \<le> n_score n"
  unfolding best_row_def by fastforce

lemma best_row_unique:
  assumes "n_ip a = n_ip b" and "best_row ns a" and "best_row ns b"
  shows "a = b"
proof -
  obtain us vs where a: "ns = us @ a # vs" "\<forall>m \<in> set us. n_ip m = n_ip a \<longrightarrow> n_score m < n_score a"
    "\<forall>m \<in> set vs. n_ip m = n_ip a \<longrightarrow> n_score m \<le> n_score a"
    using assms(2) unfolding best_row_def by blast
  obtain us' vs' where b: "ns = us' @ b # vs'" "\<forall>m \<in> set us'. n_ip m = n_ip b \<longrightarrow> n_score m < n_score b"
    "\<forall>m \<in> set vs'. n_ip m = n_ip b \<longrightarrow> n_score m \<le> n_score b"
    using assms(3) unfolding best_row_def by blast
  have "b \<notin> set us" "a \<notin> set us'"
    using a b assms best_row_top [OF assms(2) best_row_member [OF assms(3)]]
      best_row_top [OF assms(3) best_row_member [OF assms(2)]] by fastforce+
  moreover have "us @ a # vs = us' @ b # vs'" using a(1) b(1) by simp
  ultimately show ?thesis by (auto simp: append_eq_append_conv2 append_eq_Cons_conv Cons_eq_append_conv)
qed

text \<open>What the loop keeps true of its table.\<close>

definition table_ok :: "node list \<Rightarrow> node_table \<Rightarrow> bool" where
  "table_ok ns table \<longleftrightarrow> distinct (map fst table) \<and>
     (\<forall>ip n. map_of table ip = Some n \<longrightarrow> n_ip n = ip \<and> best_row ns n) \<and>
     (\<forall>m \<in> set ns. map_of table (n_ip m) \<noteq> None)"

lemma detect_protocols_nonempty: "detect_protocols profile \<noteq> []"
  by (simp add: detect_protocols_def native_protocols_def split: prod.split)

lemma parse_record_protocols: "parse_record rec t = Inr n \<Longrightarrow> n_protocols n \<noteq> []"
  by (auto simp: parse_record_def Let_def detect_protocols_nonempty split: option.splits if_splits)

lemma keep_row_eq:
  "keep_row t table rec =
     (case row_node t rec of
        None \<Rightarrow> table
      | Some n \<Rightarrow>
          (case map_of table (n_ip n) of
             None \<Rightarrow> AList.update (n_ip n) n table
           | Some current \<Rightarrow>
               if n_score n > n_score current then AList.update (n_ip n) n table else table))"
  by (simp add: keep_row_def row_node_def parse_record_protocols split: sum.split)

lemma table_ok_update:
  assumes ok: "table_ok ns table"
    and new: "\<And>c. map_of table (n_ip n) = Some c \<Longrightarrow> n_score c < n_score n"
  shows "table_ok (ns @ [n]) (AList.update (n_ip n) n table)"
proof -
  have best: "best_row ns c" "n_ip c = ip" if "map_of table ip = Some c" for ip c
    using ok that unfolding table_ok_def by blast+
  have last: "best_row (ns @ [n]) n"
  proof (rule best_row_last, intro ballI impI)
    fix m assume m: "m \<in> set ns" "n_ip m = n_ip n"
    then obtain c where c: "map_of table (n_ip n) = Some c" using ok unfolding table_ok_def by force
    with best [OF c] m have "n_score m \<le> n_score c" by (simp add: best_row_top)
    with new [OF c] show "n_score m < n_score n" by simp
  qed
  have others: "best_row (ns @ [n]) c" if c: "map_of table ip = Some c" and ip: "ip \<noteq> n_ip n" for ip c
    using best [OF c] ip by (intro best_row_keep) auto
  show ?thesis
    unfolding table_ok_def AList.update_conv'
    using ok last others best by (auto simp: table_ok_def distinct_update)
qed

lemma table_ok_skip:
  assumes ok: "table_ok ns table" and c: "map_of table (n_ip n) = Some c" "n_score n \<le> n_score c"
  shows "table_ok (ns @ [n]) table"
proof -
  have "best_row (ns @ [n]) d \<and> n_ip d = ip" if d: "map_of table ip = Some d" for ip d
  proof -
    have d': "best_row ns d" "n_ip d = ip" using ok d unfolding table_ok_def by blast+
    moreover have "n_score n \<le> n_score d" if "n_ip n = n_ip d" using that d d' c by simp
    ultimately show ?thesis by (simp add: best_row_keep)
  qed
  then show ?thesis using ok c unfolding table_ok_def by auto
qed

lemma keep_row_ok:
  assumes "table_ok ns table"
  shows "table_ok (ns @ row_nodes t [rec]) (keep_row t table rec)"
proof (cases "row_node t rec")
  case None
  with assms show ?thesis by (simp add: keep_row_eq row_nodes_def map_filter_simps)
next
  case (Some n)
  with assms show ?thesis
    by (auto simp: keep_row_eq row_nodes_def map_filter_simps split: option.split
        intro: table_ok_update table_ok_skip)
qed

lemma row_nodes_append: "row_nodes t (as @ bs) = row_nodes t as @ row_nodes t bs"
  by (simp add: row_nodes_def List.map_filter_def)

lemma table_ok_loop: "table_ok (row_nodes t records) (foldl (keep_row t) [] records)"
proof (induction records rule: rev_induct)
  case Nil
  then show ?case by (simp add: table_ok_def row_nodes_def map_filter_simps)
next
  case (snoc rec records)
  then show ?case using keep_row_ok by (simp add: row_nodes_append)
qed

text \<open>The rows of a download: what follows the header.\<close>

definition csv_rows :: "string \<Rightarrow> string list list" where
  "csv_rows input = (case csv_payload input of None \<Rightarrow> [] | Some p \<Rightarrow> tl (csv_records (csv_lines [] p)))"

lemma parse_csv_Inr:
  "parse_csv order input t = Inr nodes \<longleftrightarrow>
     nodes = map snd (order (foldl (keep_row t) [] (csv_rows input))) \<and> nodes \<noteq> [] \<and>
     csv_payload input \<noteq> None \<and> csv_records (csv_lines [] (the (csv_payload input))) \<noteq> []"
  by (auto simp: parse_csv_def csv_rows_def Let_def split: option.splits list.splits)

lemma table_nodes:
  assumes ok: "table_ok ns table"
  shows "set (map snd table) = {n. best_row ns n}" and "distinct (map n_ip (map snd table))"
proof -
  have d: "distinct (map fst table)"
    and m: "map_of table ip = Some n \<Longrightarrow> n_ip n = ip \<and> best_row ns n"
    and a: "m \<in> set ns \<Longrightarrow> map_of table (n_ip m) \<noteq> None" for ip n m
    using ok unfolding table_ok_def by blast+
  have key: "fst e = n_ip (snd e)" if "e \<in> set table" for e
    using m [of "fst e" "snd e"] d that by (metis map_of_eq_Some_iff prod.collapse)
  have "n \<in> snd ` set table" if b: "best_row ns n" for n
  proof -
    obtain c where c: "map_of table (n_ip n) = Some c" using a best_row_member [OF b] by blast
    then have "n_ip c = n_ip n" and "best_row ns c" using m by blast+
    with b have "c = n" by (rule best_row_unique [rotated 2])
    with c show ?thesis by (metis map_of_SomeD image_eqI snd_conv)
  qed
  moreover have "best_row ns n" if "n \<in> snd ` set table" for n
    using that m d by (metis imageE map_of_eq_Some_iff prod.collapse)
  ultimately show "set (map snd table) = {n. best_row ns n}" by auto
  have "map n_ip (map snd table) = map fst table" using key by simp
  then show "distinct (map n_ip (map snd table))" using d by (simp only:)
qed

lemma permuted_map:
  assumes "\<forall>xs. mset (order xs) = mset xs"
  shows "mset (map f (order xs)) = mset (map f xs)"
  using assms by simp

lemma parse_csv_nodes:
  assumes order: "\<forall>xs. mset (order xs) = mset xs"
    and r: "parse_csv order input t = Inr nodes"
  shows "set nodes = {n. best_row (row_nodes t (csv_rows input)) n}" and "distinct (map n_ip nodes)"
    and "nodes \<noteq> []"
proof -
  let ?table = "foldl (keep_row t) [] (csv_rows input)"
  have n: "nodes = map snd (order ?table)" and "nodes \<noteq> []" using r unfolding parse_csv_Inr by blast+
  then show "nodes \<noteq> []" by blast
  have ok: "table_ok (row_nodes t (csv_rows input)) ?table" by (rule table_ok_loop)
  have e: "mset (map f nodes) = mset (map f (map snd ?table))" for f :: "node \<Rightarrow> 'a"
    unfolding n map_map by (rule permuted_map [OF order])
  show "set nodes = {n. best_row (row_nodes t (csv_rows input)) n}"
    using mset_eq_setD [OF e [of id]] table_nodes(1) [OF ok] by simp
  show "distinct (map n_ip nodes)"
    using mset_eq_imp_distinct_iff [OF e [of n_ip]] table_nodes(2) [OF ok] by simp
qed

lemma set_map_filter: "y \<in> set (List.map_filter f xs) \<longleftrightarrow> (\<exists>x \<in> set xs. f x = Some y)"
  by (induction xs) (auto simp: map_filter_simps split: option.split)

section \<open>What is read off a profile\<close>

text \<open>The first valid \<open>port\<close> directive wins over the last valid \<open>remote\<close> one.\<close>

definition port_directive :: "string list \<Rightarrow> int option" where
  "port_directive fs = (if length fs \<ge> 2 \<and> fs ! 0 = ''port'' then port_value (fs ! 1) else None)"

definition remote_directive :: "string list \<Rightarrow> int option" where
  "remote_directive fs = (if length fs \<ge> 3 \<and> fs ! 0 = ''remote'' then port_value (fs ! 2) else None)"

lemma port_loop_eq:
  "port_loop port ls =
     (case List.map_filter port_directive ls of p # ps \<Rightarrow> p
      | [] \<Rightarrow> last (port # List.map_filter remote_directive ls))"
proof (induction ls arbitrary: port)
  case Nil
  then show ?case by (simp add: map_filter_simps)
next
  case (Cons fs ls)
  have r: "remote_directive fs = None \<or> port_directive fs = None"
    by (auto simp: remote_directive_def port_directive_def)
  show ?case
  proof (cases "port_directive fs")
    case (Some p)
    then show ?thesis by (auto simp: port_directive_def map_filter_simps split: if_splits)
  next
    case None
    then have "port_loop port (fs # ls) = port_loop (case remote_directive fs of Some p \<Rightarrow> p | None \<Rightarrow> port) ls"
      by (auto simp: port_directive_def remote_directive_def split: option.splits)
    with None Cons.IH show ?thesis
      by (auto simp: map_filter_simps split: option.split list.split)
  qed
qed

lemma seen_loop_eq:
  "seen_loop (udp, tcp) ls =
     (udp \<or> (\<exists>w \<in> set (List.map_filter transport_word ls). has_prefix ''udp'' w),
      tcp \<or> (\<exists>w \<in> set (List.map_filter transport_word ls). has_prefix ''tcp'' w))"
  by (induction ls arbitrary: udp tcp) (auto simp: map_filter_simps split: option.split)

lemma port_value_range: "port_value s = Some p \<Longrightarrow> 1 \<le> p \<and> p \<le> 65535"
  by (auto simp: port_value_def split: option.splits if_splits)

lemma directive_range:
  "p \<in> set (List.map_filter port_directive ls) \<or> p \<in> set (List.map_filter remote_directive ls) \<Longrightarrow>
   1 \<le> p \<and> p \<le> 65535"
  by (auto simp: set_map_filter port_directive_def remote_directive_def
      split: if_splits dest: port_value_range)

lemma detect_port_range: "1 \<le> detect_port profile \<and> detect_port profile \<le> 65535"
proof (cases "List.map_filter port_directive (config_lines profile)")
  case Nil
  then have "detect_port profile \<in> insert 443 (set (List.map_filter remote_directive (config_lines profile)))"
    using last_in_set by (simp add: detect_port_def port_loop_eq)
  then show ?thesis using directive_range by force
next
  case (Cons p ps)
  then have "detect_port profile \<in> set (List.map_filter port_directive (config_lines profile))"
    by (simp add: detect_port_def port_loop_eq)
  then show ?thesis using directive_range by blast
qed


section \<open>Valid nodes\<close>

definition in_int64 :: "int \<Rightarrow> bool" where
  "in_int64 i \<longleftrightarrow> min_int64 \<le> i \<and> i \<le> max_int64"

lemma parse_integer_range: "in_int64 (parse_integer s)"
  by (simp add: in_int64_def parse_integer_def parse_int_range)

definition valid_node :: "node \<Rightarrow> bool" where
  "valid_node n \<longleftrightarrow>
     (\<exists>a. parse_ip (n_ip n) = Some a \<and> to4 a \<noteq> None) \<and> 1 \<le> n_port n \<and> n_port n \<le> 65535 \<and>
     set native_protocols \<subseteq> set (n_protocols n) \<and>
     set (n_protocols n) \<subseteq> insert protocol_openvpn_udp (insert protocol_openvpn_tcp (set native_protocols)) \<and>
     distinct (n_protocols n) \<and>
     (\<forall>i \<in> {n_score n, n_ping_ms n, n_speed_bps n, n_sessions n, n_uptime_ms n, n_total_users n,
       n_total_traffic n}. in_int64 i)"

lemma detect_protocols_set:
  "set native_protocols \<subseteq> set (detect_protocols profile)"
  "set (detect_protocols profile) \<subseteq> insert protocol_openvpn_udp (insert protocol_openvpn_tcp (set native_protocols))"
  "distinct (detect_protocols profile)"
  by (auto simp: detect_protocols_def native_protocols_def protocol_defs seen_loop_eq)

lemma parse_record_valid: "parse_record rec t = Inr n \<Longrightarrow> valid_node n \<and> n_refreshed_at n = t"
  by (auto simp: parse_record_def valid_node_def Let_def parse_integer_range detect_port_range
      detect_protocols_set(3) subsetD [OF detect_protocols_set(1)]
      dest: subsetD [OF detect_protocols_set(2)] split: option.splits if_splits)

lemma row_node_valid: "row_node t rec = Some n \<Longrightarrow> valid_node n \<and> n_refreshed_at n = t"
  by (cases "parse_record rec t") (auto simp: row_node_def parse_record_valid split: if_splits)

lemma row_nodes_valid: "n \<in> set (row_nodes t records) \<Longrightarrow> valid_node n \<and> n_refreshed_at n = t"
  using row_node_valid by (auto simp: row_nodes_def set_map_filter)

lemma parse_csv_spec:
  assumes order: "\<forall>xs. mset (order xs) = mset xs"
  shows "(case parse_csv order input t of
      Inr nodes \<Rightarrow>
        set nodes = {n. best_row (row_nodes t (csv_rows input)) n} \<and> distinct (map n_ip nodes) \<and>
        nodes \<noteq> [] \<and> (\<forall>n \<in> set nodes. valid_node n \<and> n_refreshed_at n = t)
    | Inl e \<Rightarrow> row_nodes t (csv_rows input) = [])"
proof (cases "parse_csv order input t")
  case (Inr nodes)
  note n = parse_csv_nodes [OF order Inr]
  have "valid_node n \<and> n_refreshed_at n = t" if "n \<in> set nodes" for n
    using that n(1) by (metis best_row_member mem_Collect_eq row_nodes_valid)
  with n Inr show ?thesis by simp
next
  case (Inl e)
  let ?table = "foldl (keep_row t) [] (csv_rows input)"
  have "order ?table = [] \<or> csv_rows input = []"
    using Inl by (auto simp: parse_csv_def csv_rows_def Let_def split: option.splits list.splits if_splits)
  then have "?table = []" using order by (metis foldl_Nil mset_zero_iff)
  moreover have "table_ok (row_nodes t (csv_rows input)) ?table" by (rule table_ok_loop)
  ultimately have "row_nodes t (csv_rows input) = []" by (auto simp: table_ok_def)
  with Inl show ?thesis by simp
qed

subsection \<open>A small file\<close>

definition sample_csv :: string where
  "sample_csv = ''*v'' @ [newline] @ ''#HostName,IP'' @ [newline] @ ''a,1.2.3.4,5,,,,,,,,,,,'' @ [newline]
     @ ''b,1.2.3.4,9,,,,,,,,,,,'' @ [newline] @ ''*'' @ [newline]"

lemma sample_payload: "csv_payload sample_csv = Some (''HostName,IP'' @ [newline] @ ''a,1.2.3.4,5,,,,,,,,,,,'' @ [newline]
     @ ''b,1.2.3.4,9,,,,,,,,,,,'' @ [newline] @ ''*'' @ [newline])"
  by (simp add: csv_payload_def sample_csv_def newline_def)

lemma sample_lines: "csv_lines [] (''HostName,IP'' @ [newline] @ ''a,1.2.3.4,5,,,,,,,,,,,'' @ [newline]
     @ ''b,1.2.3.4,9,,,,,,,,,,,'' @ [newline] @ ''*'' @ [newline]) = 
  [''HostName,IP'' @ [newline], ''a,1.2.3.4,5,,,,,,,,,,,'' @ [newline], ''b,1.2.3.4,9,,,,,,,,,,,'' @ [newline],''*'' @ [newline]]"
  by (simp add: newline_def drop_cr_def creturn_def)

lemma sample_rows: "csv_rows sample_csv = 
  [[''a'',''1.2.3.4'',''5'',[],[],[],[],[],[],[],[],[],[],[]],[''b'',''1.2.3.4'',''9'',[],[],[],[],[],[],[],[],[],[],[]],[''*'']]"
  unfolding csv_rows_def sample_payload option.case sample_lines
  by (simp add: newline_def csv_records.simps csv_fields.simps strip_newline_def)

lemma sample_trim: "trim_space ''1.2.3.4'' = ''1.2.3.4''" "trim_space ''a'' = ''a''" "trim_space ''b'' = ''b''" "trim_space ''5'' = ''5''" "trim_space ''9'' = ''9''"
  by (simp_all add: trim_space_def trim_right_def trim_left.simps space_len_def space_runes_def)
definition csv_node :: "string \<Rightarrow> int \<Rightarrow> node" where
  "csv_node host score = zero_node\<lparr>n_host_name := host, n_ip := ''1.2.3.4'', n_port := 443, n_score := score,
     n_protocols := native_protocols\<rparr>"

lemma sample_ip: "parse_ip ''1.2.3.4'' = Some (ipv4 1 2 3 4)"
  by (simp add: parse_ip_def parse_v4_def ipv4_def v4_prefix_def is_digit_def digit_value_def)

lemma sample_integers: "parse_integer [] = 0" "parse_integer ''5'' = 5" "parse_integer ''9'' = 9"
  by (simp_all add: parse_integer_def sample_trim parse_int_def parse_uint_def is_digit_def digit_value_def max_uint64_def max_int64_def)

lemma sample_profile: "detect_port [] = 443" "detect_protocols [] = native_protocols"
  by (simp_all add: detect_port_def detect_protocols_def config_lines_def line_fields_def fields.simps trim_left.simps space_len_def space_runes_def transport_word_def)

lemma sample_keep: "keep_row zero_time [] (''a'' # ''1.2.3.4'' # ''5'' # replicate 11 []) = [(''1.2.3.4'', csv_node ''a'' 5)]"
 "keep_row zero_time [(''1.2.3.4'', csv_node ''a'' 5)] (''b'' # ''1.2.3.4'' # ''9'' # replicate 11 []) = [(''1.2.3.4'', csv_node ''b'' 9)]"
  "keep_row zero_time tb [''*''] = tb"
  by (simp_all add: keep_row_eq row_node_def parse_record_def sample_ip sample_integers sample_profile sample_trim numeral_eq_Suc csv_node_def zero_node_def)

lemma sample_table: "foldl (keep_row zero_time) [] (csv_rows sample_csv) = [(''1.2.3.4'', csv_node ''b'' 9)]"
  unfolding sample_rows using sample_keep by (simp add: numeral_eq_Suc)

lemma sample_parse: "parse_csv rev sample_csv zero_time = Inr [csv_node ''b'' 9]"
  unfolding parse_csv_Inr sample_table sample_payload option.sel sample_lines
  by (simp add: newline_def csv_records.simps csv_fields.simps)

text \<open>
  C16: What \<open>ParseCSV\<close> returns, whatever order the map is iterated in: for every address in the
  file, exactly one node, the first of its best scored rows; at least one node, all of them
  IPv4 nodes with a usable port, known protocols including the native ones, and numbers that fit
  64 bits. It fails exactly when the file has no header or no usable row.
\<close>

theorem parse_csv_best:
  assumes "\<forall>xs. mset (order xs) = mset xs"
  shows "(case parse_csv order input t of
      Inr nodes \<Rightarrow>
        set nodes = {n. best_row (row_nodes t (csv_rows input)) n} \<and> distinct (map n_ip nodes) \<and>
        nodes \<noteq> [] \<and> (\<forall>n \<in> set nodes. valid_node n \<and> n_refreshed_at n = t)
    | Inl e \<Rightarrow> row_nodes t (csv_rows input) = [])"
  using parse_csv_spec [OF assms] .

theorem parse_csv_best_witness:
  "\<exists>n. parse_csv rev sample_csv zero_time = Inr [n] \<and> n_host_name n = ''b'' \<and> n_score n = 9 \<and> valid_node n \<and>
     best_row (row_nodes zero_time (csv_rows sample_csv)) n"
  using parse_csv_best [of rev zero_time sample_csv] unfolding sample_parse
  by (intro exI [of _ "csv_node ''b'' 9"]) (auto simp: csv_node_def)

section \<open>The filtered list\<close>

lemma filter_loop_Inr:
  "filter_loop js f kept ns = Inr result \<Longrightarrow> \<exists>rest. result = kept @ rest \<and> subseq rest ns"
proof (induction js f kept ns rule: filter_loop.induct)
  case (1 js f kept)
  then show ?case by simp
next
  case (2 js f kept n ns)
  then obtain keep f' where m: "filter_match js f n = (Inr keep, f')"
    and r: "filter_loop js f' (if keep then kept @ [n] else kept) ns = Inr result"
    by (auto split: prod.splits sum.splits)
  then obtain rest where "result = (if keep then kept @ [n] else kept) @ rest" "subseq rest ns"
    using "2.IH" [OF m [symmetric] refl] by blast
  then show ?case by (cases keep) (auto intro: exI [of _ "n # rest"])
qed

text \<open>A filter without state keeps the nodes it accepts.\<close>

lemma filter_loop_pure:
  assumes "\<And>n f'. n \<in> set ns \<Longrightarrow> jf_function f' = jf_function f \<Longrightarrow> fst (filter_match js f' n) = Inr (pred n)"
  shows "filter_loop js f kept ns = Inr (kept @ filter pred ns)"
  using assms
proof (induction ns arbitrary: f kept)
  case Nil
  then show ?case by simp
next
  case (Cons n ns)
  obtain f' where m: "filter_match js f n = (Inr (pred n), f')"
    using Cons.prems [of n f] by (metis list.set_intros(1) prod.collapse)
  then have "jf_function f' = jf_function f" by (auto simp: filter_match_def split: prod.splits)
  with Cons show ?case by (simp add: m)
qed

lemma subseq_facts:
  "subseq xs ys \<Longrightarrow> set xs \<subseteq> set ys \<and> (distinct (map f ys) \<longrightarrow> distinct (map f xs))"
  by (induction rule: list_emb.induct) auto

text \<open>
  What a successful \<open>Fetch\<close> guarantees whatever the server and the filter do: a sublist of the
  parsed nodes, so distinct addresses and valid nodes only.
\<close>

lemma fetch_Inr:
  assumes order: "\<forall>xs. mset (order xs) = mset xs"
    and r: "fetch bad get js order now url expression = Inr ns"
  shows "distinct (map n_ip ns)" and "\<forall>n \<in> set ns. valid_node n"
proof -
  obtain input nodes f where p: "parse_csv order input now = Inr nodes"
    and l: "filter_loop js f [] nodes = Inr ns"
    using r by (auto simp: fetch_def bind_result_Inr_iff split: option.splits sum.splits if_splits)
  have n: "distinct (map n_ip nodes)" "\<forall>n \<in> set nodes. valid_node n"
    using parse_csv_spec [OF order, of now input] unfolding p by auto
  have "subseq ns nodes" using filter_loop_Inr [OF l] by simp
  then show "distinct (map n_ip ns)" "\<forall>n \<in> set ns. valid_node n"
    using n subseq_facts [of ns nodes n_ip] by blast+
qed

end
