(* ===== verification/Refresher.thy ===== *)
theory Refresher
  imports VpnGate NodeStore
begin

text \<open>
  The refresher, \<open>src/internal/vpngate/refresher.go\<close>: the one-place trigger channel, the lock and
  the reported state, one refresh from the download to the node store, and the loop of \<open>Run\<close> as a
  step relation against the web interface's triggers.
\<close>

section \<open>State and operations\<close>

record refresher =
  rf_trigger :: bool
  rf_locked :: bool
  rf_running :: bool
  rf_last_err :: "string option"

definition new_refresher :: refresher where
  "new_refresher = \<lparr>rf_trigger = False, rf_locked = False, rf_running = False, rf_last_err = None\<rparr>"

text \<open>\<open>Trigger\<close>: a send that does not wait.\<close>

definition trigger :: "refresher \<Rightarrow> bool \<times> refresher" where
  "trigger r = (if rf_trigger r then (False, r) else (True, r\<lparr>rf_trigger := True\<rparr>))"

definition refresher_running :: "refresher \<Rightarrow> bool" where
  "refresher_running = rf_running"

definition last_error :: "refresher \<Rightarrow> string option" where
  "last_error = rf_last_err"

definition set_state :: "bool \<Rightarrow> string option \<Rightarrow> refresher \<Rightarrow> refresher" where
  "set_state running err r = r\<lparr>rf_running := running, rf_last_err := err\<rparr>"

text \<open>
  \<open>Refresh\<close> in two sections around the download: taking the lock, and what follows the
  download's result. The preserved address is \<open>activeIP()\<close>, empty without a callback.
\<close>

definition refresh_begin :: "refresher \<Rightarrow> unit result \<times> refresher" where
  "refresh_begin r =
     (if rf_locked r then (Inl ''node refresh is already running'', r)
      else (Inr (), set_state True None (r\<lparr>rf_locked := True\<rparr>)))"

definition stamped :: "time \<Rightarrow> node list \<Rightarrow> node list" where
  "stamped now = map (\<lambda>n. n\<lparr>n_refreshed_at := now\<rparr>)"

definition store_refresh ::
  "node list result \<Rightarrow> time \<Rightarrow> string \<Rightarrow> string option \<Rightarrow> db \<Rightarrow> unit result \<times> db" where
  "store_refresh fetched now preserve io d =
     (case fetched of Inl e \<Rightarrow> (Inl e, d) | Inr nodes \<Rightarrow> replace_nodes io (stamped now nodes) now preserve d)"

definition error_of :: "unit result \<Rightarrow> string option" where
  "error_of r = (case r of Inl e \<Rightarrow> Some e | Inr _ \<Rightarrow> None)"

definition refresh_end :: "unit result \<Rightarrow> refresher \<Rightarrow> refresher" where
  "refresh_end result r = (set_state False (error_of result) r)\<lparr>rf_locked := False\<rparr>"

definition refresh ::
  "node list result \<Rightarrow> time \<Rightarrow> string \<Rightarrow> string option \<Rightarrow> refresher \<times> db \<Rightarrow> unit result \<times> refresher \<times> db" where
  "refresh fetched now preserve io s =
     (case refresh_begin (fst s) of
        (Inl e, r) \<Rightarrow> (Inl e, r, snd s)
      | (Inr _, r) \<Rightarrow>
          (let (result, d) = store_refresh fetched now preserve io (snd s)
           in (result, refresh_end result r, d)))"

section \<open>The loop\<close>

text \<open>
  \<open>Run\<close> waits for a trigger or the timer, then refreshes; a cancelled context ends it. A trigger
  may arrive at any time.
\<close>

datatype run_phase = RunWaiting | RunRefreshing | RunDone

type_synonym run_state = "run_phase \<times> refresher \<times> db"

inductive run_step :: "run_state \<Rightarrow> run_state \<Rightarrow> bool" where
  triggered: "trigger r = (b, r') \<Longrightarrow> run_step (ph, r, d) (ph, r', d)"
| wake_trigger: "rf_trigger r \<Longrightarrow> refresh_begin (r\<lparr>rf_trigger := False\<rparr>) = (Inr (), r') \<Longrightarrow>
    run_step (RunWaiting, r, d) (RunRefreshing, r', d)"
| wake_timer: "refresh_begin r = (Inr (), r') \<Longrightarrow> run_step (RunWaiting, r, d) (RunRefreshing, r', d)"
| wake_trigger_refused: "rf_trigger r \<Longrightarrow> refresh_begin (r\<lparr>rf_trigger := False\<rparr>) = (Inl e, r') \<Longrightarrow>
    run_step (RunWaiting, r, d) (RunWaiting, r', d)"
| wake_timer_refused: "refresh_begin r = (Inl e, r') \<Longrightarrow> run_step (RunWaiting, r, d) (RunWaiting, r', d)"
| finished: "store_refresh fetched now preserve io d = (result, d') \<Longrightarrow>
    run_step (RunRefreshing, r, d) (RunWaiting, refresh_end result r, d')"
| cancelled: "run_step (RunWaiting, r, d) (RunDone, r, d)"

inductive_simps run_step_simps:
  "run_step (RunDone, r, d) s" "run_step (RunRefreshing, r, d) s"

text \<open>What the web interface may rely on: \<open>Running\<close> is true exactly during a refresh.\<close>

definition run_ok :: "run_state \<Rightarrow> bool" where
  "run_ok s = (case s of (ph, r, d) \<Rightarrow>
     (rf_locked r \<longleftrightarrow> ph = RunRefreshing) \<and> (rf_running r \<longleftrightarrow> ph = RunRefreshing) \<and> db_inv d)"

lemmas refresher_defs =
  trigger_def set_state_def refresh_begin_def refresh_end_def new_refresher_def

lemma store_refresh_inv: "store_refresh fetched now preserve io d = (result, d') \<Longrightarrow> db_inv d \<Longrightarrow> db_inv d'"
  using run_op_inv [of d io "ReplaceNodes ns now preserve" for ns]
  by (auto simp: store_refresh_def split: sum.splits) (metis run_op.simps(1) snd_conv)

lemma run_step_ok: "run_step s s' \<Longrightarrow> run_ok s \<Longrightarrow> run_ok s'"
  by (induction rule: run_step.induct)
    (auto simp: run_ok_def refresher_defs store_refresh_inv split: if_splits)

interpretation refreshing: step_invariant run_step run_ok
  by unfold_locales (rule run_step_ok)

lemma run_reachable_ok: "run_step\<^sup>*\<^sup>* (RunWaiting, new_refresher, d) s \<Longrightarrow> db_inv d \<Longrightarrow> run_ok s"
  by (erule refreshing.ok_reachable) (simp add: run_ok_def new_refresher_def)

text \<open>
  C38: Along every run of the loop, with triggers, downloads and store failures as they come,
  \<open>Running\<close> is true exactly while a refresh is under way, and an accepted trigger is not lost:
  it stays until a refresh begins, and whenever the loop waits with a trigger set it can begin
  one; the refresh's own lock never refuses it.
\<close>

theorem accepted_trigger_is_served:
  assumes "run_step\<^sup>*\<^sup>* (RunWaiting, new_refresher, d0) (ph, r, d)" and "db_inv d0"
  shows "refresher_running r = (ph = RunRefreshing) \<and>
    (\<forall>ph' r' d'. rf_trigger r \<and> run_step (ph, r, d) (ph', r', d') \<longrightarrow> rf_trigger r' \<or> ph' = RunRefreshing) \<and>
    (ph = RunWaiting \<and> rf_trigger r \<longrightarrow>
      (\<exists>r'. run_step (ph, r, d) (RunRefreshing, r', d) \<and> \<not> rf_trigger r'))"
proof -
  have ok: "rf_locked r \<longleftrightarrow> ph = RunRefreshing" "rf_running r \<longleftrightarrow> ph = RunRefreshing"
    using run_reachable_ok [OF assms] by (auto simp: run_ok_def)
  have "rf_trigger r' \<or> ph' = RunRefreshing"
    if "rf_trigger r" "run_step (ph, r, d) (ph', r', d')" for ph' r' d'
    using that(2,1) ok by (cases rule: run_step.cases) (auto simp: refresher_defs split: if_splits)
  moreover have "\<exists>r'. run_step (ph, r, d) (RunRefreshing, r', d) \<and> \<not> rf_trigger r'"
    if w: "ph = RunWaiting" "rf_trigger r"
  proof -
    let ?r = "set_state True None (r\<lparr>rf_trigger := False, rf_locked := True\<rparr>)"
    have "refresh_begin (r\<lparr>rf_trigger := False\<rparr>) = (Inr (), ?r)"
      using ok w by (simp add: refresh_begin_def)
    then have "run_step (ph, r, d) (RunRefreshing, ?r, d)"
      unfolding w(1) using w(2) by (intro run_step.wake_trigger)
    then show ?thesis by (auto simp: set_state_def)
  qed
  ultimately show ?thesis using ok by (auto simp: refresher_running_def)
qed

theorem accepted_trigger_is_served_witness:
  "\<exists>r'. run_step (RunWaiting, snd (trigger new_refresher), empty_db) (RunRefreshing, r', empty_db) \<and> \<not> rf_trigger r'"
proof -
  have "run_step (RunWaiting, new_refresher, empty_db) (RunWaiting, snd (trigger new_refresher), empty_db)"
    by (rule run_step.triggered [OF prod.collapse [symmetric]])
  then have "run_step\<^sup>*\<^sup>* (RunWaiting, new_refresher, empty_db) (RunWaiting, snd (trigger new_refresher), empty_db)"
    by (rule r_into_rtranclp)
  moreover have "rf_trigger (snd (trigger new_refresher))" by (simp add: refresher_defs)
  moreover have "db_inv empty_db" by (simp add: db_inv_def empty_db_def)
  ultimately show ?thesis
    using accepted_trigger_is_served [of empty_db RunWaiting "snd (trigger new_refresher)" empty_db] by blast
qed

section \<open>From the download to the node store\<close>

lemma stamped_ips [simp]: "map n_ip (stamped now ns) = map n_ip ns"
  by (simp add: stamped_def comp_def)

lemma valid_restamped: "valid_node (n\<lparr>n_refreshed_at := now\<rparr>) = valid_node n"
  by (simp add: valid_node_def)

lemma valid_stamped: "\<forall>n \<in> set ns. valid_node n \<Longrightarrow> n \<in> set (stamped now ns) \<Longrightarrow> valid_node n"
  by (auto simp: stamped_def valid_restamped)

lemma valid_refreshed: "valid_node (refreshed_node old t n) = valid_node n"
  by (simp add: valid_node_def refreshed_node_def)

lemma refresh_idle:
  assumes "\<not> rf_locked r" and "store_refresh fetched now preserve io d = (result, d')"
  shows "refresh fetched now preserve io (r, d) =
    (result, r\<lparr>rf_running := False, rf_last_err := error_of result\<rparr>, d')"
  using assms by (cases r) (simp add: refresh_def refresh_begin_def refresh_end_def set_state_def)

text \<open>
  C7: One refresh from the download to the node store, whatever the server sends and the filter
  does. If the download or the store fails the stored nodes are untouched and the error is what
  the status shows; otherwise, and a refresh that was downloaded always gets past the store's
  unique addresses, the refresh time is recorded and reading any address gives the downloaded
  node with its old measurements, or the preserved node as it was, and nothing else. What is read
  is a valid IPv4 node unless it is the preserved one.
\<close>

theorem refresh_stores:
  assumes order: "\<forall>xs. mset (order xs) = mset xs"
    and d: "db_inv d" and now: "in_years now" and idle: "\<not> rf_locked r"
    and fetched: "fetched = fetch bad get js order start url expression"
  shows "(case refresh fetched now preserve io (r, d) of (result, r', d') \<Rightarrow>
    \<not> rf_locked r' \<and> \<not> refresher_running r' \<and> last_error r' = error_of result \<and>
    (case (fetched, io) of
      (Inl e, _) \<Rightarrow> result = Inl e \<and> d' = d
    | (Inr ns, Some e) \<Rightarrow> result = Inl e \<and> d' = d
    | (Inr ns, None) \<Rightarrow>
        result = Inr () \<and> db_inv d' \<and> last_refresh None d' = now \<and>
        (\<forall>a. store_node None a d' =
          (case find (\<lambda>n. n_ip n = a) (stamped now ns) of
             Some n \<Rightarrow> Inr (refreshed_node (node_option a d) now n)
           | None \<Rightarrow> if a = preserve \<and> preserve \<noteq> [] then store_node None a d else Inl err_no_rows)) \<and>
        (\<forall>a n. store_node None a d' = Inr n \<longrightarrow> valid_node n \<or> a = preserve)))"
proof (cases fetched)
  case (Inl e)
  then show ?thesis
    using idle by (simp add: refresh_idle [OF idle] store_refresh_def refresher_running_def last_error_def)
next
  case (Inr ns)
  note ns = fetch_Inr [OF order fetched [symmetric, unfolded Inr]]
  show ?thesis
  proof (cases io)
    case (Some e)
    then have "store_refresh fetched now preserve io d = (Inl e, d)"
      by (simp add: Inr store_refresh_def replace_nodes_def)
    then show ?thesis
      using idle Some Inr by (simp add: refresh_idle [OF idle] refresher_running_def last_error_def)
  next
    case None
    have "distinct (map n_ip (stamped now ns))" using ns(1) by simp
    from replace_nodes_effect [OF d this now, of preserve]
    obtain d' where s: "store_refresh fetched now preserve io d = (Inr (), d')"
      and inv: "db_inv d'" and last: "last_refresh None d' = now"
      and reads: "\<And>a. store_node None a d' =
        (case find (\<lambda>n. n_ip n = a) (stamped now ns) of
           Some n \<Rightarrow> Inr (refreshed_node (node_option a d) now n)
         | None \<Rightarrow> if a = preserve \<and> preserve \<noteq> [] then store_node None a d else Inl err_no_rows)"
      by (auto simp: Inr None store_refresh_def)
    have valid: "valid_node n \<or> a = preserve" if r: "store_node None a d' = Inr n" for a n
    proof (cases "find (\<lambda>n. n_ip n = a) (stamped now ns)")
      case None
      then show ?thesis using r by (simp add: reads split: if_splits)
    next
      case (Some m)
      then have "m \<in> set (stamped now ns)" by (auto simp: find_Some_iff)
      then have "valid_node m" by (rule valid_stamped [OF ns(2)])
      moreover have "n = refreshed_node (node_option a d) now m" using r Some by (simp add: reads)
      ultimately show ?thesis by (simp add: valid_refreshed)
    qed
    show ?thesis
      unfolding Inr None refresh_idle [OF idle s [unfolded Inr None]] prod.case sum.case option.case
        refresher_running_def last_error_def
      by (intro conjI allI impI; (fact reads | fact inv | fact last | rule valid | use idle in simp))
  qed
qed

subsection \<open>A download\<close>

definition sample_js :: "(unit, unit, unit, unit) goja" where
  "sample_js = \<lparr>gj_set = \<lambda>_ _ _. Inr (), gj_new = (), gj_compile = \<lambda>_. Inr (), gj_run = \<lambda>_ _. Inr ((), ()),
     gj_function = \<lambda>_. Some (),
     gj_call = \<lambda>_ ob _. (Inr (case map_of ob ''score'' of Some (JsInt i) \<Rightarrow> 5 \<le> i | _ \<Rightarrow> False), ())\<rparr>"

definition sample_response :: http_response where
  "sample_response = \<lparr>hr_status = 200, hr_status_text = ''200 OK'', hr_body = sample_csv, hr_body_error = None\<rparr>"

lemma length_sample_csv: "length sample_csv < 1000"
  by (simp add: sample_csv_def)

lemma sample_fetch:
  "fetch (\<lambda>_. None) (\<lambda>_. Inr sample_response) sample_js rev zero_time u ''score >= 5'' = Inr [csv_node ''b'' 9]"
proof -
  have "read_limited (max_response_size + 1) sample_response = Inr sample_csv"
    using length_sample_csv by (simp add: read_limited_def sample_response_def max_response_size_def)
  moreover have "compile_filter sample_js ''score >= 5'' = Inr \<lparr>jf_vm = (), jf_function = ()\<rparr>"
    by (simp add: compile_filter_def sample_js_def Let_def)
  ultimately show ?thesis
    using length_sample_csv
    by (simp add: fetch_def sample_response_def sample_parse max_response_size_def filter_match_def
        sample_js_def filter_object_def csv_node_def)
qed

theorem refresh_stores_witness:
  "\<exists>r d. refresh (Inr [csv_node ''b'' 9]) 5000 [] None (new_refresher, empty_db) = (Inr (), r, d) \<and>
     last_refresh None d = 5000 \<and>
     store_node None ''1.2.3.4'' d = Inr (refreshed_node None 5000 (csv_node ''b'' 9))"
proof -
  obtain result r d where s: "refresh (Inr [csv_node ''b'' 9]) 5000 [] None (new_refresher, empty_db) = (result, r, d)"
    by (metis prod_cases3)
  have n: "stamped 5000 [csv_node ''b'' 9] = [(csv_node ''b'' 9)\<lparr>n_refreshed_at := 5000\<rparr>]"
    "n_ip (csv_node ''b'' 9) = ''1.2.3.4''" "node_option ''1.2.3.4'' empty_db = None"
    by (simp_all add: stamped_def csv_node_def node_option_def store_node_def find_row_def empty_db_def)
  have "\<forall>xs. mset (rev xs) = mset (xs :: node_table)" "db_inv empty_db" "in_years 5000" "\<not> rf_locked new_refresher"
    by (simp_all add: db_inv_def empty_db_def new_refresher_def in_years_small)
  from refresh_stores [OF this sample_fetch [symmetric], where preserve = "[]" and io = None, unfolded s]
  show ?thesis by (auto simp: s n refreshed_node_def)
qed

end
