(* ===== verification/WebHandlers.thy ===== *)
theory WebHandlers
  imports WebAuth Refresher SpeedTest VpnState "HOL-Library.List_Lexorder" "HOL-Library.Char_ord"
begin

text \<open>
  The handlers of the web interface, \<open>src/internal/server/handlers.go\<close> and \<open>utils.go\<close>, over the
  components they call. A request is what the handler takes from it: the query values, the path
  parameter, the decoded body. What a handler leaves to a component's operation that may fail is
  that operation or, for the VPN manager, its result.
\<close>

section \<open>Requests and answers\<close>

datatype body =
    Done string
  | RestartRequired bool
  | Settings config
  | Nodes "node list"
  | Runtime runtime_status
  | ServiceStatus Service.status
  | ServiceStatuses "Service.status list"
  | TestResult test_result

definition bounded_integer :: "string \<Rightarrow> int \<Rightarrow> int \<Rightarrow> int \<Rightarrow> int" where
  "bounded_integer value fallback minimum maximum =
     (case atoi value of
        None \<Rightarrow> fallback
      | Some parsed \<Rightarrow>
          if parsed < minimum then fallback else if parsed > maximum then maximum else parsed)"

definition security_headers :: "string \<Rightarrow> (string \<times> string) list" where
  "security_headers path =
     [(''Cache-Control'',
        if has_prefix ''/api/'' path then ''no-store''
        else if has_prefix ''/assets/'' path then ''public, max-age=31536000, immutable'' else ''no-cache''),
      (''X-Content-Type-Options'', ''nosniff''),
      (''X-Frame-Options'', ''DENY''),
      (''Referrer-Policy'', ''no-referrer''),
      (''Content-Security-Policy'',
        ''default-src 'self'; style-src 'self' 'unsafe-inline'; img-src 'self' data:; connect-src 'self'' @ [CHR 0x27])]"

section \<open>Status\<close>

definition status_handler :: "refresher \<Rightarrow> time \<Rightarrow> manager \<Rightarrow> body response" where
  "status_handler r refreshed m =
     write_json 200 (Runtime (VpnState.status (refresher_running r) refreshed (last_error r) m))"

text \<open>The services as the handlers see them: their name, their status and their restart.\<close>

definition service_statuses :: "('s \<Rightarrow> Service.status) \<Rightarrow> 's list \<Rightarrow> body response" where
  "service_statuses status_of services =
     write_json 200 (ServiceStatuses (sort_key st_name (map status_of services)))"

fun restart_service ::
  "('s \<Rightarrow> string) \<Rightarrow> ('s \<Rightarrow> Service.status) \<Rightarrow> ('s \<Rightarrow> string option \<times> 's) \<Rightarrow> string \<Rightarrow> 's list \<Rightarrow>
   body response \<times> 's list" where
  "restart_service name_of status_of restart name [] = (write_error 404 ''service not found'', [])"
| "restart_service name_of status_of restart name (s # ss) =
     (if name_of s \<noteq> name
      then (case restart_service name_of status_of restart name ss of (r, ss') \<Rightarrow> (r, s # ss'))
      else (case restart s of
          (Some e, s') \<Rightarrow> (write_error 500 e, s' # ss)
        | (None, s') \<Rightarrow> (write_json 200 (ServiceStatus (status_of s')), s' # ss)))"

section \<open>Nodes\<close>

text \<open>The two queries of the node list may each fail.\<close>

definition nodes_handler ::
  "string option \<Rightarrow> string option \<Rightarrow> string \<Rightarrow> string \<Rightarrow> string \<Rightarrow> string \<Rightarrow> db \<Rightarrow> body response" where
  "nodes_handler io1 io2 limit_query offset_query mode active d =
     (let limit = bounded_integer limit_query 100 1 500;
          offset = bounded_integer offset_query 0 0 1000000
      in case store_nodes io1 mode limit offset d of
          Inl e \<Rightarrow> write_error 500 e
        | Inr nodes \<Rightarrow>
            if offset = 0 \<and> active \<noteq> [] \<and> active \<notin> set (map n_ip nodes)
            then (case store_node io2 active d of
                Inl e \<Rightarrow> write_json 200 (Nodes nodes)
              | Inr n \<Rightarrow>
                  let nodes' = n # nodes
                  in write_json 200 (Nodes (if int (length nodes') > limit then take (nat limit) nodes' else nodes')))
            else write_json 200 (Nodes nodes))"

definition select_node :: "(string \<Rightarrow> string \<Rightarrow> string option) \<Rightarrow> (string \<times> string) result \<Rightarrow> body response" where
  "select_node select_manual input =
     decode_json input (\<lambda>(ip, protocol).
       case select_manual ip protocol of Some e \<Rightarrow> write_error 502 e | None \<Rightarrow> write_json 202 (Done ''ok''))"

definition reconnect_node :: "string option \<Rightarrow> body response" where
  "reconnect_node reconnected =
     (case reconnected of Some e \<Rightarrow> write_error 502 e | None \<Rightarrow> write_json 202 (Done ''ok''))"

definition direct_mode_handler :: "(bool \<Rightarrow> string option) \<Rightarrow> bool result \<Rightarrow> body response" where
  "direct_mode_handler set_direct input =
     decode_json input (\<lambda>enabled.
       case set_direct enabled of Some e \<Rightarrow> write_error 502 e | None \<Rightarrow> write_json 202 (Done ''ok''))"

section \<open>Speed tests\<close>

definition start_speed_test :: "string \<Rightarrow> speedtest \<Rightarrow> body response \<times> speedtest" where
  "start_speed_test ip sp =
     (case queue_manual ip sp of
        (Inl e, sp') \<Rightarrow> (write_error (if e = ''speed test is already running'' then 409 else 503) e, sp')
      | (Inr r, sp') \<Rightarrow> (write_json 202 (TestResult r), sp'))"

definition cancel_speed_test :: "string \<Rightarrow> speedtest \<Rightarrow> body response \<times> speedtest" where
  "cancel_speed_test ip sp =
     (case cancel_manual ip sp of
        (Inl e, sp') \<Rightarrow> (write_error (if e = ''speed test was not found'' then 404 else 409) e, sp')
      | (Inr r, sp') \<Rightarrow> (write_json 200 (TestResult r), sp'))"

definition speed_test_status :: "string option \<Rightarrow> string \<Rightarrow> speedtest \<Rightarrow> db \<Rightarrow> body response" where
  "speed_test_status io ip sp d =
     (case job_result ip sp of
        Some r \<Rightarrow> write_json 200 (TestResult r)
      | None \<Rightarrow>
          (case store_node io ip d of
             Inl e \<Rightarrow> write_error 404 ''no speed test found for this node''
           | Inr n \<Rightarrow>
               if n_measured_at n = zero_time then write_error 404 ''no speed test found for this node''
               else if n_speed_test_failed n
               then write_json 200 (TestResult \<lparr>r_state = ''failed'', r_bits_per_second = 0, r_error = []\<rparr>)
               else write_json 200
                      (TestResult \<lparr>r_state = ''complete'', r_bits_per_second = n_measured_bps n, r_error = []\<rparr>)))"

section \<open>Settings\<close>

definition hidden :: "config \<Rightarrow> config" where
  "hidden c = c\<lparr>web := (web c)\<lparr>web_password_hash := [], web_session_secret := []\<rparr>\<rparr>"

definition get_config_handler :: "cstore \<Rightarrow> body response" where
  "get_config_handler s = write_json 200 (Settings (hidden (get_config s)))"

definition put_fields :: "(config \<times> string) field list" where
  "put_fields =
     [(''config'', \<lambda>j (c, pw). bind_result
         (decode_struct ''struct field .config of type config.Config'' config_fields j c) (\<lambda>c'. Inr (c', pw))),
      (''newPassword'', \<lambda>j (c, pw). case j of JNull \<Rightarrow> Inr (c, pw) | JString s \<Rightarrow> Inr (c, s)
         | _ \<Rightarrow> Inl (type_error j ''struct field .newPassword of type string''))]"

definition decode_put :: "document \<Rightarrow> (config \<times> string) result" where
  "decode_put doc = bind_result doc (\<lambda>j. decode_struct ''value of type struct'' put_fields j (zero_config, []))"

definition kept_secrets :: "config \<Rightarrow> config \<Rightarrow> config" where
  "kept_secrets current c =
     c\<lparr>web := (web c)\<lparr>web_password_hash := web_password_hash (web current),
        web_session_secret := web_session_secret (web current)\<rparr>\<rparr>"

definition with_password :: "string \<Rightarrow> config \<Rightarrow> config" where
  "with_password hash c = c\<lparr>web := (web c)\<lparr>web_password_hash := hash\<rparr>\<rparr>"

definition restart_required :: "config \<Rightarrow> config \<Rightarrow> bool" where
  "restart_required current c \<longleftrightarrow>
     database_path current \<noteq> database_path c \<or>
     s_listen_address (socks5 current) \<noteq> s_listen_address (socks5 c) \<or>
     web_listen_address (web current) \<noteq> web_listen_address (web c)"

text \<open>\<open>bcrypt\<close> is \<open>GenerateFromPassword\<close>; \<open>compiles\<close> is the error of \<open>CompileFilter\<close>.\<close>

definition put_config ::
  "mac \<Rightarrow> time \<Rightarrow> bool \<Rightarrow> (string \<Rightarrow> string option) \<Rightarrow> (string \<Rightarrow> string result) \<Rightarrow> save_io \<Rightarrow>
   (config \<times> string) result \<Rightarrow> cstore \<times> disk \<Rightarrow> body response \<times> cookie option \<times> cstore \<times> disk" where
  "put_config mac now secure compiles bcrypt io input st =
     (case input of
        Inl e \<Rightarrow> (write_error 400 (''invalid JSON: '' @ e), None, st)
      | Inr (c0, pw) \<Rightarrow>
          let current = get_config (fst st); c1 = kept_secrets current c0
          in if pw \<noteq> [] \<and> length pw < 8
             then (write_error 400 ''new web password must contain at least 8 characters'', None, st)
             else case (if pw = [] then Inr c1 else map_sum id (\<lambda>h. with_password h c1) (bcrypt pw)) of
                 Inl e \<Rightarrow> (write_error 500 e, None, st)
               | Inr c \<Rightarrow>
                   (case compiles (filter_expression c) of
                      Some e \<Rightarrow> (write_error 400 e, None, st)
                    | None \<Rightarrow>
                        (case save_config io c st of
                           (Some e, st') \<Rightarrow> (write_error 400 e, None, st')
                         | (None, st') \<Rightarrow>
                             (write_json 200 (RestartRequired (restart_required current c)),
                              Some (session_cookie mac now secure (web c)), st'))))"

definition filter_error :: "('vm, 'p, 'v, 'fn) goja \<Rightarrow> string \<Rightarrow> string option" where
  "filter_error js expression =
     (case compile_filter js expression of Inl e \<Rightarrow> Some e | Inr _ \<Rightarrow> None)"

definition validate_filter :: "(string \<Rightarrow> string option) \<Rightarrow> string result \<Rightarrow> body response" where
  "validate_filter compiles input =
     decode_json input (\<lambda>expression.
       case compiles expression of Some e \<Rightarrow> write_error 400 e | None \<Rightarrow> write_json 200 (Done ''valid''))"

section \<open>Refresh and restart\<close>

definition refresh_handler :: "refresher \<Rightarrow> body response \<times> refresher" where
  "refresh_handler r =
     (case trigger r of
        (False, r') \<Rightarrow> (write_error 409 ''node refresh is already queued'', r')
      | (True, r') \<Rightarrow> (write_json 202 (Done ''queued''), r'))"

text \<open>The flag \<open>restarting\<close> and whether the restart channel of one place is full.\<close>

definition restart_application :: "bool \<times> bool \<Rightarrow> body response \<times> bool \<times> bool" where
  "restart_application st =
     (case st of (restarting, full) \<Rightarrow>
        if restarting then (write_error 409 ''application restart is already pending'', st)
        else if \<not> full then (write_json 202 (Done ''restarting''), True, True)
        else (write_error 409 ''application restart is already pending'', False, full))"

section \<open>Changing the settings\<close>

lemma response_status [simp]: "resp_status (write_json n v) = n" "resp_status (write_error n e) = n"
  by (simp_all add: write_json_def write_error_def)

lemma cookie_verifies:
  assumes "CHR ''|'' \<notin> set (web_username settings)"
    and "min_int64 \<le> unix_seconds now" "unix_seconds now + 43200 \<le> max_int64"
  shows "verify_session mac later settings (ck_value (session_cookie mac now secure settings)) \<longleftrightarrow>
    unix_seconds later < unix_seconds now + 43200"
proof -
  have e: "unix_seconds (now + session_duration) = unix_seconds now + 43200"
    by (simp add: unix_seconds_def session_duration_def)
  show ?thesis
    using verify_signed [OF assms(1), of "now + session_duration"] assms(2,3)
    by (simp add: session_cookie_def Let_def e)
qed

text \<open>The configuration a request asks for: the secrets of the one in use, or a new password's hash.\<close>

definition wanted_config :: "(string \<Rightarrow> string result) \<Rightarrow> config \<Rightarrow> config \<times> string \<Rightarrow> config result" where
  "wanted_config bcrypt current input =
     (let c = kept_secrets current (fst input)
      in if snd input = [] then Inr c else map_sum id (\<lambda>h. with_password h c) (bcrypt (snd input)))"

lemma put_config_cases:
  assumes "put_config mac now secure compiles bcrypt io (Inr (c0, pw)) (s, files) = (r, ck, s', files')"
  obtains (refused) "resp_status r \<noteq> 200" "ck = None" "s' = s" "files' = files"
  | (failed) c e where "wanted_config bcrypt (cs_config s) (c0, pw) = Inr c" "resp_status r \<noteq> 200" "ck = None"
      "save_config io c (s, files) = (Some e, s', files')"
  | (saved) c where "wanted_config bcrypt (cs_config s) (c0, pw) = Inr c" "pw = [] \<or> 8 \<le> length pw"
      "compiles (filter_expression c) = None" "save_config io c (s, files) = (None, s', files')"
      "r = write_json 200 (RestartRequired (restart_required (cs_config s) c))"
      "ck = Some (session_cookie mac now secure (web c))"
proof -
  let ?w = "wanted_config bcrypt (cs_config s) (c0, pw)"
  have p: "put_config mac now secure compiles bcrypt io (Inr (c0, pw)) (s, files) =
     (if pw \<noteq> [] \<and> length pw < 8
      then (write_error 400 ''new web password must contain at least 8 characters'', None, s, files)
      else case ?w of
          Inl e \<Rightarrow> (write_error 500 e, None, s, files)
        | Inr c \<Rightarrow>
            (case compiles (filter_expression c) of
               Some e \<Rightarrow> (write_error 400 e, None, s, files)
             | None \<Rightarrow>
                 (case save_config io c (s, files) of
                    (Some e, st') \<Rightarrow> (write_error 400 e, None, st')
                  | (None, st') \<Rightarrow>
                      (write_json 200 (RestartRequired (restart_required (cs_config s) c)),
                       Some (session_cookie mac now secure (web c)), st'))))"
    unfolding put_config_def sum.case prod.case wanted_config_def Let_def get_config_def fst_conv snd_conv ..
  consider "pw \<noteq> [] \<and> length pw < 8" | e where "pw = [] \<or> 8 \<le> length pw" "?w = Inl e"
    | c e where "pw = [] \<or> 8 \<le> length pw" "?w = Inr c" "compiles (filter_expression c) = Some e"
    | c where "pw = [] \<or> 8 \<le> length pw" "?w = Inr c" "compiles (filter_expression c) = None"
    by (metis not_less option.exhaust sum.exhaust)
  then show thesis
  proof cases
    case (4 c)
    obtain res s1 files1 where save: "save_config io c (s, files) = (res, s1, files1)" by (metis prod_cases3)
    show thesis
    proof (cases res)
      case None
      with 4 save assms show thesis by (intro saved [of c]) (auto simp: p)
    next
      case (Some e)
      with 4 save assms show thesis by (intro failed [of c e]) (auto simp: p)
    qed
  qed (use assms in \<open>intro refused; auto simp: p\<close>)+
qed


section \<open>Reading the settings and writing them back\<close>

lemma kept_hidden: "kept_secrets c (hidden c) = c"
  by (simp add: kept_secrets_def hidden_def)

lemma decode_put_encoded:
  "decode_put (Inr (JObject [(''config'', encode_config c), (''newPassword'', JString pw)])) = Inr (c, pw)"
proof -
  have "decode_struct t config_fields (encode_config c) zero_config = Inr c" for t
    using decode_encode_config [of c]
    by (simp add: decode_config_def decode_struct_def encode_config_def)
  then show ?thesis
    by (simp add: decode_put_def decode_struct_def [of "''value of type struct''"] put_fields_def find_field_def)
qed

lemma put_hidden:
  assumes valid: "valid_config (cs_config s)" and db: "is_abs (database_path (cs_config s))"
    and filter: "compiles (filter_expression (cs_config s)) = None"
    and io: "io_mkdir io = None" "io_write io = None" "io_rename io = None"
  shows "\<exists>files'. put_config mac now secure compiles bcrypt io (Inr (hidden (cs_config s), [])) (s, files) =
    (write_json 200 (RestartRequired False), Some (session_cookie mac now secure (web (cs_config s))), s, files')"
proof -
  let ?c = "cs_config s"
  have a: "absolute_database (cs_path s) ?c = ?c" using db by (simp add: absolute_database_def)
  have v: "validate ?c = None" using valid by (simp add: validate_iff)
  have s: "s\<lparr>cs_config := ?c\<rparr> = s" by simp
  have "\<exists>files'. save_config io ?c (s, files) = (None, s, files')"
    unfolding save_config_def Let_def fst_conv snd_conv a v io write_config_def option.case prod.case s by blast
  then show ?thesis
    by (auto simp: put_config_def get_config_def kept_hidden filter restart_required_def)
qed

text \<open>
  What \<open>GET /api/config\<close> answers hides the password hash and the session secret, and sending
  it back with \<open>PUT\<close> keeps the configuration in use exactly as it was, secrets included, asks
  for no restart and renews the session.
\<close>

theorem get_then_put:
  assumes "valid_config (cs_config s)" and "is_abs (database_path (cs_config s))"
    and "compiles (filter_expression (cs_config s)) = None"
    and "io_mkdir io = None" "io_write io = None" "io_rename io = None"
  shows "\<exists>c. get_config_handler s = write_json 200 (Settings c) \<and>
    web_password_hash (web c) = [] \<and> web_session_secret (web c) = [] \<and>
    (\<exists>files'. put_config mac now secure compiles bcrypt io
        (decode_put (Inr (JObject [(''config'', encode_config c), (''newPassword'', JString [])]))) (s, files) =
      (write_json 200 (RestartRequired False), Some (session_cookie mac now secure (web (cs_config s))), s, files'))"
  unfolding decode_put_encoded using put_hidden [where compiles = compiles, OF assms]
  by (intro exI [of _ "hidden (cs_config s)"] conjI) (simp_all add: get_config_handler_def get_config_def hidden_def)

section \<open>The node list\<close>

lemma store_nodes_reads:
  assumes "db_inv d" and "store_nodes io mode limit offset d = Inr ns"
  shows "distinct (map n_ip ns)" and "n \<in> set ns \<Longrightarrow> store_node None (n_ip n) d = Inr n"
    and "0 \<le> limit \<Longrightarrow> int (length ns) \<le> limit"
proof -
  let ?ys = "sort_key (order_key mode) (rows d)"
  have ns: "ns = map scan_node (sql_page limit offset ?ys)"
    using assms(2) by (simp add: store_nodes_def split: option.splits)
  have d: "distinct (map c_ip ?ys)" using assms(1) by (auto simp: db_inv_def distinct_map)
  show "distinct (map n_ip ns)"
    using d by (simp add: ns sql_page_def Let_def comp_def distinct_take distinct_drop flip: take_map drop_map)
  show "store_node None (n_ip n) d = Inr n" if "n \<in> set ns"
  proof -
    from that obtain r where "r \<in> set ?ys" "n = scan_node r"
      using mset_page_subset [of limit offset ?ys] by (auto simp: ns)
    then show ?thesis by (simp add: store_node_def find_row_self [OF assms(1)])
  qed
  show "int (length ns) \<le> limit" if "0 \<le> limit" using that by (simp add: ns sql_page_def Let_def)
qed

lemma bounded_integer_range:
  "minimum \<le> fallback \<Longrightarrow> fallback \<le> maximum \<Longrightarrow>
   minimum \<le> bounded_integer v fallback minimum maximum \<and> bounded_integer v fallback minimum maximum \<le> maximum"
  by (auto simp: bounded_integer_def split: option.split)

text \<open>
  \<open>GET /api/nodes\<close>, whatever the query says: at most the requested number of nodes and never
  more than 500, all of them stored nodes and none twice; on the first page the node of the
  active session is included whenever it is stored.
\<close>

theorem listing_shows_active:
  assumes d: "db_inv d" and r: "nodes_handler None None lq oq mode active d = write_json 200 (Nodes ns)"
  shows "int (length ns) \<le> bounded_integer lq 100 1 500 \<and> length ns \<le> 500 \<and> distinct (map n_ip ns) \<and>
    (\<forall>n \<in> set ns. store_node None (n_ip n) d = Inr n) \<and>
    (bounded_integer oq 0 0 1000000 = 0 \<and> (\<exists>n. store_node None active d = Inr n) \<and> active \<noteq> [] \<longrightarrow>
      active \<in> set (map n_ip ns))"
proof -
  define limit where "limit = bounded_integer lq 100 1 500"
  define offset where "offset = bounded_integer oq 0 0 1000000"
  have limit: "1 \<le> limit" "limit \<le> 500" using bounded_integer_range [of 1 100 500 lq] by (simp_all add: limit_def)
  obtain page where page: "store_nodes None mode limit offset d = Inr page" by (simp add: store_nodes_def)
  note p = store_nodes_reads [OF d page]
  have len: "int (length page) \<le> limit" using p(3) limit by simp
  show ?thesis
  proof (cases "offset = 0 \<and> active \<noteq> [] \<and> active \<notin> set (map n_ip page) \<and> (\<exists>n. store_node None active d = Inr n)")
    case False
    then have "ns = page"
      using r page
      by (auto simp: nodes_handler_def Let_def limit_def [symmetric] offset_def [symmetric] write_json_def
          split: sum.splits if_splits)
    then show ?thesis unfolding limit_def [symmetric] offset_def [symmetric] using p len limit False by auto
  next
    case True
    then obtain n where n: "store_node None active d = Inr n" by blast
    then have ip: "n_ip n = active"
      using find_row_ip by (auto simp: store_node_def split: option.splits)
    have ns: "ns = take (nat limit) (n # page)"
      using r page True n
      by (auto simp: nodes_handler_def Let_def limit_def [symmetric] offset_def [symmetric] write_json_def
          split: sum.splits if_splits)
    have "distinct (map n_ip (n # page))" using p(1) True ip by simp
    then have "distinct (map n_ip ns)" unfolding ns by (metis distinct_take take_map)
    moreover have "\<forall>m \<in> set ns. store_node None (n_ip m) d = Inr m"
      using p(2) n ip unfolding ns by (metis in_set_takeD set_ConsD)
    moreover have "n \<in> set ns" using limit by (cases "nat limit") (simp_all add: ns)
    moreover have "length ns \<le> nat limit" by (simp add: ns)
    ultimately show ?thesis
      unfolding limit_def [symmetric] offset_def [symmetric] using limit ip by auto
  qed
qed

text \<open>
  The price of showing the active node on a full first page: the last node of that page is on no
  page at all. Here two nodes are listed one per page while the second is active.
\<close>

definition two_nodes :: db where
  "two_nodes = snd (replace_nodes None [csv_node ''a'' 9, (csv_node ''b'' 5)\<lparr>n_ip := ''5.6.7.8''\<rparr>] 5000 [] empty_db)"

lemma two_nodes_rows:
  "rows two_nodes = [incoming_row empty_db (format_time 5000) (csv_node ''a'' 9),
     incoming_row empty_db (format_time 5000) ((csv_node ''b'' 5)\<lparr>n_ip := ''5.6.7.8''\<rparr>)]"
  by (simp add: two_nodes_def replace_nodes_def Let_def preserved_rows_def csv_node_def empty_db_def)

lemma listing_skips_node:
  "\<exists>n b. store_node None ''1.2.3.4'' two_nodes = Inr n \<and>
     nodes_handler None None ''1'' ''0'' ''score'' ''5.6.7.8'' two_nodes = write_json 200 (Nodes [b]) \<and>
     nodes_handler None None ''1'' ''1'' ''score'' ''5.6.7.8'' two_nodes = write_json 200 (Nodes [b]) \<and>
     n_ip b \<noteq> ''1.2.3.4''"
proof -
  have q: "bounded_integer ''1'' 100 1 500 = 1" "bounded_integer ''0'' 0 0 1000000 = 0"
    "bounded_integer ''1'' 0 0 1000000 = 1"
    by (simp_all add: bounded_integer_def atoi_def parse_int_def parse_uint_def is_digit_def digit_value_def
        max_uint64_def max_int64_def)
  show ?thesis
    by (auto simp: write_json_def nodes_handler_def q Let_def store_nodes_def sql_page_def two_nodes_rows order_key_def
        store_node_def find_row_def incoming_row_def csv_node_def scan_node_def empty_db_def zero_node_def)
qed

section \<open>Samples\<close>

definition saved_store :: cstore where
  "saved_store = fst (snd sample_saved)"

lemma saved_store_ok:
  "valid_config (cs_config saved_store)" "is_abs (database_path (cs_config saved_store))"
  "cs_config saved_store = absolute_database ''/c/config.json'' (default_config ''h'' ''s'')"
proof -
  note e = save_effect [OF sample_saved_ok, unfolded option.case, folded saved_store_def]
  show "valid_config (cs_config saved_store)" using e by blast
  show c: "cs_config saved_store = absolute_database ''/c/config.json'' (default_config ''h'' ''s'')"
    using e by (simp add: sample_cstore_def)
  show "is_abs (database_path (cs_config saved_store))"
    unfolding c by (rule absolute_database_abs) (simp add: is_abs_def)
qed

lemma sample_io_ok: "io_mkdir sample_io = None" "io_write sample_io = None" "io_rename sample_io = None"
  by (simp_all add: sample_io_def)

theorem get_then_put_witness:
  "\<exists>files'. put_config sample_mac 7 True (\<lambda>_. None) Inr sample_io
      (Inr (hidden (cs_config saved_store), [])) (saved_store, Map.empty) =
    (write_json 200 (RestartRequired False),
     Some (session_cookie sample_mac 7 True (web (cs_config saved_store))), saved_store, files')"
  using get_then_put [where compiles = "\<lambda>_. None", OF saved_store_ok(1,2) refl sample_io_ok, of sample_mac 7 True Inr Map.empty]
  by (auto simp: decode_put_encoded get_config_handler_def get_config_def write_json_def)


theorem listing_shows_active_witness:
  "\<exists>ns. nodes_handler None None ''1'' ''0'' ''score'' ''5.6.7.8'' two_nodes = write_json 200 (Nodes ns) \<and>
     length ns \<le> 500 \<and> ''5.6.7.8'' \<in> set (map n_ip ns)"
proof -
  obtain b where p: "nodes_handler None None ''1'' ''0'' ''score'' ''5.6.7.8'' two_nodes = write_json 200 (Nodes [b])"
    using listing_skips_node by blast
  have "db_inv two_nodes"
    unfolding db_inv_def two_nodes_rows by (simp add: csv_node_def)
  moreover have "bounded_integer ''0'' 0 0 1000000 = 0"
    by (simp add: bounded_integer_def atoi_def parse_int_def parse_uint_def is_digit_def digit_value_def
        max_uint64_def max_int64_def)
  moreover have "\<exists>n. store_node None ''5.6.7.8'' two_nodes = Inr n"
    by (simp add: store_node_def find_row_def two_nodes_rows csv_node_def)
  ultimately show ?thesis using listing_shows_active [OF _ p] p by auto
qed

end
