(* ===== verification/App.thy ===== *)
theory App
  imports GoTime Prelude
begin

text \<open>
  The application: the routes and the error handler of \<open>src/internal/server/setup.go\<close>, the version
  of \<open>src/internal/buildinfo/buildinfo.go\<close>, and starting and shutting down,
  \<open>src/cmd/proxygate/app.go\<close> and \<open>main.go\<close>, as the trace of what the components are asked to do.
\<close>

section \<open>Routes\<close>

datatype endpoint =
    Version | Login | Logout | StatusRoute | ServicesRoute | RestartServiceRoute | NodesRoute
  | SelectRoute | ReconnectRoute | DirectRoute | StartTestRoute | CancelTestRoute | TestStatusRoute
  | GetConfigRoute | PutConfigRoute | ValidateFilterRoute | RefreshRoute | RestartRoute
  | ApiNotFound | Assets

text \<open>A handler registered for a method and a pattern, or a middleware for a prefix.\<close>

datatype entry =
    Route string string endpoint
  | Guard string
  | Fallback endpoint

definition routes :: "entry list" where
  "routes =
     [Route ''GET'' ''/api/version'' Version,
      Route ''POST'' ''/api/login'' Login,
      Guard ''/api'',
      Route ''POST'' ''/api/logout'' Logout,
      Route ''GET'' ''/api/status'' StatusRoute,
      Route ''GET'' ''/api/services'' ServicesRoute,
      Route ''POST'' ''/api/services/:name/restart'' RestartServiceRoute,
      Route ''GET'' ''/api/nodes'' NodesRoute,
      Route ''POST'' ''/api/nodes/select'' SelectRoute,
      Route ''POST'' ''/api/nodes/reconnect'' ReconnectRoute,
      Route ''POST'' ''/api/connection/direct'' DirectRoute,
      Route ''POST'' ''/api/nodes/:ip/speed-test'' StartTestRoute,
      Route ''DELETE'' ''/api/nodes/:ip/speed-test'' CancelTestRoute,
      Route ''GET'' ''/api/nodes/:ip/speed-test'' TestStatusRoute,
      Route ''GET'' ''/api/config'' GetConfigRoute,
      Route ''PUT'' ''/api/config'' PutConfigRoute,
      Route ''POST'' ''/api/filter/validate'' ValidateFilterRoute,
      Route ''POST'' ''/api/refresh'' RefreshRoute,
      Route ''POST'' ''/api/restart'' RestartRoute,
      Route ''ALL'' ''/api/*'' ApiNotFound,
      Fallback Assets]"

datatype outcome = Served endpoint | Rejected | Unrouted

text \<open>
  The router takes the first entry that matches: \<open>matches\<close> says when a registered method and
  pattern match a request, \<open>within\<close> when a path is under a group's prefix.
\<close>

fun dispatch ::
  "(string \<Rightarrow> string \<Rightarrow> string \<Rightarrow> string \<Rightarrow> bool) \<Rightarrow> (string \<Rightarrow> string \<Rightarrow> bool) \<Rightarrow> bool \<Rightarrow> string \<Rightarrow> string \<Rightarrow>
   entry list \<Rightarrow> outcome" where
  "dispatch matches within authorized verb path [] = Unrouted"
| "dispatch matches within authorized verb path (Route m p e # es) =
     (if matches m p verb path then Served e else dispatch matches within authorized verb path es)"
| "dispatch matches within authorized verb path (Guard p # es) =
     (if within p path \<and> \<not> authorized then Rejected else dispatch matches within authorized verb path es)"
| "dispatch matches within authorized verb path (Fallback e # es) = Served e"

text \<open>The error handler: \<open>Inr\<close> is a \<open>fiber.Error\<close> with its code; the answer is JSON below \<open>/api/\<close>.\<close>

definition error_handler :: "string \<Rightarrow> string + nat \<times> string \<Rightarrow> nat \<times> string \<times> bool" where
  "error_handler path err =
     (case err of
        Inl message \<Rightarrow> (500, message, has_prefix ''/api/'' path)
      | Inr (code, message) \<Rightarrow> (code, message, has_prefix ''/api/'' path))"

lemma dispatch_total:
  "authorized \<Longrightarrow> \<exists>e. dispatch matches within authorized verb path (es @ [Fallback a]) = Served e"
proof (induction es)
  case (Cons x es)
  then show ?case by (cases x) auto
qed simp

lemma dispatch_outside:
  assumes "list_all (\<lambda>x. case x of Route m p e \<Rightarrow> \<not> matches m p verb path | _ \<Rightarrow> False) es"
  shows "dispatch matches within authorized verb path (es @ [Fallback a]) = Served a"
  using assms
proof (induction es)
  case (Cons x es)
  then show ?case by (cases x) auto
qed simp

definition api_routes :: "entry list" where
  "api_routes = butlast (drop 3 routes)"

lemma routes_eq:
  "routes = Route ''GET'' ''/api/version'' Version # Route ''POST'' ''/api/login'' Login # Guard ''/api'' #
     api_routes @ [Fallback Assets]"
  by (simp add: routes_def api_routes_def)

lemma api_routes_prefix:
  "list_all (\<lambda>x. case x of Route m p e \<Rightarrow> has_prefix ''/api/'' p | _ \<Rightarrow> False) api_routes"
  by (simp add: routes_def api_routes_def)

text \<open>
  C23: Whatever the router's matching, as long as the group's middleware applies to every path one
  of its routes matches: a request without a valid session reaches only the version, the log-in
  and the static files; with one, each request reaches a handler.
\<close>

theorem api_guarded:
  assumes "\<And>m p. has_prefix ''/api/'' p \<Longrightarrow> matches m p verb path \<Longrightarrow> within ''/api'' path"
  shows "(dispatch matches within authorized verb path routes = Served e \<longrightarrow>
      authorized \<or> e \<in> {Version, Login, Assets}) \<and>
    (authorized \<longrightarrow> (\<exists>e. dispatch matches within authorized verb path routes = Served e)) \<and>
    (dispatch matches within authorized verb path routes = Served Assets \<longrightarrow>
      authorized \<or> \<not> within ''/api'' path)"
proof -
  let ?d = "dispatch matches within authorized verb path"
  have outside: "?d (api_routes @ [Fallback Assets]) = Served Assets" if "\<not> within ''/api'' path"
  proof (rule dispatch_outside)
    show "list_all (\<lambda>x. case x of Route m p e \<Rightarrow> \<not> matches m p verb path | _ \<Rightarrow> False) api_routes"
      using api_routes_prefix assms that by (fastforce simp: list_all_iff split: entry.splits)
  qed
  have served: "?d routes =
      (if matches ''GET'' ''/api/version'' verb path then Served Version
       else if matches ''POST'' ''/api/login'' verb path then Served Login
       else if within ''/api'' path \<and> \<not> authorized then Rejected else ?d (api_routes @ [Fallback Assets]))"
    by (simp add: routes_eq)
  show ?thesis
    unfolding served using outside dispatch_total [of authorized matches within verb path api_routes Assets]
    by (auto split: if_splits)
qed

theorem api_guarded_witness:
  "dispatch (\<lambda>m p verb path. m = verb \<and> p = path) (\<lambda>p path. has_prefix p path) False ''PUT'' ''/api/config'' routes \<noteq>
     Served PutConfigRoute"
  using api_guarded [of "\<lambda>m p verb path. m = verb \<and> p = path" "''PUT''" "''/api/config''"
      "\<lambda>p path. has_prefix p path" False PutConfigRoute] by simp

section \<open>Version\<close>

record build =
  b_major :: string
  b_minor :: string
  b_patch :: string
  b_pre_release :: string
  b_timestamp :: string
  b_toolchain :: string
  b_channel :: string
  b_commit :: string

record info =
  i_version :: string
  i_release :: string
  i_commit :: string
  i_channel :: string
  i_toolchain :: string
  i_build_time :: string

definition current_info :: "build \<Rightarrow> info" where
  "current_info b =
     (let base = b_major b @ ''.'' @ b_minor b @ ''.'' @ b_patch b;
          pre = trim_space (b_pre_release b);
          version = (if pre \<noteq> [] then base @ ''-'' @ pre else base);
          commit = trim_space (b_commit b);
          release = (if commit \<noteq> [] \<and> commit \<noteq> ''unknown'' then version @ ''-'' @ commit else version)
      in case (case parse_int (b_timestamp b) of (t, None) \<Rightarrow> if t > 0 then Some t else None | _ \<Rightarrow> None) of
           None \<Rightarrow> \<lparr>i_version = version, i_release = release, i_commit = commit,
             i_channel = trim_space (b_channel b), i_toolchain = trim_space (b_toolchain b), i_build_time = []\<rparr>
         | Some t \<Rightarrow> \<lparr>i_version = version, i_release = release @ ''-'' @ show_int t, i_commit = commit,
             i_channel = trim_space (b_channel b), i_toolchain = trim_space (b_toolchain b),
             i_build_time = format_time (t * 1000000000)\<rparr>)"

section \<open>Starting and stopping\<close>

text \<open>What the components answer, and what ends the wait of the main goroutine.\<close>

datatype exit_cause = Signal | RestartAsked | ServerEnded "string option"

record app_env =
  ae_load :: "string option"
  ae_open :: "string option"
  ae_executable :: "string result"
  ae_start :: "string \<Rightarrow> string option"
  ae_stop :: "string \<Rightarrow> string option"
  ae_last_refresh :: time
  ae_interval :: int
  ae_now :: time
  ae_exit :: exit_cause
  ae_http_stop :: "string option"
  ae_background :: "string option"
  ae_manager :: "string option"
  ae_database :: "string option"
  ae_exec :: "string option"

datatype action =
    OpenDatabase
  | NewManager
  | StartService string
  | StartManager
  | StartRefresher
  | TriggerRefresh
  | StartHttp
  | CancelApp
  | StopHttp
  | StopService string
  | WaitBackground
  | CloseManager
  | CloseDatabase
  | Exec string

datatype app_result = Ended | Interrupted | Failed string

definition service_ids :: "string list" where
  "service_ids = [''socks5'', ''speedtest'', ''healthcheck'']"

text \<open>\<open>errors.Join\<close>: the messages on a line each, nothing when there are none.\<close>

definition joined_errors :: "string list \<Rightarrow> string option" where
  "joined_errors es = (if es = [] then None else Some (join [CHR 0x0A] es))"

definition labelled :: "string \<Rightarrow> string option \<Rightarrow> string list" where
  "labelled prefix err = (case err of None \<Rightarrow> [] | Some e \<Rightarrow> [prefix @ e])"

text \<open>The services started, in order, and the first that failed.\<close>

fun start_services :: "app_env \<Rightarrow> string list \<Rightarrow> string list \<times> (string \<times> string) option" where
  "start_services env [] = ([], None)"
| "start_services env (n # ns) =
     (case ae_start env n of
        Some e \<Rightarrow> ([], Some (n, e))
      | None \<Rightarrow> (case start_services env ns of (started, failed) \<Rightarrow> (n # started, failed)))"

definition stop_services :: "app_env \<Rightarrow> string list \<Rightarrow> action list \<times> string list" where
  "stop_services env started =
     (map StopService (rev started),
      concat (map (\<lambda>n. labelled (''stop service '' @ n @ '': '') (ae_stop env n)) (rev started)))"

definition refresh_due :: "app_env \<Rightarrow> bool" where
  "refresh_due env \<longleftrightarrow>
     ae_last_refresh env = zero_time \<or> ae_now env - ae_last_refresh env \<ge> ae_interval env"

definition shut_down :: "app_env \<Rightarrow> string list \<Rightarrow> action list \<times> string list" where
  "shut_down env started =
     (case stop_services env started of (stops, stop_errors) \<Rightarrow>
        ([CancelApp, StopHttp] @ stops @ [WaitBackground, CloseManager, CloseDatabase],
         labelled [] (ae_http_stop env) @ labelled [] (joined_errors stop_errors) @
         labelled ''stop background tasks: '' (ae_background env) @
         labelled ''close VPN manager: '' (ae_manager env) @
         labelled ''close database: '' (ae_database env)))"

definition run_error :: "exit_cause \<Rightarrow> string option" where
  "run_error x = (case x of ServerEnded None \<Rightarrow> Some ''HTTP server stopped unexpectedly''
     | ServerEnded (Some e) \<Rightarrow> Some e | _ \<Rightarrow> None)"

definition app_start :: "app_env \<Rightarrow> action list \<times> app_result" where
  "app_start env =
     (case ae_load env of Some e \<Rightarrow> ([], Failed e)
      | None \<Rightarrow>
     (case ae_open env of Some e \<Rightarrow> ([OpenDatabase], Failed (''open SQLite database: '' @ e))
      | None \<Rightarrow>
     (case ae_executable env of Inl e \<Rightarrow> ([OpenDatabase, CloseDatabase], Failed e)
      | Inr executable \<Rightarrow>
     (case start_services env service_ids of
        (started, Some (n, e)) \<Rightarrow>
          ([OpenDatabase, NewManager] @ map StartService (started @ [n]) @ [CancelApp] @
             fst (stop_services env started) @ [CloseManager, CloseDatabase],
           Failed (''start service '' @ n @ '': '' @ e))
      | (started, None) \<Rightarrow>
          let opening = [OpenDatabase, NewManager] @ map StartService started @ [StartManager, StartRefresher] @
                (if refresh_due env then [TriggerRefresh] else []) @ [StartHttp];
              (closing, errors) = shut_down env started
          in (case joined_errors errors of
                Some e \<Rightarrow>
                  (opening @ closing, Failed (the (joined_errors (labelled [] (run_error (ae_exit env)) @ [e]))))
              | None \<Rightarrow>
                  (case ae_exit env of
                     RestartAsked \<Rightarrow>
                       (opening @ closing @ [Exec executable],
                        case ae_exec env of None \<Rightarrow> Ended | Some e \<Rightarrow> Failed e)
                   | ServerEnded x \<Rightarrow> (opening @ closing, Failed (the (run_error (ServerEnded x))))
                   | Signal \<Rightarrow> (opening @ closing, Interrupted)))))))"

text \<open>\<open>main\<close>: the exit code; an interrupt is not a failure.\<close>

definition main_exit :: "bool \<Rightarrow> app_env \<Rightarrow> nat" where
  "main_exit show_version env =
     (if show_version then 0 else case snd (app_start env) of Failed _ \<Rightarrow> 1 | _ \<Rightarrow> 0)"

section \<open>Nothing is left running\<close>

definition started_in :: "action list \<Rightarrow> string list" where
  "started_in tr = List.map_filter (\<lambda>a. case a of StartService n \<Rightarrow> Some n | _ \<Rightarrow> None) tr"

definition stopped_in :: "action list \<Rightarrow> string list" where
  "stopped_in tr = List.map_filter (\<lambda>a. case a of StopService n \<Rightarrow> Some n | _ \<Rightarrow> None) tr"

lemma services_in_trace:
  "started_in (xs @ ys) = started_in xs @ started_in ys" "stopped_in (xs @ ys) = stopped_in xs @ stopped_in ys"
  "started_in (map StartService ns) = ns" "stopped_in (map StopService ns) = ns"
  "started_in (map StopService ns) = []" "stopped_in (map StartService ns) = []"
  by (simp_all add: started_in_def stopped_in_def List.map_filter_def comp_def)

lemma services_in_Cons:
  "started_in (a # tr) = (case a of StartService n \<Rightarrow> [n] | _ \<Rightarrow> []) @ started_in tr"
  "stopped_in (a # tr) = (case a of StopService n \<Rightarrow> [n] | _ \<Rightarrow> []) @ stopped_in tr"
  "started_in [] = []" "stopped_in [] = []"
  by (simp_all add: started_in_def stopped_in_def map_filter_simps split: action.split)

lemma start_services_ok:
  "start_services env ns = (started, failed) \<Longrightarrow>
   filter (\<lambda>n. ae_start env n = None) started = started \<and>
   (case failed of Some (n, e) \<Rightarrow> ae_start env n = Some e | None \<Rightarrow> started = ns)"
proof (induction ns arbitrary: started)
  case Nil
  then show ?case by auto
next
  case (Cons n ns)
  then show ?case by (auto split: option.splits prod.splits)
qed

lemma joined_errors_None: "joined_errors es = None \<longleftrightarrow> es = []"
  by (simp add: joined_errors_def)

lemma labelled_Nil: "labelled p e = [] \<longleftrightarrow> e = None"
  by (simp add: labelled_def split: option.split)

text \<open>How a run ends that opened the database.\<close>

lemma app_start_trace:
  assumes "app_start env = (tr, res)" and "ae_load env = None" "ae_open env = None"
  obtains (no_executable) e where "tr = [OpenDatabase, CloseDatabase]" "res = Failed e"
  | (not_started) started n e where "start_services env service_ids = (started, Some (n, e))"
      "tr = [OpenDatabase, NewManager] @ map StartService (started @ [n]) @ [CancelApp] @
        map StopService (rev started) @ [CloseManager, CloseDatabase]" "\<exists>e. res = Failed e"
  | (served) between restarted where "start_services env service_ids = (service_ids, None)"
      "tr = [OpenDatabase, NewManager] @ map StartService service_ids @ between @ [StartHttp, CancelApp, StopHttp] @
        map StopService (rev service_ids) @ [WaitBackground, CloseManager, CloseDatabase] @ restarted"
      "set between \<subseteq> {StartManager, StartRefresher, TriggerRefresh}"
      "restarted \<noteq> [] \<Longrightarrow> \<exists>x. restarted = [Exec x] \<and> ae_executable env = Inr x \<and> ae_exit env = RestartAsked \<and>
        snd (shut_down env service_ids) = []"
      "res = Interrupted \<longleftrightarrow> ae_exit env = Signal \<and> snd (shut_down env service_ids) = []"
      "res = Ended \<longleftrightarrow> restarted \<noteq> [] \<and> ae_exec env = None"
proof (cases "ae_executable env")
  case (Inl e)
  then show thesis using assms by (intro no_executable) (auto simp: app_start_def)
next
  case (Inr x)
  obtain started failed where st: "start_services env service_ids = (started, failed)" by fastforce
  show thesis
  proof (cases failed)
    case (Some ne)
    obtain n e where "ne = (n, e)" by fastforce
    with Inr Some st assms show thesis
      by (intro not_started) (auto simp: app_start_def stop_services_def)
  next
    case None
    then have all: "started = service_ids" using start_services_ok [OF st] by simp
    obtain closing errors where sd: "shut_down env service_ids = (closing, errors)" by fastforce
    then have closing: "closing = [CancelApp, StopHttp] @ map StopService (rev service_ids) @
        [WaitBackground, CloseManager, CloseDatabase]"
      by (auto simp: shut_down_def stop_services_def)
    define between where "between = [StartManager, StartRefresher] @ (if refresh_due env then [TriggerRefresh] else [])"
    define restarted where "restarted = (if errors = [] \<and> ae_exit env = RestartAsked then [Exec x] else [])"
    have "tr = [OpenDatabase, NewManager] @ map StartService service_ids @ between @ [StartHttp] @ closing @ restarted \<and>
        (res = Interrupted \<longleftrightarrow> ae_exit env = Signal \<and> errors = []) \<and>
        (res = Ended \<longleftrightarrow> restarted \<noteq> [] \<and> ae_exec env = None)"
      using assms Inr st None all sd
      by (cases "errors = []"; cases "ae_exit env"; cases "ae_exec env")
        (auto simp: app_start_def joined_errors_def between_def restarted_def)
    moreover have "restarted \<noteq> [] \<Longrightarrow> restarted = [Exec x] \<and> ae_exit env = RestartAsked \<and> errors = []"
      by (simp add: restarted_def split: if_splits)
    moreover have "set between \<subseteq> {StartManager, StartRefresher, TriggerRefresh}" by (auto simp: between_def)
    ultimately show thesis
      using st None all sd closing Inr by (intro served [of between restarted]) auto
  qed
qed

text \<open>A run that opened the database: how it closes, and which services it stops.\<close>

definition closes_down :: "app_env \<Rightarrow> action list \<Rightarrow> action list \<Rightarrow> bool" where
  "closes_down env pre post \<longleftrightarrow> CloseDatabase \<notin> set pre \<and>
     (NewManager \<in> set pre \<longrightarrow> last pre = CloseManager) \<and>
     (post = [] \<or>
       (\<exists>x. post = [Exec x] \<and> ae_executable env = Inr x \<and> ae_exit env = RestartAsked \<and>
         ae_http_stop env = None \<and> (\<forall>n \<in> set service_ids. ae_stop env n = None) \<and>
         ae_background env = None \<and> ae_manager env = None \<and> ae_database env = None))"

lemma no_shutdown_errors:
  "snd (shut_down env started) = [] \<longleftrightarrow> ae_http_stop env = None \<and> (\<forall>n \<in> set started. ae_stop env n = None) \<and>
     ae_background env = None \<and> ae_manager env = None \<and> ae_database env = None"
  by (auto simp: shut_down_def stop_services_def labelled_Nil joined_errors_None)

lemma app_closes_down:
  assumes "app_start env = (tr, res)" and "ae_load env = None" "ae_open env = None"
  shows "stopped_in tr = rev (filter (\<lambda>n. ae_start env n = None) (started_in tr)) \<and>
    (\<exists>pre post. tr = pre @ CloseDatabase # post \<and> closes_down env pre post)"
  using assms
proof (cases rule: app_start_trace)
  case no_executable
  then have "tr = [OpenDatabase] @ CloseDatabase # []" by simp
  moreover have "closes_down env [OpenDatabase] []" by (simp add: closes_down_def)
  moreover have "stopped_in tr = []" "started_in tr = []" using no_executable by (simp_all add: services_in_Cons)
  ultimately show ?thesis by (metis filter.simps(1) rev.simps(1))
next
  case (not_started started n e)
  define pre where "pre = [OpenDatabase, NewManager] @ map StartService (started @ [n]) @ [CancelApp] @
        map StopService (rev started) @ [CloseManager]"
  have "tr = pre @ CloseDatabase # []" by (simp add: not_started(2) pre_def)
  moreover have "closes_down env pre []" by (auto simp: closes_down_def pre_def)
  moreover have "stopped_in tr = rev (filter (\<lambda>n. ae_start env n = None) (started_in tr))"
    using start_services_ok [OF not_started(1)]
    by (simp add: not_started(2) services_in_trace services_in_Cons)
  ultimately show ?thesis by blast
next
  case (served between restarted)
  define pre where "pre = [OpenDatabase, NewManager] @ map StartService service_ids @ between @
      [StartHttp, CancelApp, StopHttp] @ map StopService (rev service_ids) @ [WaitBackground, CloseManager]"
  have b: "started_in between = []" "stopped_in between = []" "CloseDatabase \<notin> set between"
    using served(3)
    by (auto simp: started_in_def stopped_in_def List.map_filter_def filter_empty_conv split: action.splits)
  have "tr = pre @ CloseDatabase # restarted" by (simp add: served(2) pre_def)
  moreover have "closes_down env pre restarted"
    using served(4) b(3) by (auto simp: closes_down_def pre_def no_shutdown_errors)
  moreover have "started_in restarted = []" "stopped_in restarted = []"
    using served(4) by (cases "restarted = []"; auto simp: services_in_Cons)+
  then have "stopped_in tr = rev (filter (\<lambda>n. ae_start env n = None) (started_in tr))"
    using start_services_ok [OF served(1)]
    by (simp add: served(2) services_in_trace services_in_Cons b)
  ultimately show ?thesis by blast
qed

text \<open>
  C17: Whatever fails while starting or stopping, every service that was started is stopped once,
  in the reverse order and no other; once the database is open its closing is the last thing done
  but for a restart, after closing the VPN manager if there is one; and the process is replaced
  only when a restart was asked for and every component stopped without an error.
\<close>

theorem app_cleans_up:
  assumes run: "app_start env = (tr, res)"
  shows "stopped_in tr = rev (filter (\<lambda>n. ae_start env n = None) (started_in tr)) \<and>
    (if ae_load env = None \<and> ae_open env = None
     then \<exists>pre post. tr = pre @ CloseDatabase # post \<and> CloseDatabase \<notin> set pre \<and>
       (NewManager \<in> set pre \<longrightarrow> last pre = CloseManager) \<and>
       (post = [] \<or>
         (\<exists>x. post = [Exec x] \<and> ae_executable env = Inr x \<and> ae_exit env = RestartAsked \<and>
           ae_http_stop env = None \<and> (\<forall>n \<in> set service_ids. ae_stop env n = None) \<and>
           ae_background env = None \<and> ae_manager env = None \<and> ae_database env = None))
     else set tr \<subseteq> {OpenDatabase} \<and> (\<exists>e. res = Failed e))"
proof (cases "ae_load env = None \<and> ae_open env = None")
  case False
  then have "(tr = [] \<or> tr = [OpenDatabase]) \<and> (\<exists>e. res = Failed e)"
    using run by (cases "ae_load env"; cases "ae_open env") (auto simp: app_start_def)
  with False show ?thesis by (auto simp: services_in_Cons)
next
  case True
  then show ?thesis
    using app_closes_down [OF run] unfolding closes_down_def by simp
qed

text \<open>A start in which the second service fails.\<close>

definition failing_env :: app_env where
  "failing_env = \<lparr>ae_load = None, ae_open = None, ae_executable = Inr ''/usr/bin/proxygate'',
     ae_start = (\<lambda>n. if n = ''speedtest'' then Some ''boom'' else None), ae_stop = (\<lambda>_. None),
     ae_last_refresh = 0, ae_interval = 5, ae_now = 9, ae_exit = RestartAsked, ae_http_stop = None,
     ae_background = None, ae_manager = None, ae_database = None, ae_exec = None\<rparr>"

theorem app_cleans_up_witness:
  "\<exists>tr. app_start failing_env = (tr, Failed ''start service speedtest: boom'') \<and>
     stopped_in tr = [''socks5''] \<and> (\<exists>pre. tr = pre @ [CloseDatabase] \<and> last pre = CloseManager)"
proof -
  define tr where "tr = [OpenDatabase, NewManager, StartService ''socks5'', StartService ''speedtest'', CancelApp,
      StopService ''socks5'', CloseManager, CloseDatabase]"
  have run: "app_start failing_env = (tr, Failed ''start service speedtest: boom'')"
    by (simp add: app_start_def failing_env_def service_ids_def stop_services_def tr_def)
  have "stopped_in tr = [''socks5'']"
    using app_cleans_up [OF run] by (simp add: tr_def services_in_Cons failing_env_def)
  moreover have "tr = butlast tr @ [CloseDatabase]" "last (butlast tr) = CloseManager" by (simp_all add: tr_def)
  ultimately show ?thesis using run by metis
qed

end
