(* ===== verification/Drivers.thy ===== *)
theory Drivers
  imports VpnGuarantee ConfigValidate
begin

text \<open>
  The VPN drivers, \<open>src/internal/vpn/vpn.go\<close>: what each hands to its protocol library. The
  libraries are not under \<open>src/\<close>: \<open>openvpn.ParseConfig\<close> is the parameter \<open>parse\<close>, and a driver ends
  in the \<open>client\<close> whose \<open>Start\<close> the library runs. Of a parsed OpenVPN configuration the fields the
  driver reads or writes are given; the others are the record's extension and pass through.
\<close>

section \<open>Client configurations\<close>

record remote =
  r_host :: string
  r_protocol :: string

record 'r openvpn_config =
  ov_remote :: string
  ov_protocol :: string
  ov_remotes :: "'r remote_scheme list"
  ov_username :: string
  ov_password :: string

record softether_config =
  se_server :: string
  se_port :: int
  se_hub :: string
  se_username :: string
  se_anonymous :: bool
  se_skip_verify :: bool
  se_openssl_compat :: bool
  se_connect_timeout :: int
  se_dhcp_timeout :: int

record sstp_config =
  ss_server :: string
  ss_port :: int
  ss_username :: string
  ss_password :: string
  ss_skip_verify :: bool
  ss_prefix_length :: int

record l2tp_config =
  l2_server :: string
  l2_psk :: string
  l2_username :: string
  l2_password :: string

datatype ('r, 'o) client =
    OpenVPNClient "('r, 'o) openvpn_config_scheme"
  | SoftEtherClient softether_config
  | SSTPClient sstp_config
  | L2TPClient l2tp_config

section \<open>The drivers\<close>

datatype driver = OpenVPNDriver string | SoftEtherDriver | SSTPDriver | L2TPDriver

definition default_drivers :: "driver list" where
  "default_drivers = [OpenVPNDriver protocol_openvpn_udp, OpenVPNDriver protocol_openvpn_tcp,
     SoftEtherDriver, SSTPDriver, L2TPDriver]"

fun driver_protocol :: "driver \<Rightarrow> string" where
  "driver_protocol (OpenVPNDriver protocol) = protocol"
| "driver_protocol SoftEtherDriver = protocol_softether_tls"
| "driver_protocol SSTPDriver = protocol_sstp"
| "driver_protocol L2TPDriver = protocol_l2tp"

text \<open>\<open>openVPNDriver.Start\<close> up to the library's client: \<open>protocol\<close> is the driver's.\<close>

definition openvpn_transport :: "string \<Rightarrow> string" where
  "openvpn_transport protocol = (if protocol = protocol_openvpn_udp then ''udp4'' else ''tcp4'')"

definition aim_remote :: "string \<Rightarrow> string \<Rightarrow> 'r remote_scheme \<Rightarrow> 'r remote_scheme" where
  "aim_remote ip protocol r = r\<lparr>r_host := ip, r_protocol := protocol\<rparr>"

definition openvpn_client ::
  "(string \<Rightarrow> ('r, 'o) openvpn_config_scheme result) \<Rightarrow> string \<Rightarrow> node \<Rightarrow> config \<Rightarrow> ('r, 'o) client result" where
  "openvpn_client parse protocol n settings =
     (if protocol \<notin> set (n_protocols n) then Inl (''node does not advertise '' @ protocol)
      else case parse (n_openvpn_config n) of
        Inl e \<Rightarrow> Inl (''parse OpenVPN config: '' @ e)
      | Inr parsed \<Rightarrow>
          if (protocol = protocol_openvpn_udp) \<noteq> has_prefix ''udp'' (ov_protocol parsed)
          then Inl (''OpenVPN config transport does not match '' @ protocol)
          else let transport = openvpn_transport protocol
               in Inr (OpenVPNClient (parsed\<lparr>ov_remote := n_ip n, ov_protocol := transport,
                    ov_remotes := map (aim_remote (n_ip n) transport) (ov_remotes parsed),
                    ov_username := vpn_gate_username settings, ov_password := vpn_gate_password settings\<rparr>)))"

definition default_port :: "int \<Rightarrow> int" where
  "default_port port = (if port = 0 then 443 else port)"

definition softether_client :: "node \<Rightarrow> softether_config" where
  "softether_client n =
     \<lparr>se_server = n_ip n, se_port = default_port (n_port n), se_hub = ''VPNGATE'', se_username = ''vpn'',
      se_anonymous = True, se_skip_verify = True, se_openssl_compat = True,
      se_connect_timeout = 5 * second, se_dhcp_timeout = 15 * second\<rparr>"

definition sstp_client :: "node \<Rightarrow> config \<Rightarrow> sstp_config" where
  "sstp_client n settings =
     \<lparr>ss_server = n_ip n, ss_port = default_port (n_port n), ss_username = vpn_gate_username settings,
      ss_password = vpn_gate_password settings, ss_skip_verify = True, ss_prefix_length = 24\<rparr>"

definition l2tp_client :: "node \<Rightarrow> config \<Rightarrow> l2tp_config" where
  "l2tp_client n settings =
     \<lparr>l2_server = n_ip n, l2_psk = vpn_gate_pre_shared_key settings,
      l2_username = vpn_gate_username settings, l2_password = vpn_gate_password settings\<rparr>"

fun driver_client ::
  "(string \<Rightarrow> ('r, 'o) openvpn_config_scheme result) \<Rightarrow> driver \<Rightarrow> node \<Rightarrow> config \<Rightarrow> ('r, 'o) client result" where
  "driver_client parse (OpenVPNDriver protocol) n settings = openvpn_client parse protocol n settings"
| "driver_client parse SoftEtherDriver n settings = Inr (SoftEtherClient (softether_client n))"
| "driver_client parse SSTPDriver n settings = Inr (SSTPClient (sstp_client n settings))"
| "driver_client parse L2TPDriver n settings = Inr (L2TPClient (l2tp_client n settings))"

text \<open>The index of \<open>NewManager\<close>: by protocol, a later driver replacing an earlier one.\<close>

definition index_drivers :: "driver list \<Rightarrow> string \<rightharpoonup> driver" where
  "index_drivers ds = map_of (rev (map (\<lambda>d. (driver_protocol d, d)) ds))"

lemma default_drivers_distinct: "distinct (map driver_protocol default_drivers)"
  by (simp add: default_drivers_def protocol_defs)

lemma index_default:
  "index_drivers default_drivers p = Some drv \<longleftrightarrow> drv \<in> set default_drivers \<and> driver_protocol drv = p"
proof -
  have "distinct (map fst (rev (map (\<lambda>d. (driver_protocol d, d)) default_drivers)))"
    using default_drivers_distinct by (simp add: rev_map [symmetric] o_def)
  then show ?thesis unfolding index_drivers_def by (subst map_of_eq_Some_iff) auto
qed

text \<open>There is a driver for each protocol a configuration may name, and for no other.\<close>

lemma default_drivers_complete: "dom (index_drivers default_drivers) = set valid_protocols"
  by (auto simp: index_drivers_def default_drivers_def valid_protocols_def dom_map_of_conv_image_fst)

lemma first_call_reachable:
  "vpn_reachable drivers d cf (fold (sys_run in_tid vpn_drain) is
     (initial_world (new_manager drivers io1 io2 io3 d) d cf, [call_prog k]))"
proof -
  let ?w = "initial_world (new_manager drivers io1 io2 io3 d) d cf"
  have "vpn_step (?w, []) (?w, [call_prog k])"
    using sys_step.call [of "call_prog k" "range call_prog" in_tid vpn_drain vpn_env ?w "[]"]
    by (simp add: vpn_step_def)
  then have "vpn_step\<^sup>*\<^sup>* (?w, []) (fold (sys_run in_tid vpn_drain) is (?w, [call_prog k]))"
    unfolding vpn_step_def by (rule converse_rtranclp_into_rtranclp) (rule sys_runs_steps)
  then show ?thesis unfolding vpn_reachable_def by blast
qed

section \<open>Where a client connects\<close>

fun client_hosts :: "('r, 'o) client \<Rightarrow> string list" where
  "client_hosts (OpenVPNClient c) = ov_remote c # map r_host (ov_remotes c)"
| "client_hosts (SoftEtherClient c) = [se_server c]"
| "client_hosts (SSTPClient c) = [ss_server c]"
| "client_hosts (L2TPClient c) = [l2_server c]"

fun client_login :: "('r, 'o) client \<Rightarrow> (string \<times> string) option" where
  "client_login (OpenVPNClient c) = Some (ov_username c, ov_password c)"
| "client_login (SoftEtherClient c) = (if se_anonymous c then None else Some (se_username c, []))"
| "client_login (SSTPClient c) = Some (ss_username c, ss_password c)"
| "client_login (L2TPClient c) = Some (l2_username c, l2_password c)"

text \<open>The transports of the endpoints of an OpenVPN client; the other protocols fix their own.\<close>

fun client_transports :: "('r, 'o) client \<Rightarrow> string list" where
  "client_transports (OpenVPNClient c) = ov_protocol c # map r_protocol (ov_remotes c)"
| "client_transports _ = []"

definition client_aimed :: "string \<Rightarrow> node \<Rightarrow> config \<Rightarrow> ('r, 'o) client \<Rightarrow> bool" where
  "client_aimed p n settings cl \<longleftrightarrow> set (client_hosts cl) = {n_ip n} \<and>
     client_login cl \<in> {None, Some (vpn_gate_username settings, vpn_gate_password settings)} \<and>
     set (client_transports cl) \<subseteq> {openvpn_transport p}"

lemma driver_client_aimed:
  assumes "driver_client parse drv n settings = Inr cl"
  shows "client_aimed (driver_protocol drv) n settings cl"
  using assms
  by (cases drv) (auto simp: client_aimed_def openvpn_client_def aim_remote_def softether_client_def
      sstp_client_def l2tp_client_def Let_def split: if_splits sum.splits)

lemma driver_client_fails:
  assumes "drv \<in> set default_drivers" "driver_protocol drv \<in> set (n_protocols n)"
    and "driver_client parse drv n settings = Inl e"
  shows "(drv = OpenVPNDriver protocol_openvpn_udp \<or> drv = OpenVPNDriver protocol_openvpn_tcp) \<and>
    (case parse (n_openvpn_config n) of
       Inl e' \<Rightarrow> e = ''parse OpenVPN config: '' @ e'
     | Inr parsed \<Rightarrow> has_prefix ''udp'' (ov_protocol parsed) \<longleftrightarrow> driver_protocol drv = protocol_openvpn_tcp)"
  using assms
  by (auto simp: default_drivers_def openvpn_client_def Let_def protocol_defs split: if_splits sum.splits)

lemma reachable_drivers:
  assumes "vpn_reachable drivers d cf (w, ts)"
  shows "m_drivers (mgr w) = drivers"
proof -
  have I: "world_inv w' \<and> m_drivers (mgr w') = drivers"
    if "guar t w w'" "world_inv w \<and> m_drivers (mgr w) = drivers" for t w w'
    using that by (simp add: guar_def grows_def)
  have "m_drivers (new_manager drivers io1 io2 io3 d) = drivers" for io1 io2 io3
    by (auto simp: new_manager_def Let_def split: sum.splits)
  then have start: "world_inv w \<and> m_drivers (mgr w) = drivers"
    if "w = initial_world (new_manager drivers io1 io2 io3 d) d cf" for w io1 io2 io3
    using that initial_inv by (simp add: initial_world_def)
  from assms obtain io1 io2 io3 where "(sys_step in_tid vpn_drain vpn_env (range call_prog))\<^sup>*\<^sup>*
      (initial_world (new_manager drivers io1 io2 io3 d) d cf, []) (w, ts)"
    unfolding vpn_reachable_def vpn_step_def by blast
  from vpn.invariant [where I = "\<lambda>w. world_inv w \<and> m_drivers (mgr w) = drivers", OF I this initial_sound start]
  show ?thesis by simp
qed

text \<open>
  C9: A VPN session reaches no host but its node. Whatever the operations of the manager and
  however they are interleaved, a session that was ever opened for a node and a protocol was opened by
  the one driver of that protocol, the node's address is an IPv4 address and the node offers the
  protocol; and whatever the profile the node's operator supplies, however the library parses it, every
  endpoint the driver's client connects to is that address, over the protocol's transport, with no
  credentials but the configured ones. A driver fails before it connects only for an OpenVPN profile
  that does not parse or is for the other transport.
\<close>

theorem session_reaches_only_its_node:
  assumes "vpn_reachable (map driver_protocol default_drivers) d cf (w, ts)"
    and "opened w s = Some (n, p)"
  shows "is_ipv4 (n_ip n) \<and> p \<in> set (n_protocols n) \<and>
    (\<exists>drv. index_drivers default_drivers p = Some drv \<and> driver_protocol drv = p \<and>
       (case driver_client parse drv n settings of
          Inr cl \<Rightarrow> client_aimed p n settings cl
        | Inl e \<Rightarrow> drv = OpenVPNDriver p \<and>
            (case parse (n_openvpn_config n) of
               Inl e' \<Rightarrow> e = ''parse OpenVPN config: '' @ e'
             | Inr parsed \<Rightarrow> has_prefix ''udp'' (ov_protocol parsed) \<longleftrightarrow> p = protocol_openvpn_tcp)))"
proof -
  have "handle_inv w" using vpn_reachable_inv [OF assms(1)] by (simp add: world_inv_def)
  then have o: "is_ipv4 (n_ip n)" "p \<in> set (n_protocols n)" "p \<in> driver_protocol ` set default_drivers"
    using assms(2) reachable_drivers [OF assms(1)] unfolding handle_inv_def by auto
  then obtain drv where drv: "drv \<in> set default_drivers" "driver_protocol drv = p" by blast
  show ?thesis
  proof (intro conjI o(1,2) exI [of _ drv] drv(2))
    show "index_drivers default_drivers p = Some drv" using drv by (simp add: index_default)
    show "case driver_client parse drv n settings of
          Inr cl \<Rightarrow> client_aimed p n settings cl
        | Inl e \<Rightarrow> drv = OpenVPNDriver p \<and>
            (case parse (n_openvpn_config n) of
               Inl e' \<Rightarrow> e = ''parse OpenVPN config: '' @ e'
             | Inr parsed \<Rightarrow> has_prefix ''udp'' (ov_protocol parsed) \<longleftrightarrow> p = protocol_openvpn_tcp)"
      using driver_client_aimed [of parse drv n settings] driver_client_fails [of drv n parse settings] drv o(2)
      by (cases "driver_client parse drv n settings") auto
  qed
qed

text \<open>A node whose profile names other hosts.\<close>

definition sample_profile :: "(unit, unit) openvpn_config_scheme" where
  "sample_profile = \<lparr>ov_remote = ''evil.example'', ov_protocol = ''udp'',
     ov_remotes = [\<lparr>r_host = ''evil.example'', r_protocol = ''tcp'', \<dots> = ()\<rparr>], ov_username = ''x'',
     ov_password = ''y'', \<dots> = ()\<rparr>"

definition sample_vpn_node :: node where
  "sample_vpn_node = (sample_node ''1.2.3.4'' 5)\<lparr>n_protocols := [protocol_openvpn_udp], n_openvpn_config := ''p''\<rparr>"

definition sample_udp_db :: db where
  "sample_udp_db = empty_db\<lparr>rows := [incoming_row empty_db [] sample_vpn_node]\<rparr>"

definition sample_udp_run :: "world \<times> unit act list" where
  "sample_udp_run = fold (sys_run in_tid vpn_drain) (replicate 20 (calm 0))
     (initial_world (new_manager (map driver_protocol default_drivers) None None None sample_udp_db)
        sample_udp_db (default_config ''h'' ''s''), [call_prog (Start root_ctx)])"

lemma sample_udp_reachable:
  "vpn_reachable (map driver_protocol default_drivers) sample_udp_db (default_config ''h'' ''s'')
     (fst sample_udp_run, snd sample_udp_run)"
  unfolding prod.collapse sample_udp_run_def by (rule first_call_reachable)

lemma sample_udp_opened:
  "map_option (\<lambda>(n, p). (n_ip n, n_openvpn_config n, p)) (opened (fst sample_udp_run) 0) =
   Some (''1.2.3.4'', ''p'', protocol_openvpn_udp)"
  by code_simp

lemma session_reaches_only_its_node_witness:
  "\<exists>n cl. opened (fst sample_udp_run) 0 = Some (n, protocol_openvpn_udp) \<and>
     driver_client (\<lambda>_. Inr sample_profile) (OpenVPNDriver protocol_openvpn_udp) n (default_config ''h'' ''s'') =
       Inr cl \<and> set (client_hosts cl) = {''1.2.3.4''}"
proof -
  obtain n where n: "opened (fst sample_udp_run) 0 = Some (n, protocol_openvpn_udp)" "n_ip n = ''1.2.3.4''"
    using sample_udp_opened by auto
  obtain drv where drv: "index_drivers default_drivers protocol_openvpn_udp = Some drv"
    "driver_client (\<lambda>_. Inr sample_profile) drv n (default_config ''h'' ''s'') = Inr cl \<Longrightarrow>
       client_aimed protocol_openvpn_udp n (default_config ''h'' ''s'') cl"
    "driver_client (\<lambda>_. Inr sample_profile) drv n (default_config ''h'' ''s'') = Inl e \<Longrightarrow>
       has_prefix ''udp'' (ov_protocol sample_profile) \<longleftrightarrow> protocol_openvpn_udp = protocol_openvpn_tcp" for cl e
    using session_reaches_only_its_node [OF sample_udp_reachable n(1), of "\<lambda>_. Inr sample_profile"
        "default_config ''h'' ''s''"]
    by (elim conjE exE) (auto split: sum.splits)
  have "drv = OpenVPNDriver protocol_openvpn_udp"
    using drv(1) unfolding index_default by (auto simp: default_drivers_def protocol_defs)
  then show ?thesis
    using drv(2,3) n
    by (cases "driver_client (\<lambda>_. Inr sample_profile) drv n (default_config ''h'' ''s'')")
      (auto simp: client_aimed_def sample_profile_def protocol_defs)
qed

end
