(* ===== verification/EndToEnd.thy ===== *)
theory EndToEnd
  imports SocksServer VpnFlow VpnDns WebHandlers Refresher
begin

text \<open>
  Components put together as \<open>cmd/proxygate/app.go\<close> puts them together: the SOCKS5 server dials
  through the VPN manager, a refresh feeds the next automatic switch, and a configuration saved
  over the web interface is what the proxy runs with after a restart.
\<close>

section \<open>A client's connection\<close>

text \<open>
  The server's dialer is the manager. What a session and the host's own network make of an address
  is theirs; a success is the local address.
\<close>

definition manager_dials ::
  "manager \<Rightarrow> (string \<Rightarrow> ip list result) \<Rightarrow> (nat \<Rightarrow> string \<Rightarrow> string \<Rightarrow> net_addr result) \<Rightarrow>
   (string \<Rightarrow> string \<Rightarrow> net_addr result) \<Rightarrow> string \<Rightarrow> string \<Rightarrow> net_addr result" where
  "manager_dials m resolve tunnel host_network network address =
     (case dial_context m resolve network address of
        DialDirect n a \<Rightarrow> host_network n a
      | DialSession s n a \<Rightarrow> tunnel s n a
      | DialError e \<Rightarrow> Inl e)"

lemma target_network_tcp: "has_prefix ''tcp'' (target_network t)"
  by (cases t) simp_all

text \<open>The port a client asked for is the port of the address it is split off from.\<close>

lemma split_join_port:
  assumes "split_host_port (join_host_port h port) = Inr (host, port')" and "CHR '':'' \<notin> set port"
  shows "port' = port"
proof -
  obtain q where q: "join_host_port h port = q @ CHR '':'' # port"
    by (cases "CHR '':'' \<in> set h") (auto simp: join_host_port_def)
  have "last_char_index CHR '':'' (join_host_port h port) = Some (length q)"
    unfolding q by (rule last_char_index_append [OF assms(2)])
  then show ?thesis
    using assms(1) unfolding q by (auto simp: split_host_port_def split: if_splits option.splits)
qed

lemma show_int_no_colon: "0 \<le> port \<Longrightarrow> CHR '':'' \<notin> set (show_int port)"
  by (simp add: show_int_def show_nat_no_char is_digit_def)

text \<open>What a session is asked to dial for a host and a port.\<close>

definition tunnel_target :: "(string \<Rightarrow> ip list result) \<Rightarrow> string \<Rightarrow> int \<Rightarrow> string \<Rightarrow> bool" where
  "tunnel_target resolve host port a \<longleftrightarrow>
     (case parse_ip host of
        Some x \<Rightarrow> to4 x \<noteq> None \<and> split_host_port a = Inr (host, show_int port)
      | None \<Rightarrow> \<exists>x as. resolve host = Inr (x # as) \<and> a = join_host_port (ip_string x) (show_int port))"

lemma dial_session_target:
  assumes "dial_session_ipv4 resolve s (join_host_port h (show_int port)) = DialSession s' n a" and "0 \<le> port"
  shows "s' = s \<and> n = ''tcp4'' \<and>
    (\<exists>host. map_sum id fst (split_host_port (join_host_port h (show_int port))) = Inr host \<and>
       tunnel_target resolve host port a)"
proof -
  obtain host port' where hp: "split_host_port (join_host_port h (show_int port)) = Inr (host, port')"
    using assms(1) by (cases "split_host_port (join_host_port h (show_int port))") (auto simp: dial_session_ipv4_def)
  have p: "port' = show_int port" by (rule split_join_port [OF hp show_int_no_colon [OF assms(2)]])
  show ?thesis
    using assms(1) hp unfolding p
    by (auto simp: dial_session_ipv4_def tunnel_target_def split: option.splits sum.splits list.splits if_splits)
qed

lemma relaying_dialled:
  assumes "handle u p env c = (dialled, Relaying network address, c')"
  shows "dialled = Some (network, address)"
proof -
  have "fst (handle_udp_associate env c) \<noteq> Relaying network address" for c
    by (auto simp: handle_udp_associate_def Let_def split: sum.splits prod.splits option.splits)
  then have "handle_udp_associate env c \<noteq> (Relaying network address, c')" for c by (metis fst_conv)
  then show ?thesis
    using assms by (auto simp: handle_def handle_connect_def split: prod.splits sum.splits if_splits option.splits)
qed


definition sample_dialer :: "string \<Rightarrow> string \<Rightarrow> net_addr result" where
  "sample_dialer = manager_dials (mgr (fst (sample_run 17))) (\<lambda>_. Inr [[10, 0, 0, 9]])
     (\<lambda>s n a. if a = ''10.0.0.9:443'' then Inr (TCPAddr [10, 0, 0, 1] 5000) else Inl ''refused'') (\<lambda>_ _. Inl ''offline'')"

lemma sample_installed: "\<not> m_direct_mode (mgr (fst (sample_run 17)))" "m_session (mgr (fst (sample_run 17))) = Some 0"
  by code_simp+

lemma sample_dials: "sample_dialer ''tcp4'' ''host:443'' = Inr (TCPAddr [10, 0, 0, 1] 5000)"
proof -
  have "dial_session_ipv4 (\<lambda>_. Inr [[10, 0, 0, 9]]) 0 ''host:443'' = DialSession 0 ''tcp4'' ''10.0.0.9:443''"
    by code_simp
  then show ?thesis
    using sample_installed by (simp add: sample_dialer_def manager_dials_def dial_context_def)
qed

lemma sample_tunnelled:
  "\<exists>out. handle ''me'' ''pw'' (sample_handle_env\<lparr>he_dial := sample_dialer\<rparr>) sample_client =
     (Some (''tcp4'', ''host:443''), Relaying ''tcp4'' ''host:443'', out)"
  using sample_handled
  by (auto simp: handle_def handle_connect_def sample_dials sample_handle_env_def split: sum.splits prod.splits if_splits)


section \<open>Settings across a restart\<close>

lemma wanted_config_settings:
  assumes "wanted_config bcrypt old (c0, pw) = Inr c"
  shows "c\<lparr>web := web c0\<rparr> = c0 \<and> web_username (web c) = web_username (web c0) \<and>
    (if pw = [] then web_password_hash (web c) = web_password_hash (web old)
     else bcrypt pw = Inr (web_password_hash (web c)))"
  using assms by (cases "bcrypt pw")
    (auto simp: wanted_config_def Let_def kept_secrets_def with_password_def split: if_splits)

lemma database_path_only:
  "(c\<lparr>database_path := p\<rparr>)\<lparr>web := x, database_path := q\<rparr> = c\<lparr>web := x, database_path := q\<rparr>"
  by (cases c) simp


lemma sample_surroundings:
  "is_abs (cs_path saved_store)" "clean (cs_path saved_store) = cs_path saved_store" "no_overrides sample_environment"
proof -
  have p: "cs_path saved_store = ''/c/config.json''"
    using save_effect [OF sample_saved_ok, unfolded option.case, folded saved_store_def]
    by (simp add: sample_cstore_def)
  show "is_abs (cs_path saved_store)" "clean (cs_path saved_store) = cs_path saved_store"
    unfolding p by (simp_all add: is_abs_def clean_def elements_def)
  show "no_overrides sample_environment"
    by (simp add: no_overrides_def sample_environment_def trim_space_def trim_right_def trim_left.simps
        space_len_def space_runes_def)
qed


section \<open>A refresh and the switch after it\<close>

text \<open>The nodes an automatic switch tries, in order, are a page of the ranked table.\<close>

lemma find_split: "find P xs = Some x \<Longrightarrow> \<exists>before after. xs = before @ x # after \<and> P x \<and> (\<forall>y \<in> set before. \<not> P y)"
  by (induction xs) (auto split: if_splits intro: exI [of _ "[]"], metis append_Cons set_ConsD)

lemma sorted_first_found:
  fixes key :: "'a \<Rightarrow> 'k :: linorder"
  assumes "sorted (map key xs)" "find P xs = Some x" "y \<in> set xs" "P y"
  shows "key x \<le> key y"
proof -
  from find_split [OF assms(2)] obtain before after where
    "xs = before @ x # after" "\<forall>y \<in> set before. \<not> P y" by blast
  then show ?thesis using assms(1,3,4) by (auto simp: sorted_append)
qed

text \<open>
  C12: A downloaded list is what the next automatic switch connects from. Refreshing with what the server
  sent keeps, beside the list, only the node the manager asks to preserve; and an undisturbed automatic
  switch after it, when one of the ten best ranked stored nodes can be reached, succeeds and installs a
  new session, closing the one before, to a node that the list contains, with the measurements it had, or
  that was preserved, by the first working protocol of the configured priority; and no stored node that
  can be reached ranks before it.
\<close>

theorem refreshed_list_is_connected:
  assumes order: "\<forall>xs. mset (order xs) = mset xs"
    and fetched: "fetch bad get js order start url expression = Inr ns"
    and d: "db_inv (wdb w)" and now: "in_years now" and idle: "\<not> rf_locked r"
    and refreshed: "refresh (Inr ns) now (preserved_ip (mgr w)) None (r, wdb w) = (result, r', d')"
    and run: "steady t st pr e" "ready t c w" "world_inv w"
    and page: "store_nodes None (selection_mode (conf w)) 10 0 d' = Inr page"
    and some: "n0 \<in> set page" "reachable_with st w n0 \<noteq> None"
  shows "result = Inr () \<and> (\<exists>w' n p. exec (switch_automatic_locked c) e (w\<lparr>wdb := d'\<rparr>) = Some (None, w') \<and>
    active_ip (mgr w') = n_ip n \<and> m_protocol (mgr w') = p \<and> m_state (mgr w') = ''connected'' \<and>
    m_session (mgr w') = Some (next_session w) \<and> next_session w \<notin> open_sessions w \<and>
    open_sessions w' = insert (next_session w) (open_sessions w - set_option (m_session (mgr w))) \<and>
    reachable_with st w n = Some p \<and>
    ((\<exists>m \<in> set ns. valid_node m \<and> n = refreshed_node (node_option (n_ip m) (wdb w)) now (m\<lparr>n_refreshed_at := now\<rparr>)) \<or>
     n_ip n = preserved_ip (mgr w) \<and> store_node None (n_ip n) (wdb w) = Inr n) \<and>
    (\<forall>a m. store_node None a d' = Inr m \<and> reachable_with st w m \<noteq> None \<longrightarrow>
       order_node (selection_mode (conf w)) n \<le> order_node (selection_mode (conf w)) m))"
proof -
  note ns = fetch_Inr [OF order fetched]
  have "distinct (map n_ip (stamped now ns))" using ns(1) by simp
  from replace_nodes_effect [OF d this now, of "preserved_ip (mgr w)"] obtain d2 where
    s: "store_refresh (Inr ns) now (preserved_ip (mgr w)) None (wdb w) = (Inr (), d2)" and inv: "db_inv d2"
    and reads: "\<And>a. store_node None a d2 =
      (case find (\<lambda>n. n_ip n = a) (stamped now ns) of
         Some n \<Rightarrow> Inr (refreshed_node (node_option a (wdb w)) now n)
       | None \<Rightarrow> if a = preserved_ip (mgr w) \<and> preserved_ip (mgr w) \<noteq> [] then store_node None a (wdb w)
                 else Inl err_no_rows)"
    by (auto simp: store_refresh_def)
  have res: "result = Inr ()" "d2 = d'" using refreshed refresh_idle [OF idle s] by simp_all
  let ?mode = "selection_mode (conf w)" and ?w = "w\<lparr>wdb := d'\<rparr>"
  from first_page [OF inv, of 10 ?mode] page res(2) have pg: "sorted (map (order_node ?mode) page)"
    "\<And>n. n \<in> set page \<Longrightarrow> store_node None (n_ip n) d' = Inr n"
    "\<And>a n m. store_node None a d' = Inr n \<Longrightarrow> n \<notin> set page \<Longrightarrow> m \<in> set page \<Longrightarrow>
       order_node ?mode m \<le> order_node ?mode n" by auto
  have "find (\<lambda>n. reachable_with st w n \<noteq> None) page \<noteq> None" using some by (auto simp: find_None_iff)
  then obtain n where f: "find (\<lambda>n. reachable_with st w n \<noteq> None) page = Some n" by blast
  then obtain before after where n: "page = before @ n # after" "reachable_with st w n \<noteq> None"
    "\<forall>b \<in> set before. reachable_with st w b = None" using find_split by fastforce
  then obtain p where p: "reachable_with st w n = Some p" by blast
  have np: "n \<in> set page" using n(1) by simp
  have "ready t c ?w" "world_inv ?w" using run(2,3) by (simp_all add: ready_def world_inv_defs)
  from switch_automatic_best_node [OF run(1) this, of before n after p] page n p
  obtain w' where w': "exec (switch_automatic_locked c) e ?w = Some (None, w')" "active_ip (mgr w') = n_ip n"
    "m_protocol (mgr w') = p" "m_state (mgr w') = ''connected''" "m_session (mgr w') = Some (next_session w)"
    "next_session w \<notin> open_sessions w"
    "open_sessions w' = insert (next_session w) (open_sessions w - set_option (m_session (mgr w)))" by auto
  have origin: "(\<exists>m \<in> set ns. valid_node m \<and>
       n = refreshed_node (node_option (n_ip m) (wdb w)) now (m\<lparr>n_refreshed_at := now\<rparr>)) \<or>
     n_ip n = preserved_ip (mgr w) \<and> store_node None (n_ip n) (wdb w) = Inr n"
  proof (cases "find (\<lambda>m. n_ip m = n_ip n) (stamped now ns)")
    case None
    then show ?thesis using pg(2) [OF np] reads [of "n_ip n"] res(2) by (auto split: if_splits)
  next
    case (Some x)
    from find_split [OF this] have "x \<in> set (stamped now ns)" "n_ip x = n_ip n" by auto
    then obtain m where m: "m \<in> set ns" "x = m\<lparr>n_refreshed_at := now\<rparr>" "n_ip x = n_ip n"
      by (auto simp: stamped_def)
    then have "n = refreshed_node (node_option (n_ip m) (wdb w)) now (m\<lparr>n_refreshed_at := now\<rparr>)"
      using pg(2) [OF np] reads [of "n_ip n"] res(2) Some by simp
    then show ?thesis using m(1) ns(2) by blast
  qed
  have best: "order_node ?mode n \<le> order_node ?mode m"
    if "store_node None a d' = Inr m" "reachable_with st w m \<noteq> None" for a m
    using that pg(3) [of a m n] np sorted_first_found [OF pg(1) f, of m] by (cases "m \<in> set page") auto
  show ?thesis using res(1) w' p origin best by blast
qed

definition sample_refreshed :: db where
  "sample_refreshed = snd (snd (refresh (Inr [csv_node ''b'' 9]) 5000 [] None (new_refresher, empty_db)))"

definition sample_empty_world :: world where
  "sample_empty_world = sample_world\<lparr>wdb := empty_db\<rparr>"

lemma preserved_none: "preserved_ip (mgr sample_empty_world) = []" "wdb sample_empty_world = empty_db"
  by (simp_all add: sample_empty_world_def preserved_ip_def sample_world_def initial_world_def new_manager_def
      Let_def split: sum.splits)

lemma sample_refresh:
  "refresh (Inr [csv_node ''b'' 9]) 5000 (preserved_ip (mgr sample_empty_world)) None
     (new_refresher, wdb sample_empty_world) =
   (Inr (), fst (snd (refresh (Inr [csv_node ''b'' 9]) 5000 [] None (new_refresher, empty_db))), sample_refreshed)"
  "rows sample_refreshed = [incoming_row empty_db (format_time 5000) ((csv_node ''b'' 9)\<lparr>n_refreshed_at := 5000\<rparr>)]"
proof -
  have s: "store_refresh (Inr [csv_node ''b'' 9]) 5000 [] None empty_db =
    (Inr (), empty_db\<lparr>rows := [incoming_row empty_db (format_time 5000) ((csv_node ''b'' 9)\<lparr>n_refreshed_at := 5000\<rparr>)],
       meta := (meta empty_db)(''last_refresh'' \<mapsto> format_time 5000)\<rparr>)"
    by (simp add: store_refresh_def stamped_def replace_nodes_def preserved_rows_def Let_def)
  have "\<not> rf_locked new_refresher" by (simp add: new_refresher_def)
  note r = refresh_idle [OF this s]
  show "refresh (Inr [csv_node ''b'' 9]) 5000 (preserved_ip (mgr sample_empty_world)) None
       (new_refresher, wdb sample_empty_world) =
     (Inr (), fst (snd (refresh (Inr [csv_node ''b'' 9]) 5000 [] None (new_refresher, empty_db))), sample_refreshed)"
    "rows sample_refreshed = [incoming_row empty_db (format_time 5000) ((csv_node ''b'' 9)\<lparr>n_refreshed_at := 5000\<rparr>)]"
    unfolding preserved_none sample_refreshed_def r by simp_all
qed

lemma sample_page:
  "\<exists>n. store_nodes None (selection_mode (conf sample_empty_world)) 10 0 sample_refreshed = Inr [n] \<and>
     n_ip n = ''1.2.3.4'' \<and> n_protocols n = native_protocols"
  by (simp add: store_nodes_def sql_page_def sample_refresh(2) scan_node_def incoming_row_def csv_node_def Let_def)

lemma refreshed_list_is_connected_witness:
  "\<exists>w'. exec (switch_automatic_locked root_ctx) (answers None) (sample_empty_world\<lparr>wdb := sample_refreshed\<rparr>) =
      Some (None, w') \<and> m_state (mgr w') = ''connected''"
proof -
  obtain n where page: "store_nodes None (selection_mode (conf sample_empty_world)) 10 0 sample_refreshed = Inr [n]"
    and n: "n_ip n = ''1.2.3.4''" "n_protocols n = native_protocols" using sample_page by blast
  have "conf sample_empty_world = default_config ''h'' ''s''" "m_drivers (mgr sample_empty_world) = [protocol_sstp]"
    by (simp_all add: sample_empty_world_def)
  then have r: "reachable_with (\<lambda>_ _. None) sample_empty_world n \<noteq> None"
    using sample_ipv4 n
    by (simp add: reachable_with_def VpnFlow.usable_def default_config_def native_protocols_def protocol_defs)
  have w: "ready 0 root_ctx sample_empty_world" "world_inv sample_empty_world"
    "db_inv (wdb sample_empty_world)"
    using sample_ready sample_inv tame_inv [OF tame_db, of sample_world empty_db] unfolding sample_empty_world_def
    by (simp_all add: ready_def db_inv_def empty_db_def)
  have f: "\<forall>xs. mset (rev xs) = mset (xs :: node_table)" "in_years 5000" "\<not> rf_locked new_refresher"
    by (simp_all add: new_refresher_def in_years_small)
  show ?thesis
    using refreshed_list_is_connected [OF f(1) sample_fetch w(3) f(2,3) sample_refresh(1) steady_answers w(1,2) page _ r]
    by auto
qed

end
