(* ===== verification/FirstStart.thy ===== *)
theory FirstStart
  imports ConfigStore GoBase64
begin

text \<open>
  The first start, when there is no configuration file: \<open>load\<close> of \<open>src/internal/config/config.go\<close>
  with the random password and secret it generates. The random bytes and bcrypt are arguments.
\<close>

definition random_secret :: "bytes \<Rightarrow> string" where
  "random_secret random = encode64 url_alphabet False random"

definition random_password :: "bytes \<Rightarrow> string" where
  "random_password random = encode64 url_alphabet False random"

definition generate_first_run :: "bytes \<Rightarrow> bytes \<Rightarrow> (string \<Rightarrow> string) \<Rightarrow> first_run" where
  "generate_first_run random1 random2 bcrypt =
     (let password = random_password random1
      in \<lparr>f_password = password, f_hash = bcrypt password, f_secret = random_secret random2\<rparr>)"

text \<open>\<open>Load\<close> and \<open>LoadWithLogger\<close>.\<close>

definition load_quietly ::
  "string result \<Rightarrow> string option \<Rightarrow> environment \<Rightarrow> first_run \<Rightarrow> save_io \<Rightarrow> string \<Rightarrow> disk \<Rightarrow>
   cstore result \<times> disk \<times> string list" where
  "load_quietly cwd read_error env run io = load cwd read_error env run io False"

definition load_with_logger ::
  "string result \<Rightarrow> string option \<Rightarrow> environment \<Rightarrow> first_run \<Rightarrow> save_io \<Rightarrow> string \<Rightarrow> disk \<Rightarrow>
   cstore result \<times> disk \<times> string list" where
  "load_with_logger cwd read_error env run io = load cwd read_error env run io True"

section \<open>Lengths\<close>

lemma encode64_length:
  "length (encode64 alphabet False bs) = (4 * length bs + 2) div 3"
  by (induction alphabet False bs rule: encode64.induct) (auto simp: Let_def)

lemma encode64_faithful: "decode64 url_alphabet False (encode64 url_alphabet False bs) = Some bs"
  using decode_encode64 [OF usable_url] by simp

section \<open>The first start and the next\<close>

lemma no_overrides_same: "no_overrides env \<Longrightarrow> apply_environment_overrides env c = c"
  by (simp add: apply_environment_overrides_def no_overrides_def Let_def)

lemma absolute_database_again: "is_abs (database_path c) \<Longrightarrow> absolute_database path c = c"
  by (simp add: absolute_database_def)

lemma load_new:
  assumes path: "is_abs path" "clean path = path" and new: "files path = None" and env: "no_overrides env"
    and io: "io_mkdir io = None" "io_write io = None" "io_rename io = None"
    and hash: "f_hash run \<noteq> []" and secret: "f_secret run \<noteq> []"
  shows "\<exists>files'. load cwd None env run io logger path files =
      (Inr \<lparr>cs_path = path, cs_config = absolute_database path (default_config (f_hash run) (f_secret run))\<rparr>,
       files', if logger then [''[config] generated first-run web password for admin: '' @ f_password run] else []) \<and>
    save_config io (absolute_database path (default_config (f_hash run) (f_secret run)))
      (\<lparr>cs_path = path, cs_config = absolute_database path (default_config (f_hash run) (f_secret run))\<rparr>, files) =
      (None, \<lparr>cs_path = path, cs_config = absolute_database path (default_config (f_hash run) (f_secret run))\<rparr>, files')"
proof -
  let ?c = "default_config (f_hash run) (f_secret run)"
  let ?v = "absolute_database path ?c"
  have abs: "is_abs (database_path ?v)" by (rule absolute_database_abs [OF path(1)])
  have "valid_config ?c" using default_valid [OF hash secret] by (simp add: validate_iff)
  moreover have "?v = ?c\<lparr>database_path := database_path ?v\<rparr>" by (simp add: absolute_database_def)
  ultimately have v: "validate ?v = None"
    using valid_other_database [OF _ trim_space_abs [OF abs], of ?c] by (metis validate_iff)
  have u: "web_username (web ?v) = ''admin''" by (simp add: absolute_database_def default_config_def)
  show ?thesis
    using path new v u io absolute_database_again [OF abs, of path]
    by (simp add: load_def path_abs_def no_overrides_same [OF env] save_config_def write_config_def Let_def)
qed


lemma zero_digit: "digit64 url_alphabet 0 k = CHR ''A''"
  by (simp add: digit64_def sixbits_def url_alphabet_def)

lemma encode64_zeros: "encode64 url_alphabet False (replicate (3 * k) 0) = replicate (4 * k) (CHR ''A'')"
proof (induction k)
  case (Suc k)
  have "replicate (3 + 3 * k) (0 :: byte) = 0 # 0 # 0 # replicate (3 * k) 0"
    and "replicate (4 + 4 * k) a = a # a # a # a # replicate (4 * k) a" for a :: char
    by (simp_all add: eval_nat_numeral)
  then show ?case using Suc.IH by (simp add: zero_digit)
qed simp


end
