(* ===== verification/Process.thy ===== *)
theory Process
  imports App VpnDns NodeStore
begin

text \<open>
  The process around the application: the command line (\<open>arguments.go\<close> over Go's \<open>flag\<close> package),
  the exit code of the whole program, opening the database file (\<open>store.go\<close>), and the ends of the
  web server that meet its library (\<open>start.go\<close>, \<open>stop.go\<close>, \<open>version.go\<close>, \<open>web/embed.go\<close>).
\<close>

section \<open>The command line\<close>

record arguments =
  config_path :: string
  show_version :: bool

definition default_arguments :: arguments where
  "default_arguments = \<lparr>config_path = ''config.json'', show_version = False\<rparr>"

text \<open>\<open>strconv.ParseBool\<close>.\<close>

definition parse_bool :: "string \<Rightarrow> bool option" where
  "parse_bool s =
     (if s \<in> {''1'', ''t'', ''T'', ''TRUE'', ''true'', ''True''} then Some True
      else if s \<in> {''0'', ''f'', ''F'', ''FALSE'', ''false'', ''False''} then Some False else None)"

text \<open>
  \<open>flag.Parse\<close> on the two flags of the program; an error is the exit code of \<open>ExitOnError\<close>: 0 when
  help was asked for, 2 otherwise. \<open>flag_text\<close> is what is left of an argument without its dashes:
  \<open>None\<close> ends the flags.
\<close>

definition flag_text :: "string \<Rightarrow> string option" where
  "flag_text s =
     (case s of c # d # name \<Rightarrow>
        if c \<noteq> CHR ''-'' then None
        else if d = CHR ''-'' then (if name = [] then None else Some name)
        else Some (d # name)
      | _ \<Rightarrow> None)"

definition flag_value :: "string \<Rightarrow> string \<times> string option" where
  "flag_value text =
     (case dropWhile (\<lambda>c. c \<noteq> CHR ''='') (tl text) of
        [] \<Rightarrow> (text, None)
      | _ # value \<Rightarrow> (hd text # takeWhile (\<lambda>c. c \<noteq> CHR ''='') (tl text), Some value))"

definition bad_syntax :: "string \<Rightarrow> bool" where
  "bad_syntax text \<longleftrightarrow> text = [] \<or> hd text \<in> {CHR ''-'', CHR ''=''}"

fun parse_flags :: "arguments \<Rightarrow> string list \<Rightarrow> nat + arguments" where
  "parse_flags args [] = Inr args"
| "parse_flags args (s # rest) =
     (case flag_text s of None \<Rightarrow> Inr args
      | Some text \<Rightarrow>
          if bad_syntax text then Inl 2
          else case flag_value text of (name, value) \<Rightarrow>
            if name = ''version''
            then (case value of None \<Rightarrow> parse_flags (args\<lparr>show_version := True\<rparr>) rest
                  | Some v \<Rightarrow> (case parse_bool v of None \<Rightarrow> Inl 2
                      | Some b \<Rightarrow> parse_flags (args\<lparr>show_version := b\<rparr>) rest))
            else if name = ''config''
            then (case value of Some v \<Rightarrow> parse_flags (args\<lparr>config_path := v\<rparr>) rest
                  | None \<Rightarrow> (case rest of [] \<Rightarrow> Inl 2
                      | v # rest' \<Rightarrow> parse_flags (args\<lparr>config_path := v\<rparr>) rest'))
            else if name = ''help'' \<or> name = ''h'' then Inl 0 else Inl 2)"

definition parse_command_line :: "string list \<Rightarrow> nat + arguments" where
  "parse_command_line = parse_flags default_arguments"

text \<open>The program: its exit code, given what its environment does with a configuration path.\<close>

definition program :: "(string \<Rightarrow> app_env) \<Rightarrow> string list \<Rightarrow> nat" where
  "program env argv =
     (case parse_command_line argv of Inl code \<Rightarrow> code
      | Inr args \<Rightarrow> main_exit (show_version args) (env (config_path args)))"

lemma parse_flags_config:
  "parse_flags args (''-config'' # v # rest) = parse_flags (args\<lparr>config_path := v\<rparr>) rest"
  "parse_flags args ((''-config='' @ v) # rest) = parse_flags (args\<lparr>config_path := v\<rparr>) rest"
  "parse_flags args ((''--config='' @ v) # rest) = parse_flags (args\<lparr>config_path := v\<rparr>) rest"
  by (simp_all add: flag_text_def flag_value_def bad_syntax_def)

lemma parse_flags_version:
  "parse_flags args (''-version'' # rest) = parse_flags (args\<lparr>show_version := True\<rparr>) rest"
  "parse_flags args (''-version=false'' # rest) = parse_flags (args\<lparr>show_version := False\<rparr>) rest"
  by (simp_all add: flag_text_def flag_value_def bad_syntax_def parse_bool_def)

text \<open>Every pair of arguments can be given, whatever the path, and whatever follows the flags.\<close>

definition render_arguments :: "arguments \<Rightarrow> string list" where
  "render_arguments args =
     (''-config='' @ config_path args) # (if show_version args then [''-version''] else [])"

lemma parse_render_arguments: "parse_command_line (render_arguments args @ ''--'' # rest) = Inr args"
proof -
  have end_of_flags: "parse_flags a (''--'' # rest) = Inr a" for a by (simp add: flag_text_def)
  show ?thesis
    using parse_flags_config(2) [of default_arguments "config_path args"]
    by (cases "show_version args")
      (simp_all add: parse_command_line_def render_arguments_def parse_flags_version(1) end_of_flags
        default_arguments_def del: parse_flags.simps)
qed

text \<open>The configuration file of the run is the rendered one; a version request starts nothing.\<close>

lemma program_rendered:
  "program env (render_arguments args @ ''--'' # rest) =
     (if show_version args then 0 else main_exit False (env (config_path args)))"
  by (simp add: program_def parse_render_arguments main_exit_def)

section \<open>The database file\<close>

text \<open>\<open>configureSQLite\<close> on a new connection, and \<open>Open\<close>: a store, or the error and whether the
  opened database was closed again.\<close>

definition configure_sqlite :: "string option \<Rightarrow> string option \<Rightarrow> string option" where
  "configure_sqlite busy_timeout pragmas = (if busy_timeout \<noteq> None then busy_timeout else pragmas)"

definition open_store ::
  "string option \<Rightarrow> db result \<Rightarrow> string option \<Rightarrow> (string \<times> bool) + db" where
  "open_store mkdir file init_io =
     (case mkdir of Some e \<Rightarrow> Inl (''create database directory: '' @ e, False)
      | None \<Rightarrow> (case file of Inl e \<Rightarrow> Inl (e, False)
          | Inr d \<Rightarrow> (case initialize init_io d of
              (Inl e, _) \<Rightarrow> Inl (e, True)
            | (Inr _, d') \<Rightarrow> Inr d')))"

text \<open>An opened store holds no IPv6 node, and the other nodes of the file unchanged.\<close>

lemma open_store_rows:
  assumes "open_store mkdir (Inr d) init_io = Inr d'"
  shows "rows d' = filter (\<lambda>r. CHR '':'' \<notin> set (c_ip r)) (rows d)"
  using assms by (auto simp: open_store_def initialize_def split: option.splits)

section \<open>The web server's library\<close>

definition executable_path :: "string result \<Rightarrow> (string \<Rightarrow> string result) \<Rightarrow> string result" where
  "executable_path executable eval_symlinks =
     (case executable of Inl e \<Rightarrow> Inl (''get executable path: '' @ e)
      | Inr path \<Rightarrow> (case eval_symlinks path of Inl e \<Rightarrow> Inl (''resolve executable path: '' @ e)
          | Inr path' \<Rightarrow> Inr path'))"

definition server_start :: "(string \<Rightarrow> string option) \<Rightarrow> string \<Rightarrow> string option" where
  "server_start listen address =
     (case listen address of Some e \<Rightarrow> Some (''start HTTP server: '' @ e) | None \<Rightarrow> None)"

definition server_stop :: "string option \<Rightarrow> string option" where
  "server_stop shutdown = (case shutdown of Some e \<Rightarrow> Some (''stop HTTP server: '' @ e) | None \<Rightarrow> None)"

text \<open>The embedded front end: a file of it, else \<open>index.html\<close>, which must be there.\<close>

definition assets_handler :: "(string \<rightharpoonup> string) \<Rightarrow> string \<Rightarrow> (nat \<times> string) option" where
  "assets_handler frontend path =
     (case frontend ''index.html'' of None \<Rightarrow> None
      | Some index \<Rightarrow> Some (200, case frontend path of Some contents \<Rightarrow> contents | None \<Rightarrow> index))"

section \<open>Sessions without a cache, servers without a service\<close>

text \<open>\<open>resolveSessionIPv4\<close>: \<open>cached\<close> is the cache's answer when the session has one.\<close>

definition resolve_session_ipv4 :: "ip list result option \<Rightarrow> (ip list \<times> int) result \<Rightarrow> ip list result" where
  "resolve_session_ipv4 cached looked_up =
     (case cached of Some answer \<Rightarrow> answer | None \<Rightarrow> map_sum id fst looked_up)"

definition session_listen_packet :: "(string \<Rightarrow> string \<Rightarrow> 'c result) option \<Rightarrow> string \<Rightarrow> string \<Rightarrow> 'c result" where
  "session_listen_packet packets network address =
     (case packets of None \<Rightarrow> Inl ''active VPN session does not support datagrams''
      | Some listen \<Rightarrow> listen network address)"

text \<open>\<open>Run\<close> of the SOCKS5 server: \<open>serving\<close> is what serving a bound listener returns.\<close>

definition run_server :: "'l result \<Rightarrow> ('l \<Rightarrow> string option) \<Rightarrow> string option" where
  "run_server listen serving =
     (case listen of Inl e \<Rightarrow> Some (''listen for SOCKS5: '' @ e) | Inr l \<Rightarrow> serving l)"

end
