(* ===== verification/Spec2Isabelle.thy ===== *)
theory Spec2Isabelle
  imports SocksUdp SocksRelay SocksServe VpnFlow VpnShutdown VpnDns SpeedTest WebHandlers App Drivers EndToEnd FirstStart Process
begin

text \<open>
  ProxyGate offers a SOCKS5 proxy whose traffic leaves through a VPN Gate relay. It downloads the
  public list of relays, keeps them in SQLite, connects to one (by rank or by hand), checks its
  health, fails over, and has a web interface. This development models its Go code, everything
  under \<open>src/internal\<close> and \<open>src/cmd/proxygate\<close> but the glue named at the end.

  Conventions. Strings are byte strings, bytes \<open>8 word\<close>s, the manager's counters \<open>64 word\<close>s. An
  error is the left of a sum (\<open>Prelude.result\<close>), with the text of the Go error, or \<open>Some\<close> where an
  operation returns nothing else. A handler or operation is a function of the state it works on and of
  what the world answers; \<open>io\<close> arguments are the failures of a disk or database call. Code that runs
  in goroutines is either a program of atomic sections run in any interleaving (\<open>Prog\<close>, the VPN
  manager) or a step relation (services, refresher, relays, associations, accept loop), with an
  invariant carried by the locales \<open>rely_guarantee\<close>, \<open>lifecycle\<close>, \<open>step_invariant\<close> and
  \<open>invariant_ops\<close>, each interpreted on the model's own steps.

  Shared theories. \<open>Prelude\<close>: results, bytes, big-endian words, the invariant locales. \<open>GoStrings\<close>,
  \<open>GoNet\<close>, \<open>GoTime\<close>, \<open>GoDuration\<close>, \<open>GoUrl\<close>, \<open>GoPath\<close>, \<open>GoBase64\<close>, \<open>GoCsv\<close>, \<open>Json\<close>: the parts of
  Go's library the code rests on (searching, trimming, decimal numbers with their overflow, addresses,
  RFC 3339 times, durations, request URIs, paths, base64, CSV with lazy quotes, decoding into
  structs), with the round trips the components need. Case folding is on ASCII.

  Node model and store. \<open>NodeModel\<close> is \<open>model/node.go\<close>. \<open>NodeStore\<close> is \<open>store/store.go\<close>: the two
  tables as a list of rows and a map, each statement or transaction the function it denotes. Addresses
  stay unique under every sequence of operations; pages are sorted and best first; measurements
  survive a refresh.

  Configuration. \<open>Config\<close> (records, defaults), \<open>ConfigValidate\<close> (\<open>Validate\<close> is exactly a declarative
  specification), \<open>ConfigStore\<close> (decoding, encoding, loading and saving over a disk: a failed save
  changes nothing in use, a saved configuration loads again), \<open>FirstStart\<close> (the password and secret
  generated when there is no file: logged once, kept afterwards).

  VPN manager, \<open>vpn/manager.go\<close>, \<open>vpn/health.go\<close>. \<open>VpnState\<close> has the manager's record and its
  critical sections, \<open>VpnManager\<close> the operations as programs of those sections, \<open>VpnGuarantee\<close> what
  holds under every interleaving (no session leaks, an installed session is open and was started for
  what is reported, a pause means direct routing, the switching locks cannot deadlock), \<open>VpnFlow\<close>
  what each operation does when nothing interferes. \<open>Pool\<close> is a pool of goroutines that share a
  counter and a closing flag; \<open>VpnShutdown\<close> interprets it on the manager: once \<open>Close\<close> has begun
  every execution of the goroutines there are is finite, and when it ends nothing is open.
  \<open>Session.Wait\<close> blocks until its session is closed or has ended or its context has; every other
  exchange with the outside is taken to answer. \<open>Drivers\<close> is
  \<open>vpn/vpn.go\<close>: what each driver hands to its protocol library, and that a session reaches no host
  but its node. \<open>VpnDns\<close> is \<open>vpn/dns.go\<close> and \<open>dns_cache.go\<close>:
  lookups through the tunnel, the bounded cache, and dialling.

  VPN Gate, \<open>vpngate/\<close>. \<open>VpnGate\<close> parses the downloaded list (one node per address, the first of its
  best scored rows), reads ports and protocols off profiles and runs the filter. \<open>Refresher\<close> takes a
  download to the node store and shows that a downloaded list always gets in.

  Services, \<open>service/\<close>. \<open>Service\<close> is the life of a background service (start, stop, restart, its
  goroutine and status; a goroutine's phases only advance), \<open>SpeedTest\<close> the queue of speed tests
  on top of it, refined to the life of a job.

  SOCKS5, \<open>socks5/\<close>. \<open>SocksWire\<close> has the byte formats, negotiation and requests, \<open>SocksServer\<close> a
  client's handling up to relaying and the forwarding of a datagram, \<open>SocksRelay\<close> the relay of a
  connection with its timers, \<open>SocksUdp\<close> an association with its queues and workers, \<open>SocksServe\<close> the
  accept loop.

  Web interface, \<open>server/\<close>. \<open>WebAuth\<close> has sessions, \<open>WebHandlers\<close> every handler over the components'
  operations. \<open>App\<close> has the routes, the version, and start-up and shutdown as a trace of actions,
  \<open>cmd/proxygate/app.go\<close>. \<open>Process\<close> has the command line, opening the database and the ends that
  meet the web framework.

  Across components. \<open>EndToEnd\<close> puts them together as \<open>app.go\<close> does: a SOCKS5 client is served through
  the manager's session or refused, a refreshed list is what the next automatic switch connects to,
  and a configuration sent over the web interface is the one the next start runs with.

  Bounds. Loops over lists are structural; the parsers that are not have a measure on the text that is
  left, so no function needs fuel. The size limits are the code's: 32 MiB of list, 256 cached answers,
  64 lookups, 64 waiting datagrams and four workers, 128 queued tests, 500 listed nodes.

  Parameters. HMAC, bcrypt and random values, the HTTP client, the JavaScript engine of the filter,
  the OpenVPN profile parser, the order in which Go iterates over a map, the router's matching, the
  protocol libraries' sessions, the dialer and the sockets are
  arguments or inputs of steps. What is assumed of them is in the statements: the map order is a
  permutation, and the router applies a group's middleware below the group's prefix.

  Not modelled. Log output other than the first password, the wording of durations in error
  messages, the list of signals, \<open>exec\<close>, and the constructors that only fill a struct: they pass values to
  a library or the operating system and do nothing else. What a protocol library does with the
  configuration it is handed is the library's. Sleeping after a failed log-in, deadlines (they appear
  as failing reads and writes) and the compression and panic recovery of the web framework are left
  out.
\<close>

end
